(* ===== verification/Prelude.thy ===== *)
theory Prelude
  imports Main "HOL-Library.Word"
begin

unbundle bit_operations_syntax

text \<open>
  Vocabulary shared by every component: results that may fail, the arithmetic of
  \<open>size_t\<close> with its wrap-around, the memory primitives the C++ code uses on a
  \<open>std::vector<char>\<close> (\<open>memcpy\<close>, \<open>std::copy\<close>, pointer reads) with their bounds as
  explicit failures, and the fact collections the component proofs share.
\<close>

named_theorems res_simps \<open>evaluation of results that may fail\<close>
named_theorems sz_simps \<open>size_t arithmetic that does not wrap\<close>

section \<open>Results\<close>

text \<open>
  Ways in which the C++ code stops: a failed \<open>assert\<close>, an access outside an
  allocation, undefined behaviour of the language (a missing \<open>return\<close>, overlapping
  \<open>std::copy\<close>), a failed allocation of a vector, \<open>std::runtime_error\<close>, and
  \<open>exit\<close>/\<open>abort\<close>. \<open>Blocked\<close> is a wait nobody ends, \<open>OutOfFuel\<close> marks a recursion cut off by its bound.
\<close>

datatype failure =
  AssertFailed | OutOfBounds | Undefined | AllocError | RuntimeError | Exited | Blocked | OutOfFuel

type_synonym 'a res = "failure + 'a"

definition bind_res :: "'a res \<Rightarrow> ('a \<Rightarrow> 'b res) \<Rightarrow> 'b res" where
  "bind_res m f = (case m of Inl e \<Rightarrow> Inl e | Inr x \<Rightarrow> f x)"

definition assert_then :: "bool \<Rightarrow> 'a res \<Rightarrow> 'a res" where
  "assert_then p m = (if p then m else Inl AssertFailed)"

lemma bind_res_simps [simp, res_simps]:
  "bind_res (Inl e) f = Inl e"
  "bind_res (Inr x) f = f x"
  by (simp_all add: bind_res_def)

lemma bind_res_Inr_iff [res_simps]:
  "bind_res m f = Inr y \<longleftrightarrow> (\<exists>x. m = Inr x \<and> f x = Inr y)"
  by (cases m) auto

lemma assert_then_simps [simp, res_simps]:
  "assert_then True m = m"
  "assert_then False m = Inl AssertFailed"
  by (simp_all add: assert_then_def)

lemma assert_then_Inr_iff [res_simps]:
  "assert_then p m = Inr y \<longleftrightarrow> p \<and> m = Inr y"
  by (cases p) auto

section \<open>size\_t\<close>

text \<open>
  A \<open>size_t\<close> is a natural number below \<open>2\<^sup>6\<^sup>4\<close>; the operations wrap around as the
  64-bit unsigned arithmetic of the code does.
\<close>

abbreviation sz_modulus :: nat where
  "sz_modulus \<equiv> 18446744073709551616"

text \<open>
  A vector longer than \<open>PTRDIFF_MAX\<close> throws \<open>std::length_error\<close>, one that does not fit the
  47-bit user address space of a 64-bit Linux process throws \<open>std::bad_alloc\<close>; both leave the
  state as it was and are the failure \<open>AllocError\<close>. Whether a smaller allocation succeeds
  is not modelled.
\<close>

abbreviation alloc_max :: nat where
  "alloc_max \<equiv> 140737488355328"

definition sz_add :: "nat \<Rightarrow> nat \<Rightarrow> nat" where
  "sz_add a b = (a + b) mod sz_modulus"

definition sz_sub :: "nat \<Rightarrow> nat \<Rightarrow> nat" where
  "sz_sub a b = (a + (sz_modulus - b)) mod sz_modulus"

definition sz_mul :: "nat \<Rightarrow> nat \<Rightarrow> nat" where
  "sz_mul a b = (a * b) mod sz_modulus"

lemma sz_modulus_eq: "sz_modulus = 2 ^ 64" and alloc_max_eq: "alloc_max = 2 ^ 47"
  by simp_all

lemma sz_add_exact [sz_simps]: "a + b < sz_modulus \<Longrightarrow> sz_add a b = a + b"
  by (simp add: sz_add_def)

lemma sz_mul_exact [sz_simps]: "a * b < sz_modulus \<Longrightarrow> sz_mul a b = a * b"
  by (simp add: sz_mul_def)

lemma sz_sub_exact [sz_simps]:
  assumes "b \<le> a" "a < sz_modulus"
  shows "sz_sub a b = a - b"
proof -
  from assms have "a + (sz_modulus - b) = (a - b) + sz_modulus" by linarith
  then show ?thesis using assms unfolding sz_sub_def by (simp only: mod_add_self2) simp
qed

lemma sz_sub_wraps [sz_simps]:
  assumes "a < b" "b < sz_modulus"
  shows "sz_sub a b = sz_modulus - (b - a)"
proof -
  from assms have "a + (sz_modulus - b) = sz_modulus - (b - a)" by linarith
  moreover have "sz_modulus - (b - a) < sz_modulus" using assms by linarith
  ultimately show ?thesis unfolding sz_sub_def by (simp only: mod_less)
qed

section \<open>Memory of a byte vector\<close>

type_synonym byte = "8 word"

definition mem_read :: "byte list \<Rightarrow> nat \<Rightarrow> nat \<Rightarrow> byte list res" where
  "mem_read buf off n =
     (if off + n \<le> length buf then Inr (take n (drop off buf)) else Inl OutOfBounds)"

definition mem_write :: "byte list \<Rightarrow> nat \<Rightarrow> byte list \<Rightarrow> byte list res" where
  "mem_write buf off bs =
     (if off + length bs \<le> length buf
      then Inr (take off buf @ bs @ drop (off + length bs) buf) else Inl OutOfBounds)"

text \<open>
  \<open>std::copy(first, last, dst)\<close> inside one vector. The standard leaves the call undefined
  when the destination starts inside the source range; a destination equal to the start of the
  source copies each byte onto itself and is accepted here.
\<close>

definition std_copy :: "byte list \<Rightarrow> nat \<Rightarrow> nat \<Rightarrow> nat \<Rightarrow> byte list res" where
  "std_copy buf lo hi dst =
     (if \<not> (lo \<le> hi \<and> hi \<le> length buf) then Inl OutOfBounds
      else if lo < dst \<and> dst < hi then Inl Undefined
      else mem_write buf dst (take (hi - lo) (drop lo buf)))"

definition vector_resize :: "byte list \<Rightarrow> nat \<Rightarrow> byte list" where
  "vector_resize buf n = take n buf @ replicate (n - length buf) 0"

lemma mem_read_exact: "off + n \<le> length buf \<Longrightarrow> mem_read buf off n = Inr (take n (drop off buf))"
  by (simp add: mem_read_def)

lemma mem_write_exact:
  "off + length bs \<le> length buf \<Longrightarrow>
   mem_write buf off bs = Inr (take off buf @ bs @ drop (off + length bs) buf)"
  by (simp add: mem_write_def)

lemma mem_write_length: "mem_write buf off bs = Inr buf' \<Longrightarrow> length buf' = length buf"
  by (auto simp: mem_write_def split: if_splits)

lemma length_vector_resize [simp]: "length (vector_resize buf n) = n"
  by (simp add: vector_resize_def)

section \<open>Lists\<close>

lemma take_drop_split:
  "a \<le> b \<Longrightarrow> b \<le> c \<Longrightarrow>
   take (c - a) (drop a xs) = take (b - a) (drop a xs) @ take (c - b) (drop b xs)"
  using take_add [of "b - a" "c - b" "drop a xs"] by simp

end
