(* ===== verification/ByteQueue.thy ===== *)
theory ByteQueue
  imports Prelude
begin

text \<open>
  The contract of a byte queue: what the buffer of src/xiaoNet/utils/MsgBuffer.h promises to the
  code that fills it at one end and consumes it at the other (the buffer nodes of
  src/xiaoNet/net/inner and the connection). The laws are the assumptions of the locale; the
  client lemmas, proved once inside it, follow any sequence of operations.
\<close>

datatype queue_op = Put "byte list" | Take nat

fun put_bytes :: "queue_op list \<Rightarrow> byte list" where
  "put_bytes [] = []"
| "put_bytes (Put bs # ops) = bs @ put_bytes ops"
| "put_bytes (Take n # ops) = put_bytes ops"

fun puts_bounded :: "queue_op list \<Rightarrow> bool" where
  "puts_bounded [] = True"
| "puts_bounded (Put bs # ops) = (length bs \<le> alloc_max \<and> puts_bounded ops)"
| "puts_bounded (Take n # ops) = puts_bounded ops"

text \<open>Runs the operations; the result holds the bytes taken out and the final queue.\<close>

fun run_queue ::
  "('q \<Rightarrow> byte list \<Rightarrow> 'q res) \<Rightarrow> ('q \<Rightarrow> nat \<Rightarrow> (byte list \<times> 'q) res) \<Rightarrow> 'q \<Rightarrow> queue_op list \<Rightarrow>
   (byte list \<times> 'q) res" where
  "run_queue put get q [] = Inr ([], q)"
| "run_queue put get q (Put bs # ops) = bind_res (put q bs) (\<lambda>q. run_queue put get q ops)"
| "run_queue put get q (Take n # ops) =
     bind_res (get q n)
       (\<lambda>(out, q). bind_res (run_queue put get q ops) (\<lambda>(outs, q). Inr (out @ outs, q)))"

locale byte_queue =
  fixes invar :: "'q \<Rightarrow> bool"
    and content :: "'q \<Rightarrow> byte list"
    and put :: "'q \<Rightarrow> byte list \<Rightarrow> 'q res"
    and get :: "'q \<Rightarrow> nat \<Rightarrow> (byte list \<times> 'q) res"
  assumes put_law: "invar q \<Longrightarrow> length bs \<le> alloc_max \<Longrightarrow>
      put q bs = Inl AllocError \<or> (\<exists>q'. put q bs = Inr q' \<and> invar q' \<and> content q' = content q @ bs)"
    and get_law: "invar q \<Longrightarrow>
      \<exists>q'. get q n = Inr (take n (content q), q') \<and> invar q' \<and> content q' = drop n (content q)"
begin

lemma get_obtain:
  assumes "invar q"
  obtains q' where "get q n = Inr (take n (content q), q')" "invar q'" "content q' = drop n (content q)"
  using get_law [OF assms] by blast

lemma run_stream:
  assumes "invar q" "puts_bounded ops"
  shows "run_queue put get q ops = Inl AllocError \<or>
    (\<exists>out q'. run_queue put get q ops = Inr (out, q') \<and> invar q' \<and>
       out @ content q' = content q @ put_bytes ops)"
  using assms
proof (induction ops arbitrary: q)
  case Nil
  then show ?case by simp
next
  case (Cons op ops)
  show ?case
  proof (cases op)
    case (Put bs)
    with Cons.prems have "length bs \<le> alloc_max" "puts_bounded ops" by simp_all
    then consider (full) "put q bs = Inl AllocError"
      | (ok) q' where "put q bs = Inr q'" "invar q'" "content q' = content q @ bs"
      using put_law [OF Cons.prems(1)] by blast
    then show ?thesis
    proof cases
      case full
      with Put show ?thesis by simp
    next
      case (ok q')
      have "puts_bounded ops" using Cons.prems(2) Put by simp
      from Cons.IH [OF ok(2) this] ok Put show ?thesis by auto
    qed
  next
    case (Take n)
    with Cons.prems have "puts_bounded ops" by simp
    obtain q' where q': "get q n = Inr (take n (content q), q')" "invar q'"
      "content q' = drop n (content q)"
      using get_obtain [OF Cons.prems(1)] .
    from Cons.IH [OF q'(2) \<open>puts_bounded ops\<close>] q' Take show ?thesis
      by (auto simp: bind_res_def)
  qed
qed

end

end
