(* ===== verification/MsgBuffer.thy ===== *)
theory MsgBuffer
  imports ByteQueue
begin

text \<open>
  The byte buffer of src/xiaoNet/utils/MsgBuffer.h and MsgBuffer.cpp: a vector of bytes with a
  head and a tail index, eight bytes of head room, growth by doubling, and the integer readers
  and writers in network byte order. The theory models every operation, defines the
  well-formedness invariant and the abstraction \<open>mb_content\<close> (the readable bytes), and shows
  that the buffer implements a byte queue.
\<close>

section \<open>State\<close>

definition kBufferDefaultLength :: nat where
  "kBufferDefaultLength = 2048"

definition kBufferOffset :: nat where
  "kBufferOffset = 8"

record MsgBuffer =
  mb_head :: nat
  mb_initCap :: nat
  mb_buffer :: "byte list"
  mb_tail :: nat

text \<open>
  The constructor. \<open>len + head_\<close> wraps as \<open>size_t\<close> does.
\<close>

definition MsgBuffer_new :: "nat \<Rightarrow> MsgBuffer res" where
  "MsgBuffer_new len =
     (let n = sz_add len kBufferOffset in
      if alloc_max < n then Inl AllocError
      else Inr \<lparr>mb_head = kBufferOffset, mb_initCap = len, mb_buffer = replicate n 0,
                mb_tail = kBufferOffset\<rparr>)"

definition readableBytes :: "MsgBuffer \<Rightarrow> nat" where
  "readableBytes b = sz_sub (mb_tail b) (mb_head b)"

definition writableBytes :: "MsgBuffer \<Rightarrow> nat" where
  "writableBytes b = sz_sub (length (mb_buffer b)) (mb_tail b)"

text \<open>The \<open>n\<close> bytes a caller reads from the pointer \<open>peek()\<close>.\<close>

definition MsgBuffer_peek :: "MsgBuffer \<Rightarrow> nat \<Rightarrow> byte list res" where
  "MsgBuffer_peek b n = mem_read (mb_buffer b) (mb_head b) n"

section \<open>Writing\<close>

text \<open>The \<open>memcpy\<close> and the tail update that end both \<open>append\<close> overloads.\<close>

definition MsgBuffer_put :: "MsgBuffer \<Rightarrow> byte list \<Rightarrow> MsgBuffer res" where
  "MsgBuffer_put b bs =
     bind_res (mem_write (mb_buffer b) (mb_tail b) bs)
       (\<lambda>buf. Inr (b\<lparr>mb_buffer := buf, mb_tail := sz_add (mb_tail b) (length bs)\<rparr>))"

text \<open>
  \<open>ensureWritableBytes\<close> builds a new buffer and calls \<open>append(const MsgBuffer &)\<close> on it,
  which calls \<open>ensureWritableBytes\<close> again; the first argument bounds that recursion.
  After the swap the buffer is the new one (all four fields are exchanged).
\<close>

fun ensure_fuel :: "nat \<Rightarrow> nat \<Rightarrow> MsgBuffer \<Rightarrow> MsgBuffer res" where
  "ensure_fuel 0 len b = Inl OutOfFuel"
| "ensure_fuel (Suc k) len b =
     (if len < writableBytes b then Inr b
      else if sz_add len kBufferOffset \<le> sz_add (mb_head b) (writableBytes b) then
        bind_res (std_copy (mb_buffer b) (mb_head b) (mb_tail b) kBufferOffset)
          (\<lambda>buf. Inr (b\<lparr>mb_buffer := buf,
                        mb_tail := sz_add kBufferOffset (sz_sub (mb_tail b) (mb_head b)),
                        mb_head := kBufferOffset\<rparr>))
      else
        (let needed = sz_add (sz_add kBufferOffset (readableBytes b)) len;
             doubled = sz_mul (length (mb_buffer b)) 2;
             newLen = (if needed < doubled then doubled else needed)
         in bind_res (MsgBuffer_new newLen)
              (\<lambda>nb. bind_res (ensure_fuel k (readableBytes b) nb)
              (\<lambda>nb. bind_res (MsgBuffer_peek b (readableBytes b)) (MsgBuffer_put nb)))))"

definition ensureWritableBytes :: "nat \<Rightarrow> MsgBuffer \<Rightarrow> MsgBuffer res" where
  "ensureWritableBytes = ensure_fuel 2"

definition MsgBuffer_append :: "MsgBuffer \<Rightarrow> byte list \<Rightarrow> MsgBuffer res" where
  "MsgBuffer_append b bs = bind_res (ensureWritableBytes (length bs) b) (\<lambda>b. MsgBuffer_put b bs)"

definition MsgBuffer_append_buf :: "MsgBuffer \<Rightarrow> MsgBuffer \<Rightarrow> MsgBuffer res" where
  "MsgBuffer_append_buf b src =
     bind_res (ensureWritableBytes (readableBytes src) b)
       (\<lambda>b. bind_res (MsgBuffer_peek src (readableBytes src)) (MsgBuffer_put b))"

definition MsgBuffer_swap :: "MsgBuffer \<Rightarrow> MsgBuffer \<Rightarrow> MsgBuffer \<times> MsgBuffer" where
  "MsgBuffer_swap a b =
     (a\<lparr>mb_buffer := mb_buffer b, mb_head := mb_head b, mb_tail := mb_tail b,
        mb_initCap := mb_initCap b\<rparr>,
      b\<lparr>mb_buffer := mb_buffer a, mb_head := mb_head a, mb_tail := mb_tail a,
        mb_initCap := mb_initCap a\<rparr>)"

definition addInFront :: "MsgBuffer \<Rightarrow> byte list \<Rightarrow> MsgBuffer res" where
  "addInFront b bs =
     (let len = length bs in
      if len \<le> mb_head b then
        bind_res (mem_write (mb_buffer b) (mb_head b - len) bs)
          (\<lambda>buf. Inr (b\<lparr>mb_buffer := buf, mb_head := mb_head b - len\<rparr>))
      else if len \<le> writableBytes b then
        bind_res (std_copy (mb_buffer b) (mb_head b) (mb_tail b) (sz_add (mb_head b) len))
          (\<lambda>buf. bind_res (mem_write buf (mb_head b) bs)
          (\<lambda>buf. Inr (b\<lparr>mb_buffer := buf, mb_tail := sz_add (mb_tail b) len\<rparr>)))
      else
        (let needed = sz_add len (readableBytes b);
             newLen = (if needed < mb_initCap b then mb_initCap b else needed)
         in bind_res (MsgBuffer_new newLen)
              (\<lambda>nb. bind_res (MsgBuffer_append nb bs)
              (\<lambda>nb. MsgBuffer_append_buf nb b))))"

definition hasWritten :: "MsgBuffer \<Rightarrow> nat \<Rightarrow> MsgBuffer res" where
  "hasWritten b len =
     assert_then (len \<le> writableBytes b) (Inr (b\<lparr>mb_tail := sz_add (mb_tail b) len\<rparr>))"

definition unwrite :: "MsgBuffer \<Rightarrow> nat \<Rightarrow> MsgBuffer res" where
  "unwrite b offset =
     assert_then (offset \<le> readableBytes b) (Inr (b\<lparr>mb_tail := sz_sub (mb_tail b) offset\<rparr>))"

section \<open>Reading\<close>

definition retrieveAll :: "MsgBuffer \<Rightarrow> MsgBuffer" where
  "retrieveAll b =
     (let b = (if sz_mul (mb_initCap b) 2 < length (mb_buffer b)
               then b\<lparr>mb_buffer := vector_resize (mb_buffer b) (mb_initCap b)\<rparr> else b)
      in b\<lparr>mb_tail := kBufferOffset, mb_head := kBufferOffset\<rparr>)"

definition MsgBuffer_retrieve :: "MsgBuffer \<Rightarrow> nat \<Rightarrow> MsgBuffer" where
  "MsgBuffer_retrieve b len =
     (if readableBytes b \<le> len then retrieveAll b
      else b\<lparr>mb_head := sz_add (mb_head b) len\<rparr>)"

definition MsgBuffer_read :: "MsgBuffer \<Rightarrow> nat \<Rightarrow> (byte list \<times> MsgBuffer) res" where
  "MsgBuffer_read b len =
     (let len = (if readableBytes b < len then readableBytes b else len)
      in bind_res (MsgBuffer_peek b len) (\<lambda>ret. Inr (ret, MsgBuffer_retrieve b len)))"

text \<open>
  \<open>retrieveUntil(end)\<close>, with the pointer as an index into the vector.
\<close>

definition retrieveUntil :: "MsgBuffer \<Rightarrow> nat \<Rightarrow> MsgBuffer res" where
  "retrieveUntil b e =
     assert_then (mb_head b \<le> e)
       (assert_then (e \<le> mb_tail b) (Inr (MsgBuffer_retrieve b (e - mb_head b))))"

definition MsgBuffer_at :: "MsgBuffer \<Rightarrow> nat \<Rightarrow> byte res" where
  "MsgBuffer_at b offset =
     assert_then (offset \<le> readableBytes b)
       (if sz_add (mb_head b) offset < length (mb_buffer b)
        then Inr (mb_buffer b ! sz_add (mb_head b) offset) else Inl OutOfBounds)"

text \<open>\<open>std::search\<close> for the two bytes CR LF; \<open>None\<close> is the null pointer.\<close>

fun search_crlf :: "byte list \<Rightarrow> nat option" where
  "search_crlf (a # c # xs) =
     (if a = 13 \<and> c = 10 then Some 0 else map_option Suc (search_crlf (c # xs)))"
| "search_crlf _ = None"

definition findCRLF :: "MsgBuffer \<Rightarrow> nat option res" where
  "findCRLF b = bind_res (MsgBuffer_peek b (readableBytes b)) (\<lambda>bs. Inr (search_crlf bs))"

section \<open>Well-formedness and abstraction\<close>

text \<open>
  The indices lie inside the vector, the vector is one the library can allocate, and the initial
  capacity holds at least the head room: with a smaller one \<open>retrieveAll\<close> leaves the tail
  beyond the end of the vector (see \<open>small_capacity_append\<close> in the theory \<open>BufferProps\<close>).
\<close>

definition mb_wf :: "MsgBuffer \<Rightarrow> bool" where
  "mb_wf b \<longleftrightarrow> mb_head b \<le> mb_tail b \<and> mb_tail b \<le> length (mb_buffer b) \<and>
     kBufferOffset \<le> length (mb_buffer b) \<and> length (mb_buffer b) \<le> alloc_max \<and> kBufferOffset \<le> mb_initCap b \<and> mb_initCap b \<le> alloc_max"

definition mb_content :: "MsgBuffer \<Rightarrow> byte list" where
  "mb_content b = take (mb_tail b - mb_head b) (drop (mb_head b) (mb_buffer b))"

named_theorems mb_defs \<open>field-level definitions of the buffer\<close>

lemmas mb_basic_defs [mb_defs] =
  kBufferOffset_def mb_wf_def mb_content_def readableBytes_def writableBytes_def

lemma readable_eq [sz_simps]: "mb_wf b \<Longrightarrow> readableBytes b = mb_tail b - mb_head b"
  by (simp add: mb_defs sz_simps)

lemma readable_content: "mb_wf b \<Longrightarrow> readableBytes b = length (mb_content b)"
  by (auto simp: mb_defs sz_simps)

lemma writable_eq [sz_simps]: "mb_wf b \<Longrightarrow> writableBytes b = length (mb_buffer b) - mb_tail b"
  by (simp add: mb_defs sz_simps)

lemma readable_max: "mb_wf b \<Longrightarrow> readableBytes b \<le> alloc_max"
  by (auto simp: mb_defs sz_simps)

lemma peek_content: "mb_wf b \<Longrightarrow> MsgBuffer_peek b (readableBytes b) = Inr (mb_content b)"
  by (simp add: MsgBuffer_peek_def mem_read_def mb_defs sz_simps)

lemma peek_prefix:
  "mb_wf b \<Longrightarrow> n \<le> readableBytes b \<Longrightarrow> MsgBuffer_peek b n = Inr (take n (mb_content b))"
  by (auto simp: MsgBuffer_peek_def mem_read_def mb_defs sz_simps)

lemma new_cases:
  assumes "kBufferOffset \<le> len" "len \<le> alloc_max"
  shows "MsgBuffer_new len = Inl AllocError \<or>
    (\<exists>b. MsgBuffer_new len = Inr b \<and> mb_wf b \<and> mb_content b = [] \<and> writableBytes b = len \<and>
         mb_tail b = kBufferOffset)"
  using assms by (auto simp: MsgBuffer_new_def Let_def mb_defs sz_simps)

lemma new_ok:
  assumes "kBufferOffset \<le> len" "len + kBufferOffset \<le> alloc_max"
  shows "\<exists>b. MsgBuffer_new len = Inr b \<and> mb_wf b \<and> mb_content b = [] \<and> writableBytes b = len \<and>
             mb_tail b = kBufferOffset"
  using assms by (auto simp: MsgBuffer_new_def Let_def mb_defs sz_simps)

lemma put_ok:
  assumes "mb_wf b" "length bs \<le> writableBytes b"
  shows "\<exists>b'. MsgBuffer_put b bs = Inr b' \<and> mb_wf b' \<and> mb_content b' = mb_content b @ bs \<and>
              length (mb_buffer b') = length (mb_buffer b) \<and> mb_initCap b' = mb_initCap b"
  using assms
  by (auto simp: MsgBuffer_put_def mem_write_def mb_defs sz_simps drop_take)

lemma compact_ok:
  assumes "mb_wf b" "kBufferOffset \<le> mb_head b"
  shows "\<exists>buf. std_copy (mb_buffer b) (mb_head b) (mb_tail b) kBufferOffset = Inr buf \<and>
    length buf = length (mb_buffer b) \<and>
    take (mb_tail b - mb_head b) (drop kBufferOffset buf) = mb_content b"
  using assms
  by (auto simp: std_copy_def mem_write_def mb_defs)

text \<open>A buffer just built has room for the old content, so the inner call returns at once.\<close>

lemma ensure_fuel_room: "len < writableBytes b \<Longrightarrow> ensure_fuel (Suc k) len b = Inr b"
  by simp

lemma put_exact_room:
  assumes "mb_wf b" "length bs \<le> writableBytes b" "MsgBuffer_put b bs = Inr b'"
  shows "writableBytes b' = writableBytes b - length bs"
  using assms
  by (auto simp: MsgBuffer_put_def mem_write_def mb_defs sz_simps split: if_splits)

text \<open>
  The growth branch: a fresh buffer of \<open>newLen\<close> bytes, into which the old content is appended.
\<close>

definition regrow :: "nat \<Rightarrow> MsgBuffer \<Rightarrow> nat \<Rightarrow> MsgBuffer res" where
  "regrow k b newLen =
     bind_res (MsgBuffer_new newLen)
       (\<lambda>nb. bind_res (ensure_fuel k (readableBytes b) nb)
       (\<lambda>nb. bind_res (MsgBuffer_peek b (readableBytes b)) (MsgBuffer_put nb)))"

lemma regrow_ok:
  assumes wf: "mb_wf b" and new: "MsgBuffer_new newLen = Inr nb" "mb_wf nb" "mb_content nb = []"
    "writableBytes nb = newLen" and len: "readableBytes b < newLen"
  shows "\<exists>b'. regrow (Suc k) b newLen = Inr b' \<and> mb_wf b' \<and> mb_content b' = mb_content b \<and>
              writableBytes b' = newLen - readableBytes b"
proof -
  have inner: "ensure_fuel (Suc k) (readableBytes b) nb = Inr nb"
    using new len by (simp only: ensure_fuel_room)
  have room: "length (mb_content b) \<le> writableBytes nb"
    using len new readable_content [OF wf] by simp
  obtain b' where b': "MsgBuffer_put nb (mb_content b) = Inr b'" "mb_wf b'"
    "mb_content b' = mb_content b"
    using put_ok [OF new(2) room] new(3) by auto
  have "writableBytes b' = newLen - readableBytes b"
    using put_exact_room [OF new(2) room b'(1)] new(4) readable_content [OF wf] by simp
  with b' inner new(1) peek_content [OF wf] show ?thesis
    unfolding regrow_def by (simp del: ensure_fuel.simps)
qed

lemma ensure_fuel_Suc:
  "ensure_fuel (Suc k) len b =
     (if len < writableBytes b then Inr b
      else if sz_add len kBufferOffset \<le> sz_add (mb_head b) (writableBytes b) then
        bind_res (std_copy (mb_buffer b) (mb_head b) (mb_tail b) kBufferOffset)
          (\<lambda>buf. Inr (b\<lparr>mb_buffer := buf,
                        mb_tail := sz_add kBufferOffset (sz_sub (mb_tail b) (mb_head b)),
                        mb_head := kBufferOffset\<rparr>))
      else regrow k b
             (if sz_add (sz_add kBufferOffset (readableBytes b)) len < sz_mul (length (mb_buffer b)) 2
              then sz_mul (length (mb_buffer b)) 2
              else sz_add (sz_add kBufferOffset (readableBytes b)) len))"
  by (simp add: regrow_def Let_def)

lemma compact_result:
  assumes "mb_wf b" "kBufferOffset \<le> mb_head b"
    "std_copy (mb_buffer b) (mb_head b) (mb_tail b) kBufferOffset = Inr buf"
  shows "mb_wf (b\<lparr>mb_buffer := buf, mb_tail := kBufferOffset + (mb_tail b - mb_head b),
                  mb_head := kBufferOffset\<rparr>)"
    "mb_content (b\<lparr>mb_buffer := buf, mb_tail := kBufferOffset + (mb_tail b - mb_head b),
                  mb_head := kBufferOffset\<rparr>) = mb_content b"
    "writableBytes (b\<lparr>mb_buffer := buf, mb_tail := kBufferOffset + (mb_tail b - mb_head b),
                  mb_head := kBufferOffset\<rparr>) = mb_head b + writableBytes b - kBufferOffset"
  using assms compact_ok [OF assms(1,2)] by (auto simp: mb_defs sz_simps)

text \<open>
  \<open>ensureWritableBytes\<close> keeps the content and makes room, or throws on a failed allocation
  without touching the buffer. The recursion bound 2 is enough: the result is never
  \<open>OutOfFuel\<close>.
\<close>

lemma ensure_room:
  assumes wf: "mb_wf b" and len: "len \<le> alloc_max"
  shows "ensureWritableBytes len b = Inl AllocError \<or>
    (\<exists>b'. ensureWritableBytes len b = Inr b' \<and> mb_wf b' \<and> mb_content b' = mb_content b \<and>
          len \<le> writableBytes b')"
proof -
  let ?needed = "kBufferOffset + readableBytes b + len"
  let ?doubled = "length (mb_buffer b) * 2"
  let ?newLen = "if ?needed < ?doubled then ?doubled else ?needed"
  have bounds: "readableBytes b \<le> alloc_max" "length (mb_buffer b) \<le> alloc_max"
    "mb_head b + writableBytes b \<le> alloc_max"
    using wf readable_max [OF wf] by (auto simp: mb_defs sz_simps)
  have unfold: "ensureWritableBytes len b = (if len < writableBytes b then Inr b
      else if len + kBufferOffset \<le> mb_head b + writableBytes b then
        bind_res (std_copy (mb_buffer b) (mb_head b) (mb_tail b) kBufferOffset)
          (\<lambda>buf. Inr (b\<lparr>mb_buffer := buf, mb_tail := kBufferOffset + (mb_tail b - mb_head b),
                        mb_head := kBufferOffset\<rparr>))
      else regrow 1 b ?newLen)"
  proof -
    have "sz_add len kBufferOffset = len + kBufferOffset"
      "sz_add (mb_head b) (writableBytes b) = mb_head b + writableBytes b"
      "sz_add kBufferOffset (readableBytes b) = kBufferOffset + readableBytes b"
      "sz_add (kBufferOffset + readableBytes b) len = ?needed"
      "sz_mul (length (mb_buffer b)) 2 = ?doubled"
      using len bounds by (auto intro!: sz_add_exact sz_mul_exact simp: kBufferOffset_def)
    moreover have "sz_sub (mb_tail b) (mb_head b) = mb_tail b - mb_head b"
      using wf by (auto intro!: sz_sub_exact simp: mb_wf_def)
    moreover have "sz_add kBufferOffset (mb_tail b - mb_head b) = kBufferOffset + (mb_tail b - mb_head b)"
      by (rule sz_add_exact) (use wf in \<open>auto simp: mb_wf_def kBufferOffset_def\<close>)
    ultimately show ?thesis
      unfolding ensureWritableBytes_def numeral_2_eq_2 ensure_fuel_Suc by (simp only: One_nat_def)
  qed
  consider (room) "len < writableBytes b"
    | (move) "\<not> len < writableBytes b" "len + kBufferOffset \<le> mb_head b + writableBytes b"
    | (grow) "\<not> len < writableBytes b" "\<not> len + kBufferOffset \<le> mb_head b + writableBytes b"
    by blast
  then show ?thesis
  proof cases
    case room
    with unfold wf show ?thesis by auto
  next
    case move
    then have head: "kBufferOffset \<le> mb_head b" by linarith
    obtain buf where buf:
      "std_copy (mb_buffer b) (mb_head b) (mb_tail b) kBufferOffset = Inr buf"
      using compact_ok [OF wf head] by auto
    with compact_result [OF wf head buf] move unfold show ?thesis by auto
  next
    case grow
    have "MsgBuffer_new ?newLen = Inl AllocError \<or> ?newLen \<le> alloc_max"
      using bounds len by (auto simp: MsgBuffer_new_def Let_def sz_simps kBufferOffset_def)
    then show ?thesis
    proof
      assume "MsgBuffer_new ?newLen = Inl AllocError"
      with grow unfold show ?thesis by (simp add: regrow_def)
    next
      assume max: "?newLen \<le> alloc_max"
      have "kBufferOffset \<le> ?newLen" by auto
      from new_cases [OF this max] show ?thesis
      proof (elim disjE exE conjE)
        assume "MsgBuffer_new ?newLen = Inl AllocError"
        with grow unfold show ?thesis by (simp add: regrow_def)
      next
        fix nb assume nb: "MsgBuffer_new ?newLen = Inr nb" "mb_wf nb" "mb_content nb = []"
          "writableBytes nb = ?newLen"
        have "readableBytes b < ?newLen" by (auto simp: kBufferOffset_def)
        from regrow_ok [OF wf nb this, of 0] grow unfold show ?thesis by auto
      qed
    qed
  qed
qed

section \<open>The buffer as a byte queue\<close>

lemma append_result:
  assumes "mb_wf b" "length bs \<le> alloc_max"
  shows "MsgBuffer_append b bs = Inl AllocError \<or>
    (\<exists>b'. MsgBuffer_append b bs = Inr b' \<and> mb_wf b' \<and> mb_content b' = mb_content b @ bs)"
  using ensure_room [OF assms] put_ok unfolding MsgBuffer_append_def by fastforce

lemma append_buf_eq:
  "mb_wf src \<Longrightarrow> MsgBuffer_append_buf b src = MsgBuffer_append b (mb_content src)"
  by (simp add: MsgBuffer_append_buf_def MsgBuffer_append_def peek_content flip: readable_content)

lemma append_room:
  assumes "mb_wf b" "length bs < writableBytes b"
  shows "\<exists>b'. MsgBuffer_append b bs = Inr b' \<and> mb_wf b' \<and> mb_content b' = mb_content b @ bs \<and>
              length (mb_buffer b') = length (mb_buffer b) \<and> mb_initCap b' = mb_initCap b"
proof -
  have "ensureWritableBytes (length bs) b = Inr b"
    using assms(2) by (simp add: ensureWritableBytes_def numeral_2_eq_2)
  with put_ok [OF assms(1), of bs] assms(2) show ?thesis by (simp add: MsgBuffer_append_def)
qed

lemma retrieveAll_wf: "mb_wf b \<Longrightarrow> mb_wf (retrieveAll b)"
  by (auto simp: retrieveAll_def Let_def mb_defs sz_simps)

lemma retrieveAll_content: "mb_content (retrieveAll b) = []"
  by (simp add: retrieveAll_def Let_def mb_defs)

lemma retrieve_wf: "mb_wf b \<Longrightarrow> mb_wf (MsgBuffer_retrieve b n)"
  by (auto simp: MsgBuffer_retrieve_def retrieveAll_wf) (auto simp: mb_defs sz_simps)

lemma retrieve_content: "mb_wf b \<Longrightarrow> mb_content (MsgBuffer_retrieve b n) = drop n (mb_content b)"
  by (auto simp: MsgBuffer_retrieve_def retrieveAll_content readable_content)
     (auto simp: mb_defs sz_simps add.commute drop_take)

lemma read_result:
  "mb_wf b \<Longrightarrow> \<exists>b'. MsgBuffer_read b n = Inr (take n (mb_content b), b') \<and>
     mb_wf b' \<and> mb_content b' = drop n (mb_content b)"
  by (auto simp: MsgBuffer_read_def Let_def peek_prefix retrieve_wf retrieve_content
      readable_content)

lemma retrieveUntil_result:
  assumes "mb_wf b" "mb_head b \<le> e" "e \<le> mb_tail b"
  shows "\<exists>b'. retrieveUntil b e = Inr b' \<and> mb_wf b' \<and> mb_content b' = drop (e - mb_head b) (mb_content b)"
  using assms by (simp add: retrieveUntil_def retrieve_wf retrieve_content)

lemma unwrite_result:
  assumes "mb_wf b" "n \<le> readableBytes b"
  shows "\<exists>b'. unwrite b n = Inr b' \<and> mb_wf b' \<and>
     mb_content b' = take (length (mb_content b) - n) (mb_content b)"
proof -
  have "length (mb_content b) = mb_tail b - mb_head b" "n \<le> mb_tail b - mb_head b"
    using assms readable_content [OF assms(1)] readable_eq [OF assms(1)] by simp_all
  then show ?thesis
    using assms by (auto simp: unwrite_def mb_defs sz_simps take_take min_def add.commute)
qed

lemma hasWritten_result:
  assumes "mb_wf b" "n \<le> writableBytes b"
  shows "\<exists>b'. hasWritten b n = Inr b' \<and> mb_wf b' \<and>
     mb_content b' = mb_content b @ take n (drop (mb_tail b) (mb_buffer b))"
  using assms take_drop_split [of "mb_head b" "mb_tail b" "mb_tail b + n" "mb_buffer b"]
  by (auto simp: hasWritten_def mb_defs sz_simps)

lemma hasWritten_over: "writableBytes b < n \<Longrightarrow> hasWritten b n = Inl AssertFailed"
  by (simp add: hasWritten_def)

lemma at_result:
  assumes "mb_wf b" "i < readableBytes b"
  shows "MsgBuffer_at b i = Inr (mb_content b ! i)"
  using assms by (auto simp: MsgBuffer_at_def mb_defs sz_simps)

subsection \<open>Bytes put in front\<close>

lemma addInFront_room:
  assumes wf: "mb_wf b" and len: "length bs \<le> mb_head b"
  shows "\<exists>b'. addInFront b bs = Inr b' \<and> mb_wf b' \<and> mb_content b' = bs @ mb_content b"
proof -
  let ?h = "mb_head b - length bs"
  let ?buf = "take ?h (mb_buffer b) @ bs @ drop (mb_head b) (mb_buffer b)"
  let ?b' = "b\<lparr>mb_buffer := ?buf, mb_head := ?h\<rparr>"
  have in_range: "mb_head b \<le> length (mb_buffer b)" using wf by (simp add: mb_wf_def)
  then have eq: "addInFront b bs = Inr ?b'"
    using len by (simp add: addInFront_def Let_def mem_write_def)
  have "length ?buf = length (mb_buffer b)" using len in_range by simp
  then have "mb_wf ?b'" using wf len by (auto simp: mb_wf_def)
  moreover have "mb_content ?b' = bs @ mb_content b"
  proof -
    have "mb_head b \<le> mb_tail b" "mb_tail b \<le> length (mb_buffer b)"
      using wf by (auto simp: mb_wf_def)
    then show ?thesis using len by (simp add: mb_content_def min_absorb2)
  qed
  ultimately show ?thesis using eq by blast
qed

lemma addInFront_shift:
  assumes wf: "mb_wf b" and len: "mb_head b < length bs" "length bs \<le> writableBytes b"
    and apart: "readableBytes b \<le> length bs"
  shows "\<exists>b'. addInFront b bs = Inr b' \<and> mb_wf b' \<and> mb_content b' = bs @ mb_content b"
proof -
  let ?h = "mb_head b" and ?t = "mb_tail b" and ?n = "length bs" and ?B = "mb_buffer b"
  let ?buf1 = "take (?h + ?n) ?B @ mb_content b @ drop (?t + ?n) ?B"
  let ?buf2 = "take ?h ?buf1 @ bs @ drop (?h + ?n) ?buf1"
  let ?b' = "b\<lparr>mb_buffer := ?buf2, mb_tail := ?t + ?n\<rparr>"
  have r: "?h \<le> ?t" "?t + ?n \<le> length ?B" "?t \<le> ?h + ?n" "length ?B \<le> alloc_max"
    using wf len apart by (auto simp: mb_wf_def readable_eq writable_eq)
  have c: "length (mb_content b) = ?t - ?h" using r by (simp add: mb_content_def)
  have "sz_add ?h ?n = ?h + ?n" "sz_add ?t ?n = ?t + ?n"
    using r by (auto intro: sz_add_exact)
  moreover have "std_copy ?B ?h ?t (?h + ?n) = Inr ?buf1"
    using r c by (simp add: std_copy_def mem_write_def mb_content_def add.commute)
  moreover have "mem_write ?buf1 ?h bs = Inr ?buf2"
    using r c by (simp add: mem_write_def)
  ultimately have eq: "addInFront b bs = Inr ?b'"
    using len by (simp add: addInFront_def Let_def)
  have "mb_wf ?b'" using wf r c by (simp add: mb_wf_def)
  moreover have "mb_content ?b' = bs @ mb_content b"
    using r c by (simp add: mb_content_def)
  ultimately show ?thesis using eq by blast
qed

lemma addInFront_overlap:
  assumes wf: "mb_wf b" and len: "mb_head b < length bs" "length bs \<le> writableBytes b"
    and over: "length bs < readableBytes b"
  shows "addInFront b bs = Inl Undefined"
proof -
  have r: "mb_tail b \<le> length (mb_buffer b)" "mb_head b + length bs < mb_tail b"
    "mb_head b \<le> mb_tail b" "length (mb_buffer b) \<le> alloc_max"
    using wf len over by (auto simp: mb_wf_def readable_eq writable_eq)
  then have "sz_add (mb_head b) (length bs) = mb_head b + length bs"
    by (intro sz_add_exact) simp
  then show ?thesis using r len by (auto simp: addInFront_def Let_def std_copy_def)
qed

lemma new_result:
  assumes "kBufferOffset \<le> len" "len \<le> 2 * alloc_max"
  shows "MsgBuffer_new len = Inl AllocError \<or>
    (\<exists>b. MsgBuffer_new len = Inr b \<and> mb_wf b \<and> mb_content b = [] \<and> writableBytes b = len)"
proof (cases "len \<le> alloc_max")
  case True
  from new_cases [OF assms(1) True] show ?thesis by blast
next
  case False
  with assms(2) show ?thesis by (simp add: MsgBuffer_new_def Let_def sz_simps kBufferOffset_def)
qed

lemma addInFront_grow:
  assumes wf: "mb_wf b" and len: "mb_head b < length bs" "writableBytes b < length bs"
    "length bs \<le> alloc_max"
  shows "addInFront b bs = Inl AllocError \<or>
    (\<exists>b'. addInFront b bs = Inr b' \<and> mb_wf b' \<and> mb_content b' = bs @ mb_content b)"
proof -
  let ?need = "length bs + readableBytes b"
  let ?newLen = "if ?need < mb_initCap b then mb_initCap b else ?need"
  have max: "readableBytes b \<le> alloc_max" using wf by (rule readable_max)
  then have "sz_add (length bs) (readableBytes b) = ?need"
    using len(3) by (intro sz_add_exact) simp
  then have eq: "addInFront b bs = bind_res (MsgBuffer_new ?newLen)
      (\<lambda>nb. bind_res (MsgBuffer_append nb bs) (\<lambda>nb. MsgBuffer_append nb (mb_content b)))"
    using len wf by (simp add: addInFront_def Let_def append_buf_eq cong: if_cong)
  have "kBufferOffset \<le> ?newLen" "?newLen \<le> 2 * alloc_max"
    using wf max len(3) by (auto simp: mb_wf_def)
  from new_result [OF this]
  consider "MsgBuffer_new ?newLen = Inl AllocError"
    | nb where "MsgBuffer_new ?newLen = Inr nb" "mb_wf nb" "mb_content nb = []" by blast
  then show ?thesis
  proof cases
    case 1
    with eq show ?thesis by simp
  next
    case 2
    have content: "length (mb_content b) \<le> alloc_max"
      using max readable_content [OF wf] by simp
    from append_result [OF 2(2) len(3)]
    consider "MsgBuffer_append nb bs = Inl AllocError"
      | b1 where "MsgBuffer_append nb bs = Inr b1" "mb_wf b1" "mb_content b1 = bs"
      using 2(3) by auto
    then show ?thesis
    proof cases
      case 1
      with eq 2 show ?thesis by simp
    next
      case (2 b1)
      from append_result [OF 2(2) content] 2 eq \<open>MsgBuffer_new ?newLen = Inr nb\<close>
      show ?thesis by auto
    qed
  qed
qed

lemma addInFront_result:
  assumes "mb_wf b" "length bs \<le> alloc_max"
    and "length bs \<le> mb_head b \<or> writableBytes b < length bs \<or> readableBytes b \<le> length bs"
  shows "addInFront b bs = Inl AllocError \<or>
    (\<exists>b'. addInFront b bs = Inr b' \<and> mb_wf b' \<and> mb_content b' = bs @ mb_content b)"
  using assms addInFront_room addInFront_shift addInFront_grow
  by (meson not_le)

section \<open>Searching for the end of a line\<close>

lemma search_crlf_Some:
  "search_crlf xs = Some i \<longleftrightarrow>
   i + 1 < length xs \<and> xs ! i = 13 \<and> xs ! (i + 1) = 10 \<and>
   (\<forall>j<i. \<not> (xs ! j = 13 \<and> xs ! (j + 1) = 10))"
proof (induction xs arbitrary: i rule: search_crlf.induct)
  case (1 a c xs)
  show ?case
  proof (cases "a = 13 \<and> c = 10")
    case True
    then show ?thesis by (cases i) auto
  next
    case False
    then show ?thesis
      by (cases i) (auto simp: "1.IH" less_Suc_eq_0_disj)
  qed
qed auto

lemma search_crlf_None:
  "search_crlf xs = None \<longleftrightarrow> (\<forall>i. i + 1 < length xs \<longrightarrow> \<not> (xs ! i = 13 \<and> xs ! (i + 1) = 10))"
proof (induction xs rule: search_crlf.induct)
  case (1 a c xs)
  show ?case
  proof (cases "a = 13 \<and> c = 10")
    case True
    then show ?thesis by auto
  next
    case False
    have "search_crlf (a # c # xs) = None \<longleftrightarrow> search_crlf (c # xs) = None"
      using False by auto
    also have "\<dots> \<longleftrightarrow> (\<forall>i. i + 1 < length (c # xs) \<longrightarrow> \<not> ((c # xs) ! i = 13 \<and> (c # xs) ! (i + 1) = 10))"
      by (rule "1.IH" [OF False])
    also have "\<dots> \<longleftrightarrow> (\<forall>i. i + 1 < length (a # c # xs) \<longrightarrow>
        \<not> ((a # c # xs) ! i = 13 \<and> (a # c # xs) ! (i + 1) = 10))"
      using False by (auto simp: nth_Cons split: nat.splits)
    finally show ?thesis .
  qed
qed auto

section \<open>Reading from a descriptor\<close>

text \<open>
  \<open>readFd\<close> calls \<open>readv\<close> with the free space of the vector and, when that is below 8192
  bytes, an 8192-byte buffer on the stack. The call's outcome is the argument: an error number,
  or the bytes read (none at end of file). The result is the returned count, the value left in
  \<open>*retErrno\<close> and the buffer; on an error the code compares \<open>*retErrno == errno\<close> instead of
  assigning it.
\<close>

datatype readv_result = ReadvError int | ReadvBytes "byte list"

definition extBuffer_size :: nat where
  "extBuffer_size = 8192"

definition readv_room :: "MsgBuffer \<Rightarrow> nat" where
  "readv_room b = writableBytes b + (if writableBytes b < extBuffer_size then extBuffer_size else 0)"

definition readFd :: "readv_result \<Rightarrow> int \<Rightarrow> MsgBuffer \<Rightarrow> (int \<times> int \<times> MsgBuffer) res" where
  "readFd r retErrno b =
     (case r of
        ReadvError e \<Rightarrow> Inr (-1, retErrno, b)
      | ReadvBytes bs \<Rightarrow>
          (let writable = writableBytes b in
           if length bs \<le> writable then
             bind_res (mem_write (mb_buffer b) (mb_tail b) bs)
               (\<lambda>buf. Inr (int (length bs), retErrno,
                           b\<lparr>mb_buffer := buf, mb_tail := sz_add (mb_tail b) (length bs)\<rparr>))
           else
             bind_res (mem_write (mb_buffer b) (mb_tail b) (take writable bs))
               (\<lambda>buf. bind_res (MsgBuffer_append (b\<lparr>mb_buffer := buf, mb_tail := length buf\<rparr>)
                                  (drop writable bs))
               (\<lambda>b. Inr (int (length bs), retErrno, b)))))"

lemma readFd_bytes:
  assumes wf: "mb_wf b" and bs: "length bs \<le> readv_room b"
  shows "readFd (ReadvBytes bs) e b = Inl AllocError \<or>
    (\<exists>b'. readFd (ReadvBytes bs) e b = Inr (int (length bs), e, b') \<and> mb_wf b' \<and>
          mb_content b' = mb_content b @ bs)"
proof (cases "length bs \<le> writableBytes b")
  case True
  obtain b' where b': "MsgBuffer_put b bs = Inr b'" "mb_wf b'" "mb_content b' = mb_content b @ bs"
    using put_ok [OF wf True] by blast
  then show ?thesis using True
    by (auto simp: readFd_def MsgBuffer_put_def res_simps)
next
  case False
  let ?w = "writableBytes b"
  have fill: "length (take ?w bs) \<le> ?w" by simp
  obtain b1 where b1: "MsgBuffer_put b (take ?w bs) = Inr b1" "mb_wf b1"
    "mb_content b1 = mb_content b @ take ?w bs"
    using put_ok [OF wf fill] by blast
  obtain buf where buf: "mem_write (mb_buffer b) (mb_tail b) (take ?w bs) = Inr buf"
    using b1(1) by (auto simp: MsgBuffer_put_def res_simps)
  have "length buf = sz_add (mb_tail b) (length (take ?w bs))"
    using mem_write_length [OF buf] wf False by (simp add: writable_eq mb_wf_def sz_simps)
  then have same: "b\<lparr>mb_buffer := buf, mb_tail := length buf\<rparr> = b1"
    using b1(1) buf by (auto simp: MsgBuffer_put_def)
  have "length (drop ?w bs) \<le> alloc_max"
    using bs by (auto simp: readv_room_def extBuffer_size_def split: if_splits)
  from append_result [OF b1(2) this] b1(3) False buf same show ?thesis
    by (auto simp: readFd_def Let_def)
qed

end
