(* ===== verification/ByteOrder.thy ===== *)
theory ByteOrder
  imports Prelude
begin

text \<open>
  Integers in memory. The host is little-endian (src/xiaoNet/utils/Utilities.cpp is built for
  x86), so storing an integer writes its low byte first; \<open>htons\<close>/\<open>ntohs\<close> and
  \<open>htonl\<close>/\<open>ntohl\<close> of the system library reverse the bytes. The 64-bit conversions
  \<open>hton64\<close>/\<open>ntoh64\<close> come from the xiaoLog package, which is not part of the repository:
  they are parameters of the definitions that use them.
\<close>

definition le_bytes :: "nat \<Rightarrow> 'a::len word \<Rightarrow> byte list" where
  "le_bytes n w = map (\<lambda>i. ucast (drop_bit (8 * i) w)) [0..<n]"

fun of_le :: "byte list \<Rightarrow> 'a::len word" where
  "of_le [] = 0"
| "of_le (b # bs) = ucast b OR push_bit 8 (of_le bs)"

definition be_bytes :: "nat \<Rightarrow> 'a::len word \<Rightarrow> byte list" where
  "be_bytes n w = rev (le_bytes n w)"

definition htons :: "16 word \<Rightarrow> 16 word" where
  "htons w = of_le (rev (le_bytes 2 w))"

definition ntohs :: "16 word \<Rightarrow> 16 word" where
  "ntohs = htons"

definition htonl :: "32 word \<Rightarrow> 32 word" where
  "htonl w = of_le (rev (le_bytes 4 w))"

definition ntohl :: "32 word \<Rightarrow> 32 word" where
  "ntohl = htonl"

lemma length_le_bytes [simp]: "length (le_bytes n w) = n"
  by (simp add: le_bytes_def)

lemma nth_le_bytes [simp]: "i < n \<Longrightarrow> le_bytes n w ! i = ucast (drop_bit (8 * i) w)"
  by (simp add: le_bytes_def)

lemma bit_of_le:
  "bit (of_le bs :: 'a::len word) k \<longleftrightarrow>
   k < LENGTH('a) \<and> k div 8 < length bs \<and> bit (bs ! (k div 8)) (k mod 8)"
proof (induction bs arbitrary: k)
  case Nil
  then show ?case by simp
next
  case (Cons b bs)
  show ?case
  proof (cases "k < 8")
    case True
    then show ?thesis by (auto simp: bit_simps)
  next
    case False
    then have "k div 8 = Suc ((k - 8) div 8)" "k mod 8 = (k - 8) mod 8"
      by (simp_all add: div_if mod_if)
    moreover have "\<not> bit (ucast b :: 'a word) k"
      using False by (auto simp: bit_simps dest: bit_imp_le_length)
    ultimately show ?thesis using False Cons.IH [of "k - 8"]
      by (auto simp: bit_simps)
  qed
qed

lemma of_le_le_bytes:
  assumes "LENGTH('a) = 8 * n"
  shows "of_le (le_bytes n (w :: 'a::len word)) = w"
proof (rule bit_word_eqI)
  fix k assume k: "k < LENGTH('a)"
  then have "k div 8 < n" using assms by auto
  then show "bit (of_le (le_bytes n w) :: 'a word) k = bit w k"
    using k by (simp add: bit_of_le bit_simps)
qed

lemma le_bytes_of_le:
  assumes "LENGTH('a) = 8 * length bs"
  shows "le_bytes (length bs) (of_le bs :: 'a::len word) = bs"
proof (rule nth_equalityI)
  fix i assume i: "i < length (le_bytes (length bs) (of_le bs :: 'a word))"
  show "le_bytes (length bs) (of_le bs :: 'a word) ! i = bs ! i"
  proof (rule bit_word_eqI)
    fix j assume j: "j < LENGTH(8)"
    then have "(8 * i + j) div 8 = i" "(8 * i + j) mod 8 = j" "8 * i + j < LENGTH('a)"
      using i assms by auto
    then show "bit (le_bytes (length bs) (of_le bs :: 'a word) ! i) j = bit (bs ! i) j"
      using i j by (simp add: bit_simps bit_of_le)
  qed
qed simp

lemma htons_bytes: "le_bytes 2 (htons w) = be_bytes 2 w"
  using le_bytes_of_le [where 'a = 16 and bs = "rev (le_bytes 2 w)"]
  by (simp add: htons_def be_bytes_def)

lemma htonl_bytes: "le_bytes 4 (htonl w) = be_bytes 4 w"
  using le_bytes_of_le [where 'a = 32 and bs = "rev (le_bytes 4 w)"]
  by (simp add: htonl_def be_bytes_def)

lemma ntohs_htons [simp]: "ntohs (htons w) = w"
  by (simp add: ntohs_def htons_def [of "htons w"] htons_bytes be_bytes_def of_le_le_bytes)

lemma ntohl_htonl [simp]: "ntohl (htonl w) = w"
  by (simp add: ntohl_def htonl_def [of "htonl w"] htonl_bytes be_bytes_def of_le_le_bytes)

end
