(* ===== verification/MsgBufferInts.thy ===== *)
theory MsgBufferInts
  imports MsgBuffer ByteOrder
begin

text \<open>
  The integer operations of src/xiaoNet/utils/MsgBuffer.cpp over the byte operations of
  \<open>MsgBuffer\<close>, and the buffer's interpretation as a byte queue.
\<close>

section \<open>Writers\<close>

definition appendInt8 :: "MsgBuffer \<Rightarrow> 8 word \<Rightarrow> MsgBuffer res" where
  "appendInt8 b x = MsgBuffer_append b (le_bytes 1 x)"

definition appendInt16 :: "MsgBuffer \<Rightarrow> 16 word \<Rightarrow> MsgBuffer res" where
  "appendInt16 b s = MsgBuffer_append b (le_bytes 2 (htons s))"

definition appendInt32 :: "MsgBuffer \<Rightarrow> 32 word \<Rightarrow> MsgBuffer res" where
  "appendInt32 b i = MsgBuffer_append b (le_bytes 4 (htonl i))"

definition appendInt64 :: "(64 word \<Rightarrow> 64 word) \<Rightarrow> MsgBuffer \<Rightarrow> 64 word \<Rightarrow> MsgBuffer res" where
  "appendInt64 hton64 b l = MsgBuffer_append b (le_bytes 8 (hton64 l))"

definition addInFrontInt8 :: "MsgBuffer \<Rightarrow> 8 word \<Rightarrow> MsgBuffer res" where
  "addInFrontInt8 b x = addInFront b (le_bytes 1 x)"

definition addInFrontInt16 :: "MsgBuffer \<Rightarrow> 16 word \<Rightarrow> MsgBuffer res" where
  "addInFrontInt16 b s = addInFront b (le_bytes 2 (htons s))"

definition addInFrontInt32 :: "MsgBuffer \<Rightarrow> 32 word \<Rightarrow> MsgBuffer res" where
  "addInFrontInt32 b i = addInFront b (le_bytes 4 (htonl i))"

definition addInFrontInt64 :: "(64 word \<Rightarrow> 64 word) \<Rightarrow> MsgBuffer \<Rightarrow> 64 word \<Rightarrow> MsgBuffer res" where
  "addInFrontInt64 hton64 b l = addInFront b (le_bytes 8 (hton64 l))"

section \<open>Readers\<close>

definition peekInt8 :: "MsgBuffer \<Rightarrow> 8 word res" where
  "peekInt8 b = assert_then (1 \<le> readableBytes b)
     (bind_res (MsgBuffer_peek b 1) (\<lambda>bs. Inr (of_le bs)))"

text \<open>
  \<open>peekInt16\<close> loads the two bytes and then ends without a \<open>return\<close>: undefined behaviour.
\<close>

definition peekInt16 :: "MsgBuffer \<Rightarrow> 16 word res" where
  "peekInt16 b = assert_then (2 \<le> readableBytes b)
     (bind_res (MsgBuffer_peek b 2) (\<lambda>bs. Inl Undefined))"

definition peekInt32 :: "MsgBuffer \<Rightarrow> 32 word res" where
  "peekInt32 b = assert_then (4 \<le> readableBytes b)
     (bind_res (MsgBuffer_peek b 4) (\<lambda>bs. Inr (ntohl (of_le bs))))"

definition peekInt64 :: "(64 word \<Rightarrow> 64 word) \<Rightarrow> MsgBuffer \<Rightarrow> 64 word res" where
  "peekInt64 ntoh64 b = assert_then (8 \<le> readableBytes b)
     (bind_res (MsgBuffer_peek b 8) (\<lambda>bs. Inr (ntoh64 (of_le bs))))"

definition readInt8 :: "MsgBuffer \<Rightarrow> (8 word \<times> MsgBuffer) res" where
  "readInt8 b = bind_res (peekInt8 b) (\<lambda>x. Inr (x, MsgBuffer_retrieve b 1))"

definition readInt16 :: "MsgBuffer \<Rightarrow> (16 word \<times> MsgBuffer) res" where
  "readInt16 b = bind_res (peekInt16 b) (\<lambda>x. Inr (x, MsgBuffer_retrieve b 2))"

definition readInt32 :: "MsgBuffer \<Rightarrow> (32 word \<times> MsgBuffer) res" where
  "readInt32 b = bind_res (peekInt32 b) (\<lambda>x. Inr (x, MsgBuffer_retrieve b 4))"

definition readInt64 :: "(64 word \<Rightarrow> 64 word) \<Rightarrow> MsgBuffer \<Rightarrow> (64 word \<times> MsgBuffer) res" where
  "readInt64 ntoh64 b = bind_res (peekInt64 ntoh64 b) (\<lambda>x. Inr (x, MsgBuffer_retrieve b 8))"

section \<open>Lemmas\<close>

interpretation mb: byte_queue mb_wf mb_content MsgBuffer_append MsgBuffer_read
  by unfold_locales (use append_result read_result in blast)+

lemma peek_front:
  "mb_wf b \<Longrightarrow> mb_content b = bs @ rest \<Longrightarrow> length bs = n \<Longrightarrow>
   MsgBuffer_peek b n = Inr bs \<and> n \<le> readableBytes b"
  using peek_prefix [of b n] by (simp add: readable_content)

lemma readInt32_front:
  assumes "mb_wf b" "mb_content b = be_bytes 4 x @ rest"
  shows "\<exists>b'. readInt32 b = Inr (x, b') \<and> mb_wf b' \<and> mb_content b' = rest"
proof -
  have "of_le (be_bytes 4 x) = htonl x"
    unfolding htonl_bytes [symmetric] by (rule of_le_le_bytes) simp
  then show ?thesis
    using assms peek_front [OF assms, of 4]
    by (simp add: readInt32_def peekInt32_def retrieve_wf retrieve_content be_bytes_def)
qed

lemma readInt8_front:
  assumes "mb_wf b" "mb_content b = x # rest"
  shows "\<exists>b'. readInt8 b = Inr (x, b') \<and> mb_wf b' \<and> mb_content b' = rest"
  using assms peek_front [of b "[x]" rest 1]
  by (simp add: readInt8_def peekInt8_def retrieve_wf retrieve_content)

lemma readInt64_front:
  assumes "mb_wf b" "mb_content b = le_bytes 8 (hton64 x) @ rest" "ntoh64 (hton64 x) = x"
  shows "\<exists>b'. readInt64 ntoh64 b = Inr (x, b') \<and> mb_wf b' \<and> mb_content b' = rest"
  using assms peek_front [OF assms(1,2), of 8]
  by (simp add: readInt64_def peekInt64_def retrieve_wf retrieve_content of_le_le_bytes)

lemma readInt16_never: "readInt16 b = Inl AssertFailed \<or> readInt16 b = Inl Undefined \<or>
    readInt16 b = Inl OutOfBounds"
  by (auto simp: readInt16_def peekInt16_def assert_then_def MsgBuffer_peek_def mem_read_def)

end
