(* ===== verification/BufferNode.thy ===== *)
theory BufferNode
  imports MsgBufferInts
begin

text \<open>
  The nodes of a connection's write list: src/xiaoNet/net/inner/BufferNode.h and the memory,
  stream, asynchronous-stream and file nodes that implement it (MemBufferNode.cpp,
  StreamBufferNode.cpp, AsyncStreamBufferNode.cpp, FileBufferNodeUnix.cpp). The virtual methods
  are functions by cases on the kind of node. The system calls and the user's stream callback are
  the fields of the record \<open>os\<close>, a parameter that acts on a world of any type.
\<close>

section \<open>The operating system and the user's callbacks\<close>

datatype io_result = IoError int | IoCount nat

record 'w os =
  os_write :: "int \<Rightarrow> byte list \<Rightarrow> 'w \<Rightarrow> io_result \<times> 'w"
  os_sendfile :: "int \<Rightarrow> int \<Rightarrow> nat \<Rightarrow> 'w \<Rightarrow> io_result \<times> 'w"
  os_read :: "int \<Rightarrow> nat \<Rightarrow> 'w \<Rightarrow> readv_result \<times> 'w"
  os_stream :: "nat \<Rightarrow> nat \<Rightarrow> 'w \<Rightarrow> byte list \<times> 'w"

section \<open>Nodes\<close>

text \<open>
  A stream node names its callback by a number, a file node holds its descriptor and the bytes
  left to send (a \<open>long long\<close>).
\<close>

datatype node_kind =
  MemNode MsgBuffer
| StreamNode nat MsgBuffer
| AsyncNode "MsgBuffer option"
| FileNode int int "MsgBuffer option"

record BufferNode =
  nd_kind :: node_kind
  nd_isDone :: bool

definition kMaxSendFileBufferSize :: nat where
  "kMaxSendFileBufferSize = 16 * 1024"

definition newMemBufferNode :: "BufferNode res" where
  "newMemBufferNode = bind_res (MsgBuffer_new kBufferDefaultLength)
     (\<lambda>b. Inr \<lparr>nd_kind = MemNode b, nd_isDone = False\<rparr>)"

definition newStreamBufferNode :: "nat \<Rightarrow> BufferNode res" where
  "newStreamBufferNode cb = bind_res (MsgBuffer_new kBufferDefaultLength)
     (\<lambda>b. Inr \<lparr>nd_kind = StreamNode cb b, nd_isDone = False\<rparr>)"

definition newAsyncStreamBufferNode :: BufferNode where
  "newAsyncStreamBufferNode = \<lparr>nd_kind = AsyncNode None, nd_isDone = False\<rparr>"

text \<open>
  The file node's constructor: the descriptor \<open>open\<close> returned and the size \<open>stat\<close> reported
  (\<open>None\<close> when it failed) are arguments. A node that could not be opened is done and has
  descriptor -1.
\<close>

definition failed_file :: BufferNode where
  "failed_file = \<lparr>nd_kind = FileNode (-1) 0 None, nd_isDone = True\<rparr>"

definition newFileBufferNode :: "int \<Rightarrow> int option \<Rightarrow> int \<Rightarrow> int \<Rightarrow> BufferNode res" where
  "newFileBufferNode fd st_size offset len =
     assert_then (0 \<le> offset)
       (if offset < 0 then Inr failed_file
        else if fd < 0 then Inr \<lparr>nd_kind = FileNode fd 0 None, nd_isDone = True\<rparr>
        else case st_size of
          None \<Rightarrow> Inr failed_file
        | Some fsize \<Rightarrow>
            if len = 0 then
              (if fsize < offset then Inr failed_file
               else Inr \<lparr>nd_kind = FileNode fd (fsize - offset) None, nd_isDone = False\<rparr>)
            else
              (if fsize - offset < len then Inr failed_file
               else Inr \<lparr>nd_kind = FileNode fd len None, nd_isDone = False\<rparr>))"

section \<open>Methods\<close>

definition node_isFile :: "BufferNode \<Rightarrow> bool" where
  "node_isFile nd = (case nd_kind nd of FileNode _ _ _ \<Rightarrow> True | _ \<Rightarrow> False)"

definition node_isStream :: "BufferNode \<Rightarrow> bool" where
  "node_isStream nd = (case nd_kind nd of StreamNode _ _ \<Rightarrow> True | AsyncNode _ \<Rightarrow> True | _ \<Rightarrow> False)"

definition node_isAsync :: "BufferNode \<Rightarrow> bool" where
  "node_isAsync nd = (case nd_kind nd of AsyncNode _ \<Rightarrow> True | _ \<Rightarrow> False)"

definition node_getFd :: "BufferNode \<Rightarrow> int res" where
  "node_getFd nd = (case nd_kind nd of FileNode fd _ _ \<Rightarrow> Inr fd | _ \<Rightarrow> Inl Undefined)"

definition node_available :: "BufferNode \<Rightarrow> bool" where
  "node_available nd =
     (case nd_kind nd of
        AsyncNode _ \<Rightarrow> \<not> nd_isDone nd
      | FileNode fd _ _ \<Rightarrow> 0 \<le> fd
      | _ \<Rightarrow> True)"

definition node_done :: "BufferNode \<Rightarrow> BufferNode" where
  "node_done nd = nd\<lparr>nd_isDone := True\<rparr>"

definition node_remainingBytes :: "BufferNode \<Rightarrow> int" where
  "node_remainingBytes nd =
     (case nd_kind nd of
        MemNode b \<Rightarrow> if nd_isDone nd then 0 else int (readableBytes b)
      | StreamNode _ _ \<Rightarrow> if nd_isDone nd then 0 else 1
      | AsyncNode None \<Rightarrow> 0
      | AsyncNode (Some b) \<Rightarrow> int (readableBytes b)
      | FileNode _ n _ \<Rightarrow> if nd_isDone nd then 0 else n)"

text \<open>A \<open>long long\<close> converted to \<open>size_t\<close>.\<close>

definition size_of_int :: "int \<Rightarrow> nat" where
  "size_of_int n = nat (n mod int sz_modulus)"

text \<open>Bytes stored at \<open>beginWrite()\<close> by a callee, then \<open>hasWritten\<close>.\<close>

definition MsgBuffer_fill :: "MsgBuffer \<Rightarrow> byte list \<Rightarrow> MsgBuffer res" where
  "MsgBuffer_fill b bs =
     bind_res (mem_write (mb_buffer b) (mb_tail b) bs)
       (\<lambda>buf. hasWritten (b\<lparr>mb_buffer := buf\<rparr>) (length bs))"

text \<open>
  \<open>getData\<close>: the bytes between the returned pointer and its length, the node and the world.
\<close>

definition stream_getData :: "'w os \<Rightarrow> nat \<Rightarrow> MsgBuffer \<Rightarrow> bool \<Rightarrow> 'w \<Rightarrow>
    (byte list \<times> BufferNode \<times> 'w) res" where
  "stream_getData os cb b isdone w =
     bind_res
       (if readableBytes b = 0 then
          bind_res (ensureWritableBytes kMaxSendFileBufferSize b)
            (\<lambda>b. let (bs, w) = os_stream os cb (writableBytes b) w in
                 if 0 < length bs then bind_res (MsgBuffer_fill b bs) (\<lambda>b. Inr (b, isdone, w))
                 else Inr (b, True, w))
        else Inr (b, isdone, w))
       (\<lambda>(b, isdone, w). bind_res (MsgBuffer_peek b (readableBytes b))
         (\<lambda>data. Inr (data, \<lparr>nd_kind = StreamNode cb b, nd_isDone = isdone\<rparr>, w)))"

definition file_getData :: "'w os \<Rightarrow> int \<Rightarrow> int \<Rightarrow> MsgBuffer option \<Rightarrow> bool \<Rightarrow> 'w \<Rightarrow>
    (byte list \<times> BufferNode \<times> 'w) res" where
  "file_getData os fd n buf isdone w =
     (let want = min kMaxSendFileBufferSize (size_of_int n) in
      bind_res (case buf of None \<Rightarrow> MsgBuffer_new want | Some b \<Rightarrow> Inr b)
        (\<lambda>b. bind_res
          (if readableBytes b = 0 \<and> 0 < n \<and> 0 \<le> fd then
             bind_res (ensureWritableBytes want b)
               (\<lambda>b. case os_read os fd (writableBytes b) w of
                      (ReadvError e, w) \<Rightarrow> Inr (b, w)
                    | (ReadvBytes bs, w) \<Rightarrow>
                        if 0 < length bs then bind_res (MsgBuffer_fill b bs) (\<lambda>b. Inr (b, w))
                        else Inr (b, w))
           else Inr (b, w))
          (\<lambda>(b, w). bind_res (MsgBuffer_peek b (readableBytes b))
            (\<lambda>data. Inr (data, \<lparr>nd_kind = FileNode fd n (Some b), nd_isDone = isdone\<rparr>, w)))))"

definition node_getData :: "'w os \<Rightarrow> BufferNode \<Rightarrow> 'w \<Rightarrow> (byte list \<times> BufferNode \<times> 'w) res" where
  "node_getData os nd w =
     (case nd_kind nd of
        MemNode b \<Rightarrow> bind_res (MsgBuffer_peek b (readableBytes b)) (\<lambda>data. Inr (data, nd, w))
      | StreamNode cb b \<Rightarrow> stream_getData os cb b (nd_isDone nd) w
      | AsyncNode None \<Rightarrow> Inr ([], nd, w)
      | AsyncNode (Some b) \<Rightarrow>
          bind_res (MsgBuffer_peek b (readableBytes b)) (\<lambda>data. Inr (data, nd, w))
      | FileNode fd n buf \<Rightarrow> file_getData os fd n buf (nd_isDone nd) w)"

definition node_retrieve :: "BufferNode \<Rightarrow> nat \<Rightarrow> BufferNode res" where
  "node_retrieve nd len =
     (case nd_kind nd of
        MemNode b \<Rightarrow> Inr (nd\<lparr>nd_kind := MemNode (MsgBuffer_retrieve b len)\<rparr>)
      | StreamNode cb b \<Rightarrow> Inr (nd\<lparr>nd_kind := StreamNode cb (MsgBuffer_retrieve b len)\<rparr>)
      | AsyncNode None \<Rightarrow> Inl AssertFailed
      | AsyncNode (Some b) \<Rightarrow> Inr (nd\<lparr>nd_kind := AsyncNode (Some (MsgBuffer_retrieve b len))\<rparr>)
      | FileNode fd n buf \<Rightarrow>
          (let n' = n - int len in
           Inr (nd\<lparr>nd_kind := FileNode fd (if n' < 0 then 0 else n')
                     (map_option (\<lambda>b. MsgBuffer_retrieve b len) buf)\<rparr>)))"

text \<open>The base class's \<open>append\<close> only logs (at the fatal level) and ignores the data.\<close>

definition node_append :: "BufferNode \<Rightarrow> byte list \<Rightarrow> BufferNode res" where
  "node_append nd bs =
     (case nd_kind nd of
        MemNode b \<Rightarrow> bind_res (MsgBuffer_append b bs) (\<lambda>b. Inr (nd\<lparr>nd_kind := MemNode b\<rparr>))
      | AsyncNode buf \<Rightarrow>
          bind_res (case buf of None \<Rightarrow> MsgBuffer_new (length bs) | Some b \<Rightarrow> Inr b)
            (\<lambda>b. bind_res (MsgBuffer_append b bs) (\<lambda>b. Inr (nd\<lparr>nd_kind := AsyncNode (Some b)\<rparr>)))
      | _ \<Rightarrow> Inr nd)"

section \<open>Well-formed nodes and their bytes in memory\<close>

fun kind_wf :: "node_kind \<Rightarrow> bool" where
  "kind_wf (MemNode b) = mb_wf b"
| "kind_wf (StreamNode cb b) = mb_wf b"
| "kind_wf (AsyncNode buf) = (\<forall>b. buf = Some b \<longrightarrow> mb_wf b)"
| "kind_wf (FileNode fd n buf) = (0 \<le> n \<and> (\<forall>b. buf = Some b \<longrightarrow> mb_wf b))"

fun kind_bytes :: "node_kind \<Rightarrow> byte list" where
  "kind_bytes (MemNode b) = mb_content b"
| "kind_bytes (StreamNode cb b) = mb_content b"
| "kind_bytes (AsyncNode buf) = (case buf of None \<Rightarrow> [] | Some b \<Rightarrow> mb_content b)"
| "kind_bytes (FileNode fd n buf) = (case buf of None \<Rightarrow> [] | Some b \<Rightarrow> mb_content b)"

definition is_mem :: "BufferNode \<Rightarrow> bool" where
  "is_mem nd \<longleftrightarrow> (\<exists>b. nd_kind nd = MemNode b \<and> mb_wf b) \<and> \<not> nd_isDone nd"

abbreviation node_bytes :: "BufferNode \<Rightarrow> byte list" where
  "node_bytes nd \<equiv> kind_bytes (nd_kind nd)"

section \<open>Memory nodes\<close>

lemma is_memE:
  assumes "is_mem nd"
  obtains b where "nd_kind nd = MemNode b" "mb_wf b" "\<not> nd_isDone nd"
  using assms by (auto simp: is_mem_def)

lemma default_buffer:
  "\<exists>b. MsgBuffer_new kBufferDefaultLength = Inr b \<and> mb_wf b \<and> mb_content b = [] \<and>
       writableBytes b = kBufferDefaultLength \<and> mb_tail b = kBufferOffset"
  by (rule new_ok) (simp_all add: kBufferDefaultLength_def kBufferOffset_def)

lemma newMemBufferNode_ok: "\<exists>nd. newMemBufferNode = Inr nd \<and> is_mem nd \<and> node_bytes nd = []"
  using default_buffer by (auto simp: newMemBufferNode_def is_mem_def)

lemma mem_isFile [simp]: "is_mem nd \<Longrightarrow> \<not> node_isFile nd"
  and mem_isStream [simp]: "is_mem nd \<Longrightarrow> \<not> node_isStream nd"
  and mem_isAsync [simp]: "is_mem nd \<Longrightarrow> \<not> node_isAsync nd"
  by (auto simp: node_isFile_def node_isStream_def node_isAsync_def elim: is_memE)

lemma mem_remaining: "is_mem nd \<Longrightarrow> node_remainingBytes nd = int (length (node_bytes nd))"
  by (auto simp: node_remainingBytes_def readable_content elim!: is_memE)

lemma mem_getData: "is_mem nd \<Longrightarrow> node_getData os nd w = Inr (node_bytes nd, nd, w)"
  by (auto simp: node_getData_def peek_content elim!: is_memE)

lemma mem_append:
  assumes "is_mem nd" "length bs \<le> alloc_max"
  shows "node_append nd bs = Inl AllocError \<or>
    (\<exists>nd'. node_append nd bs = Inr nd' \<and> is_mem nd' \<and> node_bytes nd' = node_bytes nd @ bs)"
  using assms(1)
proof (rule is_memE)
  fix b assume b: "nd_kind nd = MemNode b" "mb_wf b" "\<not> nd_isDone nd"
  from append_result [OF b(2) assms(2)] b show ?thesis
    by (auto simp: node_append_def is_mem_def)
qed

lemma mem_retrieve:
  assumes "is_mem nd"
  shows "\<exists>nd'. node_retrieve nd n = Inr nd' \<and> is_mem nd' \<and> node_bytes nd' = drop n (node_bytes nd)"
  using assms by (auto simp: node_retrieve_def is_mem_def retrieve_wf retrieve_content)

text \<open>
  What the sending loop does with a node: it takes the data and retrieves the bytes written.
  A memory node is a byte queue under these operations.
\<close>

definition node_take :: "BufferNode \<Rightarrow> nat \<Rightarrow> (byte list \<times> BufferNode) res" where
  "node_take nd n = bind_res (node_retrieve nd n) (\<lambda>nd'. Inr (take n (node_bytes nd), nd'))"

interpretation mem_node: byte_queue is_mem "\<lambda>nd. node_bytes nd" node_append node_take
proof unfold_locales
  show "node_append nd bs = Inl AllocError \<or>
      (\<exists>nd'. node_append nd bs = Inr nd' \<and> is_mem nd' \<and> node_bytes nd' = node_bytes nd @ bs)"
    if "is_mem nd" "length bs \<le> alloc_max" for nd bs
    using that by (rule mem_append)
  show "\<exists>nd'. node_take nd n = Inr (take n (node_bytes nd), nd') \<and> is_mem nd' \<and>
      node_bytes nd' = drop n (node_bytes nd)" if "is_mem nd" for nd n
    using mem_retrieve [OF that, of n] by (auto simp: node_take_def)
qed

section \<open>Stream and file nodes\<close>

lemma fill_ok:
  assumes wf: "mb_wf b" and room: "length bs \<le> writableBytes b"
  shows "\<exists>b'. MsgBuffer_fill b bs = Inr b' \<and> mb_wf b' \<and> mb_content b' = mb_content b @ bs"
proof -
  obtain b' where put: "MsgBuffer_put b bs = Inr b'" "mb_wf b'" "mb_content b' = mb_content b @ bs"
    using put_ok [OF assms] by blast
  have "MsgBuffer_fill b bs = MsgBuffer_put b bs"
  proof (cases "mem_write (mb_buffer b) (mb_tail b) bs")
    case (Inr buf)
    then have "length buf = length (mb_buffer b)" by (rule mem_write_length)
    then have "length bs \<le> writableBytes (b\<lparr>mb_buffer := buf\<rparr>)"
      using room by (simp add: writableBytes_def)
    with Inr show ?thesis by (simp add: MsgBuffer_fill_def MsgBuffer_put_def hasWritten_def)
  qed (simp add: MsgBuffer_fill_def MsgBuffer_put_def)
  with put show ?thesis by auto
qed

lemma stream_getData_empty:
  assumes wf: "mb_wf b" and empty: "mb_content b = []"
    and cb: "\<And>n w. length (fst (os_stream os k n w)) \<le> n"
  shows "stream_getData os k b d w = Inl AllocError \<or>
    (\<exists>n b' w'. kMaxSendFileBufferSize \<le> n \<and> mb_wf b' \<and>
       mb_content b' = fst (os_stream os k n w) \<and> w' = snd (os_stream os k n w) \<and>
       stream_getData os k b d w = Inr (fst (os_stream os k n w),
         \<lparr>nd_kind = StreamNode k b', nd_isDone = d \<or> fst (os_stream os k n w) = []\<rparr>, w'))"
proof -
  have r0: "readableBytes b = 0" using empty readable_content [OF wf] by simp
  from ensure_room [OF wf, of kMaxSendFileBufferSize]
  consider "ensureWritableBytes kMaxSendFileBufferSize b = Inl AllocError"
    | b1 where "ensureWritableBytes kMaxSendFileBufferSize b = Inr b1" "mb_wf b1"
        "mb_content b1 = []" "kMaxSendFileBufferSize \<le> writableBytes b1"
    using empty by (auto simp: kMaxSendFileBufferSize_def)
  then show ?thesis
  proof cases
    case 1
    with r0 show ?thesis by (simp add: stream_getData_def)
  next
    case (2 b1)
    obtain bs w' where out: "os_stream os k (writableBytes b1) w = (bs, w')"
      by (cases "os_stream os k (writableBytes b1) w")
    then have "length bs \<le> writableBytes b1" using cb [of "writableBytes b1" w] by simp
    from fill_ok [OF 2(2) this] obtain b2 where b2: "MsgBuffer_fill b1 bs = Inr b2" "mb_wf b2"
      "mb_content b2 = bs" using 2(3) by auto
    show ?thesis
    proof (cases "bs = []")
      case True
      have "stream_getData os k b d w =
          Inr ([], \<lparr>nd_kind = StreamNode k b1, nd_isDone = True\<rparr>, w')"
        using r0 2 out True peek_content [OF 2(2)] by (simp add: stream_getData_def)
      with 2 out True show ?thesis
        by (intro disjI2 exI [of _ "writableBytes b1"] exI [of _ b1] exI [of _ w']) simp
    next
      case False
      have "stream_getData os k b d w =
          Inr (bs, \<lparr>nd_kind = StreamNode k b2, nd_isDone = d\<rparr>, w')"
        using r0 2 out False b2 peek_content [OF b2(2)] by (simp add: stream_getData_def)
      with 2 b2 out False show ?thesis
        by (intro disjI2 exI [of _ "writableBytes b1"] exI [of _ b2] exI [of _ w']) simp
    qed
  qed
qed

end
