(* ===== verification/BufferProps.thy ===== *)
theory BufferProps
  imports BufferNode
begin

text \<open>
  The properties of the byte buffer, of its integer readers and of the buffer nodes: what any
  sequence of operations keeps, the round trips, and the inputs on which the code breaks.
\<close>

section \<open>Small initial capacities\<close>

text \<open>
  A buffer whose initial capacity is below the eight bytes of head room: \<open>retrieveAll\<close> shrinks
  the vector below the index it then assigns to the tail, the free space wraps around, and the
  next append writes outside the vector.
\<close>

lemma small_capacity_append:
  assumes "mb_initCap b < kBufferOffset" "2 * mb_initCap b < length (mb_buffer b)"
    "bs \<noteq> []" "length bs \<le> alloc_max"
  shows "MsgBuffer_append (retrieveAll b) bs = Inl OutOfBounds"
proof -
  define n where "n = mb_initCap b"
  have n: "n < 8" "2 * n < length (mb_buffer b)" using assms(1,2) by (simp_all add: n_def kBufferOffset_def)
  have "sz_mul n 2 = n * 2" using n by (intro sz_mul_exact) simp
  then have all: "length (mb_buffer (retrieveAll b)) = n" "mb_tail (retrieveAll b) = 8"
    using n by (simp_all add: retrieveAll_def n_def [symmetric] Let_def kBufferOffset_def)
  have "writableBytes (retrieveAll b) = sz_modulus - (8 - n)"
    unfolding writableBytes_def all by (rule sz_sub_wraps) (use n in simp_all)
  then have "length bs < writableBytes (retrieveAll b)" using assms(4) n by simp
  then have "ensureWritableBytes (length bs) (retrieveAll b) = Inr (retrieveAll b)"
    by (simp add: ensureWritableBytes_def numeral_2_eq_2)
  moreover have "MsgBuffer_put (retrieveAll b) bs = Inl OutOfBounds"
    using n by (simp add: MsgBuffer_put_def mem_write_def all)
  ultimately show ?thesis by (simp add: MsgBuffer_append_def)
qed

lemma small_new_append:
  assumes "length bs < kBufferOffset"
  shows "\<exists>b. MsgBuffer_new (length bs) = Inr b \<and>
    (\<exists>b'. MsgBuffer_append b bs = Inr b' \<and> readableBytes b' = length bs \<and>
       mb_initCap b' = length bs \<and> length (mb_buffer b') = length bs + kBufferOffset)"
proof -
  have n: "length bs < 8" using assms by (simp add: kBufferOffset_def)
  have eq: "sz_add (length bs) 8 = length bs + 8" "sz_sub (length bs + 8) 8 = length bs"
    "sz_add 8 (length bs) = 8 + length bs" "sz_sub 8 8 = 0" "sz_add 8 0 = 8"
    "sz_sub (8 + length bs) 8 = length bs"
    using n by (simp_all add: sz_add_def sz_sub_def)
  show ?thesis
    using n
    by (simp add: MsgBuffer_new_def Let_def kBufferOffset_def eq MsgBuffer_append_def
        ensureWritableBytes_def numeral_2_eq_2 writableBytes_def readableBytes_def std_copy_def mem_write_def
        MsgBuffer_put_def)
qed

section \<open>Properties\<close>

text \<open>
  C5. Any sequence of appends and reads, from any well-formed buffer, either meets a failed
  allocation or ends in a well-formed buffer, and the bytes read followed by the bytes still
  readable are the bytes that were readable followed by the bytes appended: nothing is lost,
  duplicated or reordered by compaction, growth or shrinking.
\<close>

theorem buffer_stream:
  assumes "mb_wf b" "puts_bounded ops"
  shows "run_queue MsgBuffer_append MsgBuffer_read b ops = Inl AllocError \<or>
    (\<exists>out b'. run_queue MsgBuffer_append MsgBuffer_read b ops = Inr (out, b') \<and> mb_wf b' \<and>
       out @ mb_content b' = mb_content b @ put_bytes ops)"
  using assms by (rule mb.run_stream)

definition tiny_buffer :: MsgBuffer where
  "tiny_buffer = \<lparr>mb_head = 8, mb_initCap = 8, mb_buffer = replicate 16 0, mb_tail = 8\<rparr>"

lemma tiny_buffer_wf: "mb_wf tiny_buffer"
  by (simp add: tiny_buffer_def mb_wf_def kBufferOffset_def)

lemma tiny_buffer_new: "MsgBuffer_new 8 = Inr tiny_buffer"
  by (simp add: MsgBuffer_new_def tiny_buffer_def kBufferOffset_def sz_add_def Let_def)

theorem buffer_stream_witness:
  "run_queue MsgBuffer_append MsgBuffer_read tiny_buffer [Put [1, 2, 3], Take 2] = Inl AllocError \<or>
    (\<exists>out b'. run_queue MsgBuffer_append MsgBuffer_read tiny_buffer [Put [1, 2, 3], Take 2] =
        Inr (out, b') \<and> mb_wf b' \<and>
       out @ mb_content b' = mb_content tiny_buffer @ put_bytes [Put [1, 2, 3], Take 2])"
  by (rule buffer_stream [OF tiny_buffer_wf]) simp

text \<open>
  C19. A 32-bit integer appended to an empty buffer and followed by any bytes is read back
  unchanged, and the following bytes stay; the wire format is big-endian whatever the host.
\<close>

theorem int32_round_trip:
  assumes "mb_wf b" "mb_content b = []" "length rest \<le> alloc_max"
  shows "appendInt32 b x = Inl AllocError \<or>
    (\<exists>b1. appendInt32 b x = Inr b1 \<and> mb_content b1 = be_bytes 4 x \<and>
      (MsgBuffer_append b1 rest = Inl AllocError \<or>
       (\<exists>b2 b3. MsgBuffer_append b1 rest = Inr b2 \<and> readInt32 b2 = Inr (x, b3) \<and> mb_wf b3 \<and>
          mb_content b3 = rest)))"
proof -
  have "length (le_bytes 4 (htonl x)) \<le> alloc_max" by simp
  from append_result [OF assms(1) this] consider
    "appendInt32 b x = Inl AllocError"
    | b1 where "appendInt32 b x = Inr b1" "mb_wf b1" "mb_content b1 = be_bytes 4 x"
    using assms(2) by (auto simp: appendInt32_def htonl_bytes)
  then show ?thesis
  proof cases
    case (2 b1)
    from append_result [OF 2(2) assms(3)] readInt32_front [of _ x rest] 2 show ?thesis by metis
  qed simp
qed

theorem int32_round_trip_witness:
  "appendInt32 tiny_buffer 258 = Inl AllocError \<or>
    (\<exists>b1. appendInt32 tiny_buffer 258 = Inr b1 \<and> mb_content b1 = be_bytes 4 (258 :: 32 word) \<and>
      (MsgBuffer_append b1 [7] = Inl AllocError \<or>
       (\<exists>b2 b3. MsgBuffer_append b1 [7] = Inr b2 \<and> readInt32 b2 = Inr (258, b3) \<and> mb_wf b3 \<and>
          mb_content b3 = [7])))"
  by (rule int32_round_trip [OF tiny_buffer_wf]) (simp_all add: tiny_buffer_def mb_content_def)

text \<open>
  C18. \<open>addInFront\<close> prepends its bytes, using the head room, the free space at the end or a
  new buffer, except in one case: when the bytes do not fit the head room, fit the free space
  and are fewer than the readable bytes, the code copies a range of the vector forward onto
  itself with \<open>std::copy\<close>, which is undefined.
\<close>

theorem addInFront_spec:
  assumes "mb_wf b" "length bs \<le> alloc_max"
  shows "if mb_head b < length bs \<and> length bs \<le> writableBytes b \<and> length bs < readableBytes b
    then addInFront b bs = Inl Undefined
    else addInFront b bs = Inl AllocError \<or>
      (\<exists>b'. addInFront b bs = Inr b' \<and> mb_wf b' \<and> mb_content b' = bs @ mb_content b)"
proof (cases "mb_head b < length bs \<and> length bs \<le> writableBytes b \<and> length bs < readableBytes b")
  case True
  then show ?thesis using addInFront_overlap [OF assms(1), of bs] by simp
next
  case False
  then have "length bs \<le> mb_head b \<or> writableBytes b < length bs \<or> readableBytes b \<le> length bs"
    by linarith
  from addInFront_result [OF assms this] show ?thesis by (simp only: False if_False)
qed

theorem addInFront_spec_witness:
  "if mb_head tiny_buffer < length [9 :: byte] \<and> length [9 :: byte] \<le> writableBytes tiny_buffer \<and>
      length [9 :: byte] < readableBytes tiny_buffer
    then addInFront tiny_buffer [9] = Inl Undefined
    else addInFront tiny_buffer [9] = Inl AllocError \<or>
      (\<exists>b'. addInFront tiny_buffer [9] = Inr b' \<and> mb_wf b' \<and> mb_content b' = [9] @ mb_content tiny_buffer)"
  by (rule addInFront_spec [OF tiny_buffer_wf]) simp

text \<open>
  \<open>readFd\<close> appends exactly the bytes \<open>readv\<close> delivered, in order, whether they fit the
  vector or overflow into the stack buffer, and returns their number; the vector keeps its
  invariant. When \<open>readv\<close> fails, the count is -1, the buffer is unchanged and the caller's
  error variable is not set.
\<close>

theorem readFd_delivers:
  assumes "mb_wf b" "length bs \<le> readv_room b"
  shows "(readFd (ReadvBytes bs) e b = Inl AllocError \<or>
      (\<exists>b'. readFd (ReadvBytes bs) e b = Inr (int (length bs), e, b') \<and> mb_wf b' \<and>
            mb_content b' = mb_content b @ bs)) \<and>
    readFd (ReadvError err) e b = Inr (-1, e, b)"
  using readFd_bytes [OF assms] by (simp add: readFd_def)

theorem readFd_delivers_witness:
  "(readFd (ReadvBytes (replicate 20 5)) 0 tiny_buffer = Inl AllocError \<or>
      (\<exists>b'. readFd (ReadvBytes (replicate 20 5)) 0 tiny_buffer =
             Inr (int (length (replicate 20 (5 :: byte))), 0, b') \<and> mb_wf b' \<and>
            mb_content b' = mb_content tiny_buffer @ replicate 20 5)) \<and>
    readFd (ReadvError 11) 0 tiny_buffer = Inr (-1, 0, tiny_buffer)"
  by (rule readFd_delivers [OF tiny_buffer_wf])
     (simp add: readv_room_def tiny_buffer_def writableBytes_def sz_sub_def extBuffer_size_def)

text \<open>
  \<open>findCRLF\<close> returns the position of the first CR LF of the readable bytes, relative to
  \<open>peek()\<close>, and the null pointer exactly when there is none; it never reads outside the buffer.
\<close>

theorem findCRLF_first:
  assumes "mb_wf b"
  shows "\<exists>r. findCRLF b = Inr r \<and>
    (case r of
       None \<Rightarrow> \<forall>i. i + 1 < length (mb_content b) \<longrightarrow>
                 \<not> (mb_content b ! i = 13 \<and> mb_content b ! (i + 1) = 10)
     | Some i \<Rightarrow> i + 1 < length (mb_content b) \<and> mb_content b ! i = 13 \<and>
         mb_content b ! (i + 1) = 10 \<and>
         (\<forall>j<i. \<not> (mb_content b ! j = 13 \<and> mb_content b ! (j + 1) = 10)))"
proof -
  have "findCRLF b = Inr (search_crlf (mb_content b))"
    using assms by (simp add: findCRLF_def peek_content)
  then show ?thesis
  proof (cases "search_crlf (mb_content b)")
    case None
    with \<open>findCRLF b = _\<close> search_crlf_None [of "mb_content b"] show ?thesis by simp
  next
    case (Some i)
    with \<open>findCRLF b = _\<close> search_crlf_Some [of "mb_content b" i] show ?thesis by simp
  qed
qed

definition crlf_buffer :: MsgBuffer where
  "crlf_buffer = \<lparr>mb_head = 8, mb_initCap = 8, mb_buffer = replicate 8 0 @ [97, 13, 10, 0, 0, 0, 0, 0],
     mb_tail = 11\<rparr>"

theorem findCRLF_first_witness: "findCRLF crlf_buffer = Inr (Some 1)"
proof -
  have wf: "mb_wf crlf_buffer" and content: "mb_content crlf_buffer = [97, 13, 10]"
    by (simp_all add: crlf_buffer_def mb_wf_def mb_content_def kBufferOffset_def)
  have three: "length [97, 13, 10 :: byte] = 3" by simp
  obtain r where r: "findCRLF crlf_buffer = Inr r"
    "case r of
       None \<Rightarrow> \<forall>i. i + 1 < 3 \<longrightarrow> \<not> ([97, 13, 10 :: byte] ! i = 13 \<and> [97, 13, 10 :: byte] ! (i + 1) = 10)
     | Some i \<Rightarrow> i + 1 < 3 \<and> [97, 13, 10 :: byte] ! i = 13 \<and> [97, 13, 10 :: byte] ! (i + 1) = 10 \<and>
         (\<forall>j<i. \<not> ([97, 13, 10 :: byte] ! j = 13 \<and> [97, 13, 10 :: byte] ! (j + 1) = 10))"
    using findCRLF_first [OF wf] unfolding content three by blast
  obtain i where i: "r = Some i" using r(2) by (cases r) (auto dest: spec [of _ 1])
  with r(2) have "i < 2" "[97, 13, 10 :: byte] ! i = 13" by auto
  then have "i = 1" by (cases i) auto
  with i r(1) show ?thesis by simp
qed

text \<open>
  \<open>readInt16\<close> never returns a value: it fails its assertion when fewer than two bytes are
  readable and runs off the end of \<open>peekInt16\<close>, which has no \<open>return\<close>, otherwise.
\<close>

theorem readInt16_undefined:
  assumes "mb_wf b"
  shows "readInt16 b = (if readableBytes b < 2 then Inl AssertFailed else Inl Undefined)"
  using peek_prefix [OF assms, of 2] by (simp add: readInt16_def peekInt16_def not_less)

theorem readInt16_undefined_witness:
  "readInt16 tiny_buffer = (if readableBytes tiny_buffer < 2 then Inl AssertFailed else Inl Undefined)"
  by (rule readInt16_undefined [OF tiny_buffer_wf])



end
