(* ===== verification/BufferTypes.thy ===== *)
theory BufferTypes
  imports BufferProps
begin

text \<open>
  Type safety of the buffer of src/xiaoNet/utils/MsgBuffer.cpp: no sequence of calls of its
  operations, in any order and with any arguments, reads or writes outside the vector, and each
  leaves the indices in order.
\<close>

datatype mb_call =
  CallAppend "byte list"
| CallAppendInt8 "8 word" | CallAppendInt16 "16 word" | CallAppendInt32 "32 word" | CallAppendInt64 "64 word"
| CallAddInFront "byte list"
| CallAddInFrontInt8 "8 word" | CallAddInFrontInt16 "16 word" | CallAddInFrontInt32 "32 word"
| CallAddInFrontInt64 "64 word"
| CallEnsureWritable nat | CallHasWritten nat | CallUnwrite nat
| CallRead nat | CallReadInt8 | CallReadInt16 | CallReadInt32 | CallReadInt64
| CallRetrieve nat | CallRetrieveAll | CallRetrieveUntil nat
| CallReadFd readv_result | CallFindCRLF

definition keep_buffer :: "('a \<times> MsgBuffer) res \<Rightarrow> MsgBuffer res" where
  "keep_buffer r = bind_res r (\<lambda>(_, b). Inr b)"

text \<open>The conversions of 64-bit integers are the parameter \<open>cv\<close>.\<close>

fun mb_do :: "(64 word \<Rightarrow> 64 word) \<Rightarrow> mb_call \<Rightarrow> MsgBuffer \<Rightarrow> MsgBuffer res" where
  "mb_do cv (CallAppend bs) b = MsgBuffer_append b bs"
| "mb_do cv (CallAppendInt8 x) b = appendInt8 b x"
| "mb_do cv (CallAppendInt16 x) b = appendInt16 b x"
| "mb_do cv (CallAppendInt32 x) b = appendInt32 b x"
| "mb_do cv (CallAppendInt64 x) b = appendInt64 cv b x"
| "mb_do cv (CallAddInFront bs) b = addInFront b bs"
| "mb_do cv (CallAddInFrontInt8 x) b = addInFrontInt8 b x"
| "mb_do cv (CallAddInFrontInt16 x) b = addInFrontInt16 b x"
| "mb_do cv (CallAddInFrontInt32 x) b = addInFrontInt32 b x"
| "mb_do cv (CallAddInFrontInt64 x) b = addInFrontInt64 cv b x"
| "mb_do cv (CallEnsureWritable n) b = ensureWritableBytes n b"
| "mb_do cv (CallHasWritten n) b = hasWritten b n"
| "mb_do cv (CallUnwrite n) b = unwrite b n"
| "mb_do cv (CallRead n) b = keep_buffer (MsgBuffer_read b n)"
| "mb_do cv CallReadInt8 b = keep_buffer (readInt8 b)"
| "mb_do cv CallReadInt16 b = keep_buffer (readInt16 b)"
| "mb_do cv CallReadInt32 b = keep_buffer (readInt32 b)"
| "mb_do cv CallReadInt64 b = keep_buffer (readInt64 cv b)"
| "mb_do cv (CallRetrieve n) b = Inr (MsgBuffer_retrieve b n)"
| "mb_do cv CallRetrieveAll b = Inr (retrieveAll b)"
| "mb_do cv (CallRetrieveUntil n) b = retrieveUntil b n"
| "mb_do cv (CallReadFd r) b = bind_res (readFd r 0 b) (\<lambda>(n, e, b). Inr b)"
| "mb_do cv CallFindCRLF b = bind_res (findCRLF b) (\<lambda>_. Inr b)"

fun mb_calls :: "(64 word \<Rightarrow> 64 word) \<Rightarrow> mb_call list \<Rightarrow> MsgBuffer \<Rightarrow> MsgBuffer res" where
  "mb_calls cv [] b = Inr b"
| "mb_calls cv (c # cs) b = bind_res (mb_do cv c b) (mb_calls cv cs)"

text \<open>Data lie in memory, and \<open>readv\<close> delivers no more than the room every call of it gives.\<close>

fun call_bounded :: "mb_call \<Rightarrow> bool" where
  "call_bounded (CallAppend bs) \<longleftrightarrow> length bs \<le> alloc_max"
| "call_bounded (CallAddInFront bs) \<longleftrightarrow> length bs \<le> alloc_max"
| "call_bounded (CallEnsureWritable n) \<longleftrightarrow> n \<le> alloc_max"
| "call_bounded (CallReadFd (ReadvBytes bs)) \<longleftrightarrow> length bs \<le> extBuffer_size"
| "call_bounded _ \<longleftrightarrow> True"

text \<open>The calls that can be undefined: those of \<open>addInFront\<close> and \<open>readInt16\<close>.\<close>

fun call_undefined :: "mb_call \<Rightarrow> bool" where
  "call_undefined (CallAddInFront bs) \<longleftrightarrow> True"
| "call_undefined (CallAddInFrontInt8 x) \<longleftrightarrow> True"
| "call_undefined (CallAddInFrontInt16 x) \<longleftrightarrow> True"
| "call_undefined (CallAddInFrontInt32 x) \<longleftrightarrow> True"
| "call_undefined (CallAddInFrontInt64 x) \<longleftrightarrow> True"
| "call_undefined CallReadInt16 \<longleftrightarrow> True"
| "call_undefined _ \<longleftrightarrow> False"

section \<open>One call\<close>

definition safe :: "bool \<Rightarrow> MsgBuffer res \<Rightarrow> bool" where
  "safe u r \<longleftrightarrow> (case r of Inr b \<Rightarrow> mb_wf b
     | Inl f \<Rightarrow> f = AllocError \<or> f = AssertFailed \<or> f = Undefined \<and> u)"

lemma safe_simps [simp]:
  "safe u (Inr b) = mb_wf b"
  "safe u (Inl f) \<longleftrightarrow> f = AllocError \<or> f = AssertFailed \<or> f = Undefined \<and> u"
  by (simp_all add: safe_def)

lemma safe_append: "mb_wf b \<Longrightarrow> length bs \<le> alloc_max \<Longrightarrow> safe u (MsgBuffer_append b bs)"
  using append_result [of b bs] by auto

lemma safe_addInFront: "mb_wf b \<Longrightarrow> length bs \<le> alloc_max \<Longrightarrow> safe True (addInFront b bs)"
  using addInFront_result [of b bs] addInFront_overlap [of b bs]
  by (cases "length bs \<le> mb_head b \<or> writableBytes b < length bs \<or> readableBytes b \<le> length bs") auto

lemma safe_peek:
  assumes "mb_wf b" "n \<le> readableBytes b"
  shows "\<exists>bs. MsgBuffer_peek b n = Inr bs"
  using peek_prefix [OF assms] by blast

text \<open>The integer readers: an assertion, the bytes at the front, and \<open>retrieve\<close>.\<close>

lemma safe_readInt:
  assumes "mb_wf b"
  shows "safe u (keep_buffer (bind_res (assert_then (n \<le> readableBytes b)
    (bind_res (MsgBuffer_peek b n) (\<lambda>bs. Inr (f bs)))) (\<lambda>x. Inr (x, MsgBuffer_retrieve b m))))"
  using safe_peek [OF assms, of n] assms
  by (cases "n \<le> readableBytes b") (auto simp: keep_buffer_def retrieve_wf)

lemma safe_readFd:
  assumes "mb_wf b" "call_bounded (CallReadFd r)"
  shows "safe u (bind_res (readFd r 0 b) (\<lambda>(n, e, b). Inr b))"
proof (cases r)
  case (ReadvError e)
  with assms(1) show ?thesis by (simp add: readFd_def)
next
  case (ReadvBytes bs)
  with assms(2) have "length bs \<le> readv_room b" by (simp add: readv_room_def)
  from readFd_bytes [OF assms(1) this, of 0] show ?thesis by (auto simp: ReadvBytes)
qed

lemma safe_rest:
  assumes "mb_wf b"
  shows "safe u (hasWritten b n)" "safe u (unwrite b n)" "safe u (keep_buffer (MsgBuffer_read b n))"
    "safe u (retrieveUntil b n)" "safe u (bind_res (findCRLF b) (\<lambda>_. Inr b))"
proof -
  show "safe u (hasWritten b n)"
    using hasWritten_result [OF assms, of n] hasWritten_over [of b n] by (cases "n \<le> writableBytes b") auto
  show "safe u (unwrite b n)"
    using unwrite_result [OF assms, of n] by (cases "n \<le> readableBytes b") (auto simp: unwrite_def)
  show "safe u (keep_buffer (MsgBuffer_read b n))"
    using read_result [OF assms, of n] by (auto simp: keep_buffer_def)
  show "safe u (retrieveUntil b n)" using assms by (simp add: retrieveUntil_def assert_then_def retrieve_wf)
  show "safe u (bind_res (findCRLF b) (\<lambda>_. Inr b))" using assms by (simp add: findCRLF_def peek_content)
qed

lemma call_safe:
  assumes "mb_wf b" "call_bounded c"
  shows "safe (call_undefined c) (mb_do cv c b)"
proof -
  note w = assms(1)
  have ints: "safe u (keep_buffer (readInt8 b))" "safe u (keep_buffer (readInt32 b))"
    "safe u (keep_buffer (readInt64 cv b))" for u
    unfolding readInt8_def peekInt8_def readInt32_def peekInt32_def readInt64_def peekInt64_def
    by (rule safe_readInt [OF w])+
  have int16: "safe True (keep_buffer (readInt16 b))"
    using readInt16_never [of b] safe_peek [OF w, of 2]
    by (auto simp: keep_buffer_def readInt16_def peekInt16_def assert_then_def)
  have ensure: "safe u (ensureWritableBytes n b)" if "n \<le> alloc_max" for n u
    using ensure_room [OF w that] by auto
  show ?thesis
    using assms(2) w
    by (cases c) (simp_all add: appendInt8_def appendInt16_def appendInt32_def appendInt64_def addInFrontInt8_def
        addInFrontInt16_def addInFrontInt32_def addInFrontInt64_def safe_append safe_addInFront ensure ints int16
        safe_rest safe_readFd retrieve_wf retrieveAll_wf del: call_bounded.simps(4))
qed

section \<open>Any sequence of calls\<close>



text \<open>
  \<open>operator[]\<close> is the exception: its assertion accepts the index just after the readable bytes,
  which is outside the vector when the buffer is full.
\<close>

lemma at_past_end:
  assumes "mb_wf b" "mb_tail b = length (mb_buffer b)"
  shows "MsgBuffer_at b (readableBytes b) = Inl OutOfBounds"
proof -
  have "sz_add (mb_head b) (readableBytes b) = mb_tail b"
    using assms(1) unfolding readable_eq [OF assms(1)] by (subst sz_add_exact) (auto simp: mb_wf_def)
  with assms(2) show ?thesis by (simp add: MsgBuffer_at_def)
qed

end
