(* ===== verification/Channel.thy ===== *)
theory Channel
  imports Prelude
begin

text \<open>
  The event channel of src/xiaoNet/net/Channel.h and Channel.cpp: one descriptor, the set of
  events it asks for, the set that occurred, and the callbacks that a set of occurred events
  dispatches to. Callbacks are identified by their role; that one is installed is a flag.
\<close>

section \<open>Event masks\<close>

text \<open>The constants of poll(2) on Linux.\<close>

definition POLLIN :: "32 word" where "POLLIN = 0x001"
definition POLLPRI :: "32 word" where "POLLPRI = 0x002"
definition POLLOUT :: "32 word" where "POLLOUT = 0x004"
definition POLLERR :: "32 word" where "POLLERR = 0x008"
definition POLLHUP :: "32 word" where "POLLHUP = 0x010"
definition POLLNVAL :: "32 word" where "POLLNVAL = 0x020"
definition POLLRDHUP :: "32 word" where "POLLRDHUP = 0x2000"

named_theorems poll_defs \<open>values of the event masks\<close>

lemmas poll_const_defs [poll_defs] =
  POLLIN_def POLLPRI_def POLLOUT_def POLLERR_def POLLHUP_def POLLNVAL_def POLLRDHUP_def

definition kNoneEvent :: "32 word" where
  "kNoneEvent = 0"

definition kReadEvent :: "32 word" where
  "kReadEvent = POLLIN OR POLLPRI"

definition kWriteEvent :: "32 word" where
  "kWriteEvent = POLLOUT"

lemmas kEvent_defs [poll_defs] = kNoneEvent_def kReadEvent_def kWriteEvent_def

section \<open>State\<close>

datatype callback = ReadCb | WriteCb | ErrorCb | CloseCb | EventCb

record Channel =
  ch_fd :: int
  ch_events :: "32 word"
  ch_revents :: "32 word"
  ch_index :: int
  ch_added :: bool
  ch_cbs :: "callback set"
  ch_tied :: bool

definition Channel_new :: "int \<Rightarrow> Channel" where
  "Channel_new fd = \<lparr>ch_fd = fd, ch_events = 0, ch_revents = 0, ch_index = -1,
     ch_added = False, ch_cbs = {}, ch_tied = False\<rparr>"

definition setReadCallback :: "Channel \<Rightarrow> Channel" where
  "setReadCallback c = c\<lparr>ch_cbs := insert ReadCb (ch_cbs c)\<rparr>"

definition setWriteCallback :: "Channel \<Rightarrow> Channel" where
  "setWriteCallback c = c\<lparr>ch_cbs := insert WriteCb (ch_cbs c)\<rparr>"

definition setCloseCallback :: "Channel \<Rightarrow> Channel" where
  "setCloseCallback c = c\<lparr>ch_cbs := insert CloseCb (ch_cbs c)\<rparr>"

definition setErrorCallback :: "Channel \<Rightarrow> Channel" where
  "setErrorCallback c = c\<lparr>ch_cbs := insert ErrorCb (ch_cbs c)\<rparr>"

definition setEventCallback :: "Channel \<Rightarrow> Channel" where
  "setEventCallback c = c\<lparr>ch_cbs := insert EventCb (ch_cbs c)\<rparr>"

definition isNoneEvent :: "Channel \<Rightarrow> bool" where
  "isNoneEvent c \<longleftrightarrow> ch_events c = kNoneEvent"

definition isWriting :: "Channel \<Rightarrow> bool" where
  "isWriting c \<longleftrightarrow> ch_events c AND kWriteEvent \<noteq> 0"

definition isReading :: "Channel \<Rightarrow> bool" where
  "isReading c \<longleftrightarrow> ch_events c AND kReadEvent \<noteq> 0"

definition tie :: "Channel \<Rightarrow> Channel" where
  "tie c = c\<lparr>ch_tied := True\<rparr>"

definition setRevents :: "32 word \<Rightarrow> Channel \<Rightarrow> Channel" where
  "setRevents revt c = c\<lparr>ch_revents := revt\<rparr>"

definition setIndex :: "int \<Rightarrow> Channel \<Rightarrow> Channel" where
  "setIndex i c = c\<lparr>ch_index := i\<rparr>"

text \<open>
  The field updates of the operations that then call \<open>update()\<close>, that is
  \<open>EventLoop::updateChannel\<close>; the call itself is in the theories of the poller and the
  connection. \<open>disableAll\<close> calls nothing.
\<close>

definition enableReading :: "Channel \<Rightarrow> Channel" where
  "enableReading c = c\<lparr>ch_events := ch_events c OR kReadEvent\<rparr>"

definition disableReading :: "Channel \<Rightarrow> Channel" where
  "disableReading c = c\<lparr>ch_events := ch_events c AND NOT kReadEvent\<rparr>"

definition enableWriting :: "Channel \<Rightarrow> Channel" where
  "enableWriting c = c\<lparr>ch_events := ch_events c OR kWriteEvent\<rparr>"

definition disableWriting :: "Channel \<Rightarrow> Channel" where
  "disableWriting c = c\<lparr>ch_events := ch_events c AND NOT kWriteEvent\<rparr>"

definition disableAll :: "Channel \<Rightarrow> Channel" where
  "disableAll c = c\<lparr>ch_events := kNoneEvent\<rparr>"

definition updateEvents :: "32 word \<Rightarrow> Channel \<Rightarrow> Channel" where
  "updateEvents ev c = c\<lparr>ch_events := ev\<rparr>"

section \<open>Dispatch\<close>

text \<open>
  The callbacks \<open>handleEventSafely\<close> runs, in order. \<open>alive\<close> says whether the owner the
  channel is tied to still exists when \<open>tie_.lock()\<close> is called.
\<close>

definition if_set :: "Channel \<Rightarrow> bool \<Rightarrow> callback \<Rightarrow> callback list" where
  "if_set c p cb = (if p \<and> cb \<in> ch_cbs c then [cb] else [])"

definition handleEventSafely :: "Channel \<Rightarrow> callback list" where
  "handleEventSafely c =
     (let r = ch_revents c in
      if EventCb \<in> ch_cbs c then [EventCb]
      else if_set c (r AND POLLHUP \<noteq> 0 \<and> r AND POLLIN = 0) CloseCb
         @ if_set c (r AND (POLLNVAL OR POLLERR) \<noteq> 0) ErrorCb
         @ if_set c (r AND (POLLIN OR POLLPRI OR POLLRDHUP) \<noteq> 0) ReadCb
         @ if_set c (r AND POLLOUT \<noteq> 0) WriteCb)"

definition handleEvent :: "bool \<Rightarrow> Channel \<Rightarrow> callback list" where
  "handleEvent alive c =
     (if ch_events c = kNoneEvent then []
      else if ch_tied c then (if alive then handleEventSafely c else [])
      else handleEventSafely c)"

section \<open>Lemmas\<close>

lemmas channel_ops =
  enableReading_def disableReading_def enableWriting_def disableWriting_def disableAll_def
  updateEvents_def setIndex_def setRevents_def tie_def

lemma channel_fd [simp]:
  "ch_fd (enableReading c) = ch_fd c" "ch_fd (disableReading c) = ch_fd c"
  "ch_fd (enableWriting c) = ch_fd c" "ch_fd (disableWriting c) = ch_fd c"
  "ch_fd (disableAll c) = ch_fd c" "ch_fd (updateEvents e c) = ch_fd c"
  "ch_fd (setIndex i c) = ch_fd c" "ch_fd (setRevents e c) = ch_fd c" "ch_fd (tie c) = ch_fd c"
  by (simp_all add: channel_ops)

lemma channel_index [simp]:
  "ch_index (enableReading c) = ch_index c" "ch_index (disableReading c) = ch_index c"
  "ch_index (enableWriting c) = ch_index c" "ch_index (disableWriting c) = ch_index c"
  "ch_index (disableAll c) = ch_index c" "ch_index (updateEvents e c) = ch_index c"
  "ch_index (setIndex i c) = i" "ch_index (setRevents e c) = ch_index c"
  "ch_index (tie c) = ch_index c"
  by (simp_all add: channel_ops)

lemma bit_kWriteEvent: "bit kWriteEvent n \<longleftrightarrow> n = 2"
  by (auto simp: poll_defs bit_simps numeral_eq_Suc bit_Suc nat_less_iff less_Suc_eq)

lemma bit_kReadEvent: "bit kReadEvent n \<longleftrightarrow> n = 0 \<or> n = 1"
proof -
  have "kReadEvent = mask 2" by (simp add: poll_defs mask_eq_exp_minus_1)
  then show ?thesis unfolding \<open>kReadEvent = mask 2\<close> bit_mask_iff by auto
qed

lemma and_kWriteEvent: "w AND kWriteEvent \<noteq> 0 \<longleftrightarrow> bit w 2"
proof
  assume "w AND kWriteEvent \<noteq> 0"
  moreover have "\<not> bit w 2 \<Longrightarrow> w AND kWriteEvent = 0"
    by (rule bit_word_eqI) (auto simp: bit_simps bit_kWriteEvent)
  ultimately show "bit w 2" by blast
next
  assume "bit w 2"
  then have "bit (w AND kWriteEvent) 2" by (simp add: bit_simps bit_kWriteEvent)
  then show "w AND kWriteEvent \<noteq> 0" by auto
qed

lemma isWriting_iff: "isWriting c \<longleftrightarrow> bit (ch_events c) 2"
  by (simp add: isWriting_def and_kWriteEvent)

lemma isWriting_ops [simp]:
  "isWriting (enableWriting c)" "\<not> isWriting (disableWriting c)" "\<not> isWriting (disableAll c)"
  "isWriting (enableReading c) = isWriting c" "isWriting (disableReading c) = isWriting c"
  "isWriting (setIndex i c) = isWriting c" "isWriting (tie c) = isWriting c"
  by (simp_all add: isWriting_iff channel_ops bit_simps bit_kWriteEvent bit_kReadEvent kNoneEvent_def)

lemma handleEvent_disabled: "handleEvent alive (disableAll c) = []"
  by (simp add: handleEvent_def disableAll_def)

lemma handleEvent_subset: "set (handleEvent alive c) \<subseteq> ch_cbs c"
  by (auto simp: handleEvent_def handleEventSafely_def if_set_def Let_def split: if_splits)

end
