(* ===== verification/EpollPoller.thy ===== *)
theory EpollPoller
  imports Channel
begin

text \<open>
  The poller of src/xiaoNet/net/inner/poller/EpollPoller.cpp. Its state is the channel objects
  (by a number that stands for their address), the debug map from descriptors to channels, the
  size of the event array, and the log of the \<open>epoll_ctl\<close> calls it made; the result of
  \<open>epoll_ctl\<close> is ignored by the code. What the calls amount to is specified by
  \<open>interest\<close>, the effect that epoll\_ctl(2) documents.
\<close>

section \<open>State\<close>

definition kNew :: int where "kNew = -1"
definition kAdded :: int where "kAdded = 1"
definition kDeleted :: int where "kDeleted = 2"

definition kInitEventListSize :: nat where
  "kInitEventListSize = 16"

datatype ctl_op = CtlAdd | CtlMod | CtlDel

datatype ctl = Ctl ctl_op int "32 word" nat

record Poller =
  pl_chans :: "nat \<Rightarrow> Channel"
  pl_channels :: "int \<rightharpoonup> nat"
  pl_evsize :: nat
  pl_log :: "ctl list"

definition EpollPoller_new :: "(nat \<Rightarrow> Channel) \<Rightarrow> Poller" where
  "EpollPoller_new chans = \<lparr>pl_chans = chans, pl_channels = Map.empty,
     pl_evsize = kInitEventListSize, pl_log = []\<rparr>"

definition set_chan :: "nat \<Rightarrow> Channel \<Rightarrow> Poller \<Rightarrow> Poller" where
  "set_chan i c s = s\<lparr>pl_chans := (pl_chans s)(i := c)\<rparr>"

section \<open>Operations\<close>

text \<open>\<open>EpollPoller::update\<close>: one \<open>epoll_ctl\<close> call with the channel's events and address.\<close>

definition EpollPoller_update :: "ctl_op \<Rightarrow> nat \<Rightarrow> Poller \<Rightarrow> Poller" where
  "EpollPoller_update oper i s =
     (let c = pl_chans s i in s\<lparr>pl_log := pl_log s @ [Ctl oper (ch_fd c) (ch_events c) i]\<rparr>)"

definition EpollPoller_updateChannel :: "nat \<Rightarrow> Poller \<Rightarrow> Poller res" where
  "EpollPoller_updateChannel i s =
     (let c = pl_chans s i; fd = ch_fd c; index = ch_index c in
      assert_then (0 \<le> fd)
        (if index = kNew \<or> index = kDeleted then
           bind_res
             (if index = kNew
              then assert_then (pl_channels s fd = None)
                     (Inr (s\<lparr>pl_channels := (pl_channels s)(fd \<mapsto> i)\<rparr>))
              else assert_then (pl_channels s fd \<noteq> None)
                     (assert_then (pl_channels s fd = Some i) (Inr s)))
             (\<lambda>s. Inr (EpollPoller_update CtlAdd i (set_chan i (setIndex kAdded c) s)))
         else
           assert_then (pl_channels s fd \<noteq> None)
             (assert_then (pl_channels s fd = Some i)
                (assert_then (index = kAdded)
                   (if isNoneEvent c
                    then Inr (set_chan i (setIndex kDeleted c) (EpollPoller_update CtlDel i s))
                    else Inr (EpollPoller_update CtlMod i s))))))"

definition EpollPoller_removeChannel :: "nat \<Rightarrow> Poller \<Rightarrow> Poller res" where
  "EpollPoller_removeChannel i s =
     (let c = pl_chans s i; fd = ch_fd c in
      assert_then (pl_channels s fd \<noteq> None)
        (assert_then (pl_channels s fd = Some i)
          (let s = s\<lparr>pl_channels := (pl_channels s)(fd := None)\<rparr> in
           assert_then (isNoneEvent c)
             (let index = ch_index c in
              assert_then (index = kAdded \<or> index = kDeleted)
                (let s = (if index = kAdded then EpollPoller_update CtlDel i s else s)
                 in Inr (set_chan i (setIndex kNew c) s))))))"

text \<open>
  \<open>poll\<close>: the outcome of \<open>epoll_wait\<close> is the argument, an error number or the list of
  ready channels (the address stored with the event) and their events. The result holds the
  active channels, in the order reported.
\<close>

datatype wait_result = WaitError int | WaitEvents "(nat \<times> 32 word) list"

fun fillActiveChannels :: "(nat \<times> 32 word) list \<Rightarrow> Poller \<Rightarrow> (nat list \<times> Poller) res" where
  "fillActiveChannels [] s = Inr ([], s)"
| "fillActiveChannels ((i, ev) # evs) s =
     (let c = pl_chans s i in
      assert_then (pl_channels s (ch_fd c) \<noteq> None)
        (assert_then (pl_channels s (ch_fd c) = Some i)
          (bind_res (fillActiveChannels evs (set_chan i (setRevents ev c) s))
             (\<lambda>(active, s). Inr (i # active, s)))))"

definition EpollPoller_poll :: "wait_result \<Rightarrow> Poller \<Rightarrow> (nat list \<times> Poller) res" where
  "EpollPoller_poll r s =
     (case r of
        WaitError e \<Rightarrow> Inr ([], s)
      | WaitEvents evs \<Rightarrow>
          (let numEvents = length evs in
           if 0 < numEvents then
             assert_then (numEvents \<le> pl_evsize s)
               (bind_res (fillActiveChannels evs s)
                  (\<lambda>(active, s). Inr (active,
                     if numEvents = pl_evsize s then s\<lparr>pl_evsize := pl_evsize s * 2\<rparr> else s)))
           else Inr ([], s)))"

text \<open>
  A channel operation as the channel runs it: the field update, then \<open>Channel::update\<close>
  through \<open>EventLoop::updateChannel\<close>. \<open>Channel::remove\<close> asserts that no event is enabled.
\<close>

definition channel_update :: "(Channel \<Rightarrow> Channel) \<Rightarrow> nat \<Rightarrow> Poller \<Rightarrow> Poller res" where
  "channel_update f i s = EpollPoller_updateChannel i (set_chan i (f (pl_chans s i)) s)"

definition Channel_remove :: "nat \<Rightarrow> Poller \<Rightarrow> Poller res" where
  "Channel_remove i s =
     assert_then (ch_events (pl_chans s i) = kNoneEvent)
       (EpollPoller_removeChannel i (set_chan i ((pl_chans s i)\<lparr>ch_added := False\<rparr>) s))"

section \<open>Specification: the kernel's interest list\<close>

fun ctl_effect :: "ctl \<Rightarrow> (int \<rightharpoonup> 32 word \<times> nat) \<Rightarrow> (int \<rightharpoonup> 32 word \<times> nat)" where
  "ctl_effect (Ctl CtlAdd fd ev i) m = m(fd \<mapsto> (ev, i))"
| "ctl_effect (Ctl CtlMod fd ev i) m = m(fd \<mapsto> (ev, i))"
| "ctl_effect (Ctl CtlDel fd ev i) m = m(fd := None)"

text \<open>ADD of a registered descriptor fails (EEXIST), as do MOD and DEL of another (ENOENT).\<close>

fun ctl_valid :: "ctl \<Rightarrow> (int \<rightharpoonup> 32 word \<times> nat) \<Rightarrow> bool" where
  "ctl_valid (Ctl CtlAdd fd ev i) m = (m fd = None)"
| "ctl_valid (Ctl CtlMod fd ev i) m = (m fd \<noteq> None)"
| "ctl_valid (Ctl CtlDel fd ev i) m = (m fd \<noteq> None)"

definition interest :: "ctl list \<Rightarrow> (int \<rightharpoonup> 32 word \<times> nat)" where
  "interest cs = foldl (\<lambda>m c. ctl_effect c m) Map.empty cs"

definition all_valid :: "ctl list \<Rightarrow> bool" where
  "all_valid cs \<longleftrightarrow> (\<forall>k<length cs. ctl_valid (cs ! k) (interest (take k cs)))"

lemma interest_Nil [simp]: "interest [] = Map.empty"
  by (simp add: interest_def)

lemma interest_snoc [simp]: "interest (cs @ [c]) = ctl_effect c (interest cs)"
  by (simp add: interest_def)

lemma all_valid_Nil [simp]: "all_valid []"
  by (simp add: all_valid_def)

lemma all_valid_snoc [simp]: "all_valid (cs @ [c]) \<longleftrightarrow> all_valid cs \<and> ctl_valid c (interest cs)"
  by (auto simp: all_valid_def nth_append less_Suc_eq)

text \<open>
  The invariant: a descriptor is in the debug map exactly when its channel is added or deleted,
  in the kernel's interest list exactly when it is added, and no \<open>epoll_ctl\<close> call failed.
\<close>

definition pl_inv :: "Poller \<Rightarrow> bool" where
  "pl_inv s \<longleftrightarrow> all_valid (pl_log s) \<and>
     (\<forall>i. ch_index (pl_chans s i) \<in> {kNew, kAdded, kDeleted}) \<and>
     (\<forall>fd i. pl_channels s fd = Some i \<longleftrightarrow>
        ch_fd (pl_chans s i) = fd \<and> ch_index (pl_chans s i) \<noteq> kNew) \<and>
     (\<forall>fd i. (\<exists>ev. interest (pl_log s) fd = Some (ev, i)) \<longleftrightarrow>
        ch_fd (pl_chans s i) = fd \<and> ch_index (pl_chans s i) = kAdded)"

section \<open>Lemmas\<close>

lemmas index_defs = kNew_def kAdded_def kDeleted_def

lemma pl_invD:
  assumes "pl_inv s"
  shows "all_valid (pl_log s)"
    "ch_index (pl_chans s i) \<in> {kNew, kAdded, kDeleted}"
    "pl_channels s fd = Some i \<longleftrightarrow> ch_fd (pl_chans s i) = fd \<and> ch_index (pl_chans s i) \<noteq> kNew"
    "(\<exists>ev. interest (pl_log s) fd = Some (ev, i)) \<longleftrightarrow>
       ch_fd (pl_chans s i) = fd \<and> ch_index (pl_chans s i) = kAdded"
  using assms unfolding pl_inv_def by blast+

lemma pl_inv_set_chan:
  assumes "pl_inv s" "ch_fd c = ch_fd (pl_chans s i)" "ch_index c = ch_index (pl_chans s i)"
  shows "pl_inv (set_chan i c s)"
  using assms unfolding pl_inv_def set_chan_def by auto

lemma unregistered:
  assumes inv: "pl_inv s" and "ch_fd (pl_chans s i) = fd"
    and "pl_channels s fd = None \<or> pl_channels s fd = Some i" and "ch_index (pl_chans s i) \<noteq> kAdded"
  shows "interest (pl_log s) fd = None"
proof (rule ccontr)
  assume "interest (pl_log s) fd \<noteq> None"
  then obtain ev j where "interest (pl_log s) fd = Some (ev, j)" by auto
  then have j: "ch_fd (pl_chans s j) = fd" "ch_index (pl_chans s j) = kAdded"
    using pl_invD(4) [OF inv] by blast+
  then have "pl_channels s fd = Some j"
    using pl_invD(3) [OF inv] by (simp add: index_defs)
  with assms(3) j assms(4) show False by auto
qed

lemma sole_channel:
  "pl_inv s \<Longrightarrow> pl_channels s fd = Some i \<Longrightarrow> ch_fd (pl_chans s j) = fd \<Longrightarrow> j \<noteq> i \<Longrightarrow>
   ch_index (pl_chans s j) = kNew"
  using pl_invD(3) [of s fd j] by auto

lemma updateChannel_step:
  assumes inv: "pl_inv s" and fd: "ch_fd (pl_chans s i) = fd" "0 \<le> fd"
    and fresh: "ch_index (pl_chans s i) = kNew \<Longrightarrow> pl_channels s fd = None"
  shows "\<exists>s'. EpollPoller_updateChannel i s = Inr s' \<and> pl_inv s' \<and>
    interest (pl_log s') =
      (interest (pl_log s))(fd := if ch_index (pl_chans s i) = kAdded \<and> isNoneEvent (pl_chans s i)
         then None else Some (ch_events (pl_chans s i), i)) \<and>
    ch_events (pl_chans s' i) = ch_events (pl_chans s i)"
proof -
  let ?c = "pl_chans s i"
  note chan = pl_invD(3) [OF inv] and int = pl_invD(4) [OF inv] and valid = pl_invD(1) [OF inv]
  consider (new) "ch_index ?c = kNew" | (deleted) "ch_index ?c = kDeleted"
    | (added) "ch_index ?c = kAdded"
    using pl_invD(2) [OF inv, of i] by auto
  then show ?thesis
  proof cases
    case new
    with fresh have none: "pl_channels s fd = None" by simp
    have out: "interest (pl_log s) fd = None"
      using unregistered [OF inv fd(1)] none new by (simp add: index_defs)
    have others: "ch_index (pl_chans s j) = kNew" if "ch_fd (pl_chans s j) = fd" for j
      using chan [of fd j] that none by auto
    let ?s' = "EpollPoller_update CtlAdd i
        (set_chan i (setIndex kAdded ?c) (s\<lparr>pl_channels := (pl_channels s)(fd \<mapsto> i)\<rparr>))"
    have "EpollPoller_updateChannel i s = Inr ?s'"
      using new fd none by (simp add: EpollPoller_updateChannel_def Let_def)
    moreover have "pl_inv ?s'"
      unfolding pl_inv_def EpollPoller_update_def set_chan_def Let_def
      using inv out none fd new others chan int valid pl_invD(2) [OF inv]
      by (auto simp: index_defs channel_ops split: if_splits)
    moreover have "interest (pl_log ?s') = (interest (pl_log s))(fd \<mapsto> (ch_events ?c, i))"
      using fd by (simp add: EpollPoller_update_def set_chan_def Let_def channel_ops)
    ultimately show ?thesis using new
      by (auto simp: index_defs EpollPoller_update_def set_chan_def Let_def channel_ops)
  next
    case deleted
    then have some: "pl_channels s fd = Some i" using chan fd by (simp add: index_defs)
    have out: "interest (pl_log s) fd = None"
      using unregistered [OF inv fd(1)] some deleted by (simp add: index_defs)
    note others = sole_channel [OF inv some]
    let ?s' = "EpollPoller_update CtlAdd i (set_chan i (setIndex kAdded ?c) s)"
    have "EpollPoller_updateChannel i s = Inr ?s'"
      using deleted fd some by (simp add: EpollPoller_updateChannel_def Let_def index_defs)
    moreover have "pl_inv ?s'"
      unfolding pl_inv_def EpollPoller_update_def set_chan_def Let_def
      using inv out some fd deleted others chan int valid pl_invD(2) [OF inv]
      by (auto simp: index_defs channel_ops split: if_splits)
    moreover have "interest (pl_log ?s') = (interest (pl_log s))(fd \<mapsto> (ch_events ?c, i))"
      using fd by (simp add: EpollPoller_update_def set_chan_def Let_def channel_ops)
    ultimately show ?thesis using deleted
      by (auto simp: index_defs EpollPoller_update_def set_chan_def Let_def channel_ops)
  next
    case added
    then have some: "pl_channels s fd = Some i" using chan fd by (simp add: index_defs)
    obtain ev where reg: "interest (pl_log s) fd = Some (ev, i)" using int fd added by blast
    note others = sole_channel [OF inv some]
    show ?thesis
    proof (cases "isNoneEvent ?c")
      case True
      let ?s' = "set_chan i (setIndex kDeleted ?c) (EpollPoller_update CtlDel i s)"
      have "EpollPoller_updateChannel i s = Inr ?s'"
        using added fd some True by (simp add: EpollPoller_updateChannel_def Let_def index_defs)
      moreover have "pl_inv ?s'"
        unfolding pl_inv_def EpollPoller_update_def set_chan_def Let_def
        using inv reg some fd added others chan int valid pl_invD(2) [OF inv]
        by (auto simp: index_defs channel_ops split: if_splits)
      moreover have "interest (pl_log ?s') = (interest (pl_log s))(fd := None)"
        using fd by (simp add: EpollPoller_update_def set_chan_def Let_def channel_ops)
      ultimately show ?thesis using added True
        by (auto simp: EpollPoller_update_def set_chan_def Let_def channel_ops)
    next
      case False
      let ?s' = "EpollPoller_update CtlMod i s"
      have "EpollPoller_updateChannel i s = Inr ?s'"
        using added fd some False by (simp add: EpollPoller_updateChannel_def Let_def index_defs)
      moreover have "pl_inv ?s'"
      proof -
        have log: "pl_log ?s' = pl_log s @ [Ctl CtlMod fd (ch_events ?c) i]"
          using fd by (simp add: EpollPoller_update_def Let_def)
        have rest: "pl_chans ?s' = pl_chans s" "pl_channels ?s' = pl_channels s"
          by (simp_all add: EpollPoller_update_def Let_def)
        have "(\<exists>ev. interest (pl_log ?s') fd' = Some (ev, k)) \<longleftrightarrow>
            (\<exists>ev. interest (pl_log s) fd' = Some (ev, k))" for fd' k
          using reg by (simp add: log)
        then show ?thesis
          unfolding pl_inv_def rest using reg chan int valid pl_invD(2) [OF inv]
          by (simp add: log)
      qed
      moreover have "interest (pl_log ?s') = (interest (pl_log s))(fd \<mapsto> (ch_events ?c, i))"
        using fd by (simp add: EpollPoller_update_def Let_def)
      ultimately show ?thesis using False
        by (auto simp: EpollPoller_update_def Let_def)
    qed
  qed
qed

lemma removeChannel_step:
  assumes inv: "pl_inv s" and idx: "ch_index (pl_chans s i) \<noteq> kNew"
    and none: "isNoneEvent (pl_chans s i)" and fd: "ch_fd (pl_chans s i) = fd"
  shows "\<exists>s'. EpollPoller_removeChannel i s = Inr s' \<and> pl_inv s' \<and>
    interest (pl_log s') = (interest (pl_log s))(fd := None) \<and>
    ch_index (pl_chans s' i) = kNew \<and> pl_channels s' fd = None"
proof -
  let ?c = "pl_chans s i"
  note chan = pl_invD(3) [OF inv] and int = pl_invD(4) [OF inv] and valid = pl_invD(1) [OF inv]
  have some: "pl_channels s fd = Some i" using chan fd idx by blast
  note others = sole_channel [OF inv some]
  consider (deleted) "ch_index ?c = kDeleted" | (added) "ch_index ?c = kAdded"
    using pl_invD(2) [OF inv, of i] idx by auto
  then show ?thesis
  proof cases
    case added
    obtain ev where reg: "interest (pl_log s) fd = Some (ev, i)" using int fd added by blast
    let ?s' = "set_chan i (setIndex kNew ?c)
        (EpollPoller_update CtlDel i (s\<lparr>pl_channels := (pl_channels s)(fd := None)\<rparr>))"
    have "EpollPoller_removeChannel i s = Inr ?s'"
      using added fd some none by (simp add: EpollPoller_removeChannel_def Let_def index_defs)
    moreover have "pl_inv ?s'"
      unfolding pl_inv_def EpollPoller_update_def set_chan_def Let_def
      using inv reg some fd added others chan int valid pl_invD(2) [OF inv]
      by (auto simp: index_defs channel_ops split: if_splits)
    ultimately show ?thesis using fd
      by (auto simp: EpollPoller_update_def set_chan_def Let_def channel_ops)
  next
    case deleted
    have out: "interest (pl_log s) fd = None"
      using unregistered [OF inv fd] some deleted by (simp add: index_defs)
    let ?s' = "set_chan i (setIndex kNew ?c) (s\<lparr>pl_channels := (pl_channels s)(fd := None)\<rparr>)"
    have "EpollPoller_removeChannel i s = Inr ?s'"
      using deleted fd some none by (simp add: EpollPoller_removeChannel_def Let_def index_defs)
    moreover have "pl_inv ?s'"
      unfolding pl_inv_def set_chan_def
      using inv out some fd deleted others chan int valid pl_invD(2) [OF inv]
      by (auto simp: index_defs channel_ops split: if_splits)
    moreover have "interest (pl_log s) = (interest (pl_log s))(fd := None)"
      using out by (auto simp: fun_eq_iff)
    ultimately show ?thesis using fd
      by (auto simp: set_chan_def channel_ops)
  qed
qed

lemma fillActiveChannels_ok:
  assumes "pl_inv s"
    and "\<forall>(i, ev)\<in>set evs. pl_channels s (ch_fd (pl_chans s i)) = Some i"
  shows "\<exists>s'. fillActiveChannels evs s = Inr (map fst evs, s') \<and> pl_inv s' \<and>
    pl_log s' = pl_log s \<and> pl_channels s' = pl_channels s \<and> pl_evsize s' = pl_evsize s \<and>
    (\<forall>j. ch_fd (pl_chans s' j) = ch_fd (pl_chans s j) \<and>
         ch_events (pl_chans s' j) = ch_events (pl_chans s j))"
  using assms
proof (induction evs arbitrary: s)
  case Nil
  then show ?case by simp
next
  case (Cons e evs)
  obtain i ev where e: "e = (i, ev)" by (cases e)
  let ?s = "set_chan i (setRevents ev (pl_chans s i)) s"
  have same: "pl_log ?s = pl_log s" "pl_channels ?s = pl_channels s" "pl_evsize ?s = pl_evsize s"
    "ch_fd (pl_chans ?s j) = ch_fd (pl_chans s j)"
    "ch_events (pl_chans ?s j) = ch_events (pl_chans s j)" for j
    by (simp_all add: set_chan_def channel_ops)
  have "pl_inv ?s" using Cons.prems(1) by (intro pl_inv_set_chan) simp_all
  moreover have "\<forall>(i, ev)\<in>set evs. pl_channels ?s (ch_fd (pl_chans ?s i)) = Some i"
    using Cons.prems(2) by (simp add: same)
  ultimately obtain s' where s': "fillActiveChannels evs ?s = Inr (map fst evs, s')" "pl_inv s'"
    "pl_log s' = pl_log ?s" "pl_channels s' = pl_channels ?s" "pl_evsize s' = pl_evsize ?s"
    "\<forall>j. ch_fd (pl_chans s' j) = ch_fd (pl_chans ?s j) \<and>
         ch_events (pl_chans s' j) = ch_events (pl_chans ?s j)"
    using Cons.IH by blast
  then show ?case using Cons.prems(2) by (simp add: e same Let_def)
qed

end
