(* ===== verification/EpollProps.thy ===== *)
theory EpollProps
  imports EpollPoller
begin

text \<open>
  The poller as a transition system: the operations channels and the loop perform on it, the
  states they reach, and the correspondence between channel records and the kernel's interest
  list in all of them.
\<close>

section \<open>Steps\<close>

text \<open>
  \<open>update\<close> after any change of the events (a channel that is not registered needs a descriptor
  nobody registered), \<open>disableAll\<close>, which the code does not follow by an update, \<open>remove\<close> of
  a registered channel, and \<open>poll\<close> with events that the interest list allows.
\<close>

inductive poller_step :: "Poller \<Rightarrow> Poller \<Rightarrow> bool" where
  step_update: "0 \<le> ch_fd (pl_chans s i) \<Longrightarrow>
    ch_index (pl_chans s i) \<noteq> kNew \<or> pl_channels s (ch_fd (pl_chans s i)) = None \<Longrightarrow>
    channel_update (updateEvents ev) i s = Inr s' \<Longrightarrow> poller_step s s'"
| step_disableAll: "poller_step s (set_chan i (disableAll (pl_chans s i)) s)"
| step_remove: "ch_index (pl_chans s i) \<noteq> kNew \<Longrightarrow> Channel_remove i s = Inr s' \<Longrightarrow> poller_step s s'"
| step_poll: "\<forall>(i, ev)\<in>set evs. \<exists>e. interest (pl_log s) (ch_fd (pl_chans s i)) = Some (e, i) \<Longrightarrow>
    EpollPoller_poll (WaitEvents evs) s = Inr (active, s') \<Longrightarrow> poller_step s s'"

inductive poller_reach :: "(nat \<Rightarrow> Channel) \<Rightarrow> Poller \<Rightarrow> bool" for chans where
  reach_new: "\<forall>i. ch_index (chans i) = kNew \<Longrightarrow> poller_reach chans (EpollPoller_new chans)"
| reach_step: "poller_reach chans s \<Longrightarrow> poller_step s s' \<Longrightarrow> poller_reach chans s'"

section \<open>Preservation\<close>

lemma new_inv: "\<forall>i. ch_index (chans i) = kNew \<Longrightarrow> pl_inv (EpollPoller_new chans)"
  by (simp add: pl_inv_def EpollPoller_new_def index_defs)

lemma set_chan_chans [simp]: "pl_chans (set_chan i c s) i = c"
  "pl_log (set_chan i c s) = pl_log s" "pl_channels (set_chan i c s) = pl_channels s"
  "pl_evsize (set_chan i c s) = pl_evsize s"
  by (simp_all add: set_chan_def)

lemma channel_update_step:
  assumes inv: "pl_inv s" and fd: "ch_fd (pl_chans s i) = fd" "0 \<le> fd"
    and fresh: "ch_index (pl_chans s i) \<noteq> kNew \<or> pl_channels s fd = None"
  shows "\<exists>s'. channel_update (updateEvents ev) i s = Inr s' \<and> pl_inv s' \<and>
    interest (pl_log s') =
      (interest (pl_log s))(fd := if ch_index (pl_chans s i) = kAdded \<and> ev = kNoneEvent
         then None else Some (ev, i)) \<and>
    ch_events (pl_chans s' i) = ev"
proof -
  let ?c = "updateEvents ev (pl_chans s i)"
  have "pl_inv (set_chan i ?c s)"
    using inv by (intro pl_inv_set_chan) (simp_all add: channel_ops)
  from updateChannel_step [OF this, of i fd] fd fresh show ?thesis
    by (auto simp: channel_update_def channel_ops isNoneEvent_def)
qed

lemma Channel_remove_step:
  assumes inv: "pl_inv s" and idx: "ch_index (pl_chans s i) \<noteq> kNew"
    and none: "isNoneEvent (pl_chans s i)"
  shows "\<exists>s'. Channel_remove i s = Inr s' \<and> pl_inv s' \<and>
    interest (pl_log s') = (interest (pl_log s))(ch_fd (pl_chans s i) := None) \<and>
    ch_index (pl_chans s' i) = kNew \<and> pl_channels s' (ch_fd (pl_chans s i)) = None"
proof -
  let ?c = "(pl_chans s i)\<lparr>ch_added := False\<rparr>"
  have "pl_inv (set_chan i ?c s)" using inv by (intro pl_inv_set_chan) simp_all
  from removeChannel_step [OF this, of i "ch_fd (pl_chans s i)"] idx none show ?thesis
    by (auto simp: Channel_remove_def isNoneEvent_def)
qed

lemma poll_step:
  assumes inv: "pl_inv s"
    and evs: "\<forall>(i, ev)\<in>set evs. \<exists>e. interest (pl_log s) (ch_fd (pl_chans s i)) = Some (e, i)"
    and len: "length evs \<le> pl_evsize s"
  shows "\<exists>s'. EpollPoller_poll (WaitEvents evs) s = Inr (map fst evs, s') \<and> pl_inv s' \<and>
    pl_log s' = pl_log s"
proof -
  have "\<forall>(i, ev)\<in>set evs. pl_channels s (ch_fd (pl_chans s i)) = Some i"
    using evs pl_invD(3,4) [OF inv] by (fastforce simp: index_defs)
  from fillActiveChannels_ok [OF inv this] obtain s' where
    s': "fillActiveChannels evs s = Inr (map fst evs, s')" "pl_inv s'" "pl_log s' = pl_log s"
    by blast
  have "pl_inv (s'\<lparr>pl_evsize := n\<rparr>)" for n using s'(2) by (simp add: pl_inv_def)
  with s' inv len show ?thesis by (auto simp: EpollPoller_poll_def Let_def)
qed

lemma disableAll_step:
  assumes "pl_inv s"
  shows "pl_inv (set_chan i (disableAll (pl_chans s i)) s)"
  using assms by (intro pl_inv_set_chan) (simp_all add: channel_ops)

lemma poll_bound:
  "EpollPoller_poll (WaitEvents evs) s = Inr r \<Longrightarrow> length evs \<le> pl_evsize s"
  by (auto simp: EpollPoller_poll_def Let_def assert_then_def split: if_splits)

lemma step_inv: "poller_step s s' \<Longrightarrow> pl_inv s \<Longrightarrow> pl_inv s'"
proof (induction rule: poller_step.induct)
  case (step_update s i ev s')
  from channel_update_step [OF step_update.prems refl step_update.hyps(1,2), of ev]
    step_update.hyps(3) show ?case by auto
next
  case (step_remove s i s')
  have "isNoneEvent (pl_chans s i)"
    using step_remove.hyps(2)
    by (auto simp: Channel_remove_def isNoneEvent_def assert_then_def split: if_splits)
  from Channel_remove_step [OF step_remove.prems step_remove.hyps(1) this] step_remove.hyps(2)
  show ?case by auto
next
  case (step_poll evs s active s')
  from poll_step [OF step_poll.prems step_poll.hyps(1) poll_bound [OF step_poll.hyps(2)]]
    step_poll.hyps(2) show ?case by auto
qed (simp add: disableAll_step)

lemma reach_inv: "poller_reach chans s \<Longrightarrow> pl_inv s"
  by (induction rule: poller_reach.induct) (auto intro: new_inv step_inv)

section \<open>Properties\<close>

text \<open>
  C14. In every reachable state no \<open>epoll_ctl\<close> call made so far could fail (no ADD of a
  registered descriptor, no MOD or DEL of an unregistered one), the debug map holds exactly the
  channels that are added or deleted, and the kernel's interest list exactly those that are added.
\<close>

theorem poller_registration:
  assumes "poller_reach chans s"
  shows "all_valid (pl_log s) \<and>
    (\<forall>fd i. pl_channels s fd = Some i \<longleftrightarrow>
       ch_fd (pl_chans s i) = fd \<and> ch_index (pl_chans s i) \<noteq> kNew) \<and>
    (\<forall>fd i. (\<exists>ev. interest (pl_log s) fd = Some (ev, i)) \<longleftrightarrow>
       ch_fd (pl_chans s i) = fd \<and> ch_index (pl_chans s i) = kAdded)"
  using reach_inv [OF assms] unfolding pl_inv_def by blast

definition two_channels :: "nat \<Rightarrow> Channel" where
  "two_channels i = Channel_new (if i = 0 then 5 else 6)"

definition one_added :: Poller where
  "one_added = (EpollPoller_new two_channels)
     \<lparr>pl_chans := two_channels(0 := setIndex kAdded (updateEvents kReadEvent (Channel_new 5))),
      pl_channels := [5 \<mapsto> 0], pl_log := [Ctl CtlAdd 5 kReadEvent 0]\<rparr>"

lemma one_added_update:
  "channel_update (updateEvents kReadEvent) 0 (EpollPoller_new two_channels) = Inr one_added"
  by (simp add: channel_update_def EpollPoller_updateChannel_def EpollPoller_new_def set_chan_def
      two_channels_def Channel_new_def channel_ops one_added_def EpollPoller_update_def Let_def
      index_defs)

lemma one_added_reach: "poller_reach two_channels one_added"
proof (rule reach_step)
  show "poller_reach two_channels (EpollPoller_new two_channels)"
    by (rule reach_new) (simp add: two_channels_def Channel_new_def kNew_def)
  show "poller_step (EpollPoller_new two_channels) one_added"
    by (rule step_update [OF _ _ one_added_update])
       (simp_all add: EpollPoller_new_def two_channels_def Channel_new_def)
qed

lemma one_added_facts:
  "ch_fd (pl_chans one_added 0) = 5" "ch_index (pl_chans one_added 0) = kAdded"
  "interest (pl_log one_added) 5 = Some (kReadEvent, 0)" "pl_evsize one_added = 16"
  "kWriteEvent \<noteq> kNoneEvent"
  by (simp_all add: one_added_def EpollPoller_new_def channel_ops Channel_new_def interest_def
      kInitEventListSize_def poll_defs)

theorem poller_registration_witness:
  "all_valid (pl_log one_added) \<and>
    (\<forall>fd i. pl_channels one_added fd = Some i \<longleftrightarrow>
       ch_fd (pl_chans one_added i) = fd \<and> ch_index (pl_chans one_added i) \<noteq> kNew) \<and>
    (\<forall>fd i. (\<exists>ev. interest (pl_log one_added) fd = Some (ev, i)) \<longleftrightarrow>
       ch_fd (pl_chans one_added i) = fd \<and> ch_index (pl_chans one_added i) = kAdded)"
  by (rule poller_registration [OF one_added_reach])

text \<open>
  C15. In every reachable state the operations meet none of their assertions: an update of a
  channel with a descriptor of its own succeeds and leaves the kernel watching exactly the
  requested events (nothing, when a registered channel asks for none), a registered channel
  without events can be removed, which takes its descriptor out of the kernel's list and the
  map, and \<open>poll\<close> hands back the channels of the reported events in order.
\<close>

theorem poller_operations:
  assumes "poller_reach chans s"
  shows "(0 \<le> ch_fd (pl_chans s i) \<and>
      (ch_index (pl_chans s i) \<noteq> kNew \<or> pl_channels s (ch_fd (pl_chans s i)) = None) \<longrightarrow>
      (\<exists>s'. channel_update (updateEvents ev) i s = Inr s' \<and>
         interest (pl_log s') (ch_fd (pl_chans s i)) =
           (if ch_index (pl_chans s i) = kAdded \<and> ev = kNoneEvent then None else Some (ev, i)))) \<and>
    (ch_index (pl_chans s i) \<noteq> kNew \<and> isNoneEvent (pl_chans s i) \<longrightarrow>
      (\<exists>s'. Channel_remove i s = Inr s' \<and> interest (pl_log s') (ch_fd (pl_chans s i)) = None \<and>
         pl_channels s' (ch_fd (pl_chans s i)) = None)) \<and>
    ((\<forall>(i, ev)\<in>set evs. \<exists>e. interest (pl_log s) (ch_fd (pl_chans s i)) = Some (e, i)) \<and>
      length evs \<le> pl_evsize s \<longrightarrow>
      (\<exists>s'. EpollPoller_poll (WaitEvents evs) s = Inr (map fst evs, s')))"
proof (intro conjI impI)
  note inv = reach_inv [OF assms]
  show "\<exists>s'. channel_update (updateEvents ev) i s = Inr s' \<and>
      interest (pl_log s') (ch_fd (pl_chans s i)) =
        (if ch_index (pl_chans s i) = kAdded \<and> ev = kNoneEvent then None else Some (ev, i))"
    if "0 \<le> ch_fd (pl_chans s i) \<and>
      (ch_index (pl_chans s i) \<noteq> kNew \<or> pl_channels s (ch_fd (pl_chans s i)) = None)"
    using that channel_update_step [OF inv refl, of i ev] by auto
  show "\<exists>s'. Channel_remove i s = Inr s' \<and> interest (pl_log s') (ch_fd (pl_chans s i)) = None \<and>
      pl_channels s' (ch_fd (pl_chans s i)) = None"
    if "ch_index (pl_chans s i) \<noteq> kNew \<and> isNoneEvent (pl_chans s i)"
    using that Channel_remove_step [OF inv, of i] by auto
  show "\<exists>s'. EpollPoller_poll (WaitEvents evs) s = Inr (map fst evs, s')"
    if "(\<forall>(i, ev)\<in>set evs. \<exists>e. interest (pl_log s) (ch_fd (pl_chans s i)) = Some (e, i)) \<and>
      length evs \<le> pl_evsize s"
    using that poll_step [OF inv] by blast
qed

theorem poller_operations_witness:
  "(\<exists>s'. channel_update (updateEvents kWriteEvent) 0 one_added = Inr s' \<and>
      interest (pl_log s') 5 = Some (kWriteEvent, 0)) \<and>
   (\<exists>s'. EpollPoller_poll (WaitEvents [(0, POLLIN)]) one_added = Inr (map fst [(0, POLLIN)], s'))"
  using poller_operations [OF one_added_reach, of 0 kWriteEvent "[(0, POLLIN)]"] one_added_facts
  by (simp add: index_defs)

text \<open>
  \<open>disableAll\<close> does not reach the kernel: after it an added channel has no events of its
  own but the interest list is unchanged, so the kernel goes on reporting the old events, which
  \<open>handleEvent\<close> then drops.
\<close>

theorem disableAll_leaves_kernel:
  assumes "poller_reach chans s" "ch_index (pl_chans s i) = kAdded"
  shows "let s' = set_chan i (disableAll (pl_chans s i)) s in
    (\<exists>ev. interest (pl_log s') (ch_fd (pl_chans s' i)) = Some (ev, i) \<and>
          interest (pl_log s') = interest (pl_log s)) \<and>
    isNoneEvent (pl_chans s' i) \<and> handleEvent alive (setRevents r (pl_chans s' i)) = []"
  using pl_invD(4) [OF reach_inv [OF assms(1)], of "ch_fd (pl_chans s i)" i] assms(2)
  by (auto simp: Let_def channel_ops isNoneEvent_def handleEvent_def)

theorem disableAll_leaves_kernel_witness:
  "let s' = set_chan 0 (disableAll (pl_chans one_added 0)) one_added in
    (\<exists>ev. interest (pl_log s') (ch_fd (pl_chans s' 0)) = Some (ev, 0) \<and>
          interest (pl_log s') = interest (pl_log one_added)) \<and>
    isNoneEvent (pl_chans s' 0) \<and> handleEvent True (setRevents POLLIN (pl_chans s' 0)) = []"
  by (rule disableAll_leaves_kernel [OF one_added_reach]) (simp add: one_added_def channel_ops)

end
