(* ===== verification/TcpConnection.thy ===== *)
theory TcpConnection
  imports BufferNode Channel
begin

text \<open>
  The connection of src/xiaoNet/net/inner/TcpConnectionImpl.h and TcpConnectionImpl.cpp. Its state
  is a record with one field per member variable the code reads or writes, plus the world of the
  system calls and a log of the effects that leave the connection (bytes handed to the kernel,
  updates of the event loop, calls of the user's callbacks, in order). The repository builds no
  TLS provider: \<open>newTLSProvider\<close> throws, so \<open>tlsProviderPtr_\<close> is null in every connection
  that exists in this build; the branches on it are in TlsConnection. The constructor's throw is modelled.
  Callbacks of the user are effects of the log; the one that consumes received bytes is the
  parameter \<open>recv\<close>.
\<close>

section \<open>State\<close>

datatype ConnStatus = Disconnected | Connecting | Connected | Disconnecting

datatype effect =
  EffWrite "byte list"
| EffSendfile int nat
| EffUpdate "32 word"
| EffRemove
| EffConnectionCb ConnStatus
| EffCloseCb
| EffRecvCb "byte list"
| EffHighWater int
| EffShutdownWrite
| EffWheelInsert nat nat

text \<open>
  Operations called from another thread are queued in the loop; the queued closures.
\<close>

datatype conn_task =
  TaskSend "byte list"
| TaskSendNode nat
| TaskAsyncOpen nat bool
| TaskAsyncData nat "byte list option"
| TaskShutdown
| TaskForceClose
| TaskEstablish

text \<open>
  The environment: the system calls of the nodes, the clock, whether the kick-off entry and the
  timing wheel behind a weak pointer still exist, and the user's message callback, which may
  consume from the read buffer. \<open>env_after1\<close> is \<open>Date::after(1.0)\<close> of the xiaoLog package.
\<close>

record 'w env =
  env_os :: "'w os"
  env_now :: "'w \<Rightarrow> int"
  env_after1 :: "int \<Rightarrow> int"
  env_alive :: "nat \<Rightarrow> 'w \<Rightarrow> bool"
  env_wheel :: "'w \<Rightarrow> bool"
  env_recv :: "MsgBuffer \<Rightarrow> 'w \<Rightarrow> MsgBuffer \<times> 'w"

record 'w conn =
  tc_fd :: int
  tc_status :: ConnStatus
  tc_chan :: Channel
  tc_readBuffer :: MsgBuffer
  tc_nodes :: "nat \<Rightarrow> BufferNode"
  tc_next :: nat
  tc_writeList :: "nat list"
  tc_closeOnEmpty :: bool
  tc_bytesSent :: nat
  tc_bytesReceived :: nat
  tc_idleTimeout :: nat
  tc_idleTimeoutBackup :: nat
  tc_kickoffEntry :: "nat option"
  tc_nextEntry :: nat
  tc_entryReset :: "nat set"
  tc_lastWheelUpdate :: int
  tc_highWaterCb :: bool
  tc_highWaterMarkLen :: nat
  tc_connectionCb :: bool
  tc_closeCb :: bool
  tc_recvCb :: bool
  tc_errno :: int
  tc_tasks :: "conn_task list"
  tc_log :: "effect list"
  tc_world :: 'w

definition EAGAIN :: int where "EAGAIN = 11"
definition EPIPE :: int where "EPIPE = 32"
definition ECONNRESET :: int where "ECONNRESET = 104"

definition log_eff :: "effect \<Rightarrow> 'w conn \<Rightarrow> 'w conn" where
  "log_eff e c = c\<lparr>tc_log := tc_log c @ [e]\<rparr>"

text \<open>A channel operation followed by \<open>Channel::update\<close>.\<close>

definition upd_chan :: "(Channel \<Rightarrow> Channel) \<Rightarrow> 'w conn \<Rightarrow> 'w conn" where
  "upd_chan f c = log_eff (EffUpdate (ch_events (f (tc_chan c)))) (c\<lparr>tc_chan := f (tc_chan c)\<rparr>)"

text \<open>
  The constructor. A policy asks for TLS, whose provider this build cannot make:
  \<open>newTLSProvider\<close> throws \<open>std::runtime_error\<close>.
\<close>

definition TcpConnectionImpl_new :: "bool \<Rightarrow> int \<Rightarrow> 'w \<Rightarrow> 'w conn res" where
  "TcpConnectionImpl_new policy fd w =
     bind_res (MsgBuffer_new kBufferDefaultLength)
       (\<lambda>b. if policy then Inl RuntimeError
            else Inr \<lparr>tc_fd = fd, tc_status = Connecting,
              tc_chan = setErrorCallback (setCloseCallback (setWriteCallback (setReadCallback
                          (Channel_new fd)))),
              tc_readBuffer = b, tc_nodes = (\<lambda>_. newAsyncStreamBufferNode), tc_next = 0,
              tc_writeList = [], tc_closeOnEmpty = False, tc_bytesSent = 0, tc_bytesReceived = 0,
              tc_idleTimeout = 0, tc_idleTimeoutBackup = 0, tc_kickoffEntry = None,
              tc_nextEntry = 0, tc_entryReset = {}, tc_lastWheelUpdate = 0,
              tc_highWaterCb = False, tc_highWaterMarkLen = 0, tc_connectionCb = False,
              tc_closeCb = False, tc_recvCb = False, tc_errno = 0, tc_tasks = [], tc_log = [],
              tc_world = w\<rparr>)"

section \<open>Idle connections\<close>

definition extendLife :: "'w env \<Rightarrow> 'w conn \<Rightarrow> 'w conn" where
  "extendLife e c =
     (if 0 < tc_idleTimeout c then
        (let now = env_now e (tc_world c) in
         if now < env_after1 e (tc_lastWheelUpdate c) then c
         else
           (let c = c\<lparr>tc_lastWheelUpdate := now\<rparr> in
            case tc_kickoffEntry c of
              None \<Rightarrow> c
            | Some k \<Rightarrow>
                if env_alive e k (tc_world c) \<and> env_wheel e (tc_world c)
                then log_eff (EffWheelInsert (tc_idleTimeout c) k) c else c))
      else c)"

definition new_entry :: "'w conn \<Rightarrow> 'w conn" where
  "new_entry c = c\<lparr>tc_kickoffEntry := Some (tc_nextEntry c), tc_nextEntry := Suc (tc_nextEntry c)\<rparr>"

definition enableKickingOff :: "nat \<Rightarrow> 'w conn \<Rightarrow> 'w conn res" where
  "enableKickingOff timeout c =
     assert_then (0 < timeout)
       (Inr (log_eff (EffWheelInsert timeout (tc_nextEntry c))
               ((new_entry c)\<lparr>tc_idleTimeout := timeout\<rparr>)))"

text \<open>\<open>KickoffEntry::reset\<close> on the entry the weak pointer names, if it is alive.\<close>

definition reset_entry :: "'w env \<Rightarrow> 'w conn \<Rightarrow> 'w conn" where
  "reset_entry e c =
     (case tc_kickoffEntry c of
        None \<Rightarrow> c
      | Some k \<Rightarrow> if env_alive e k (tc_world c)
                  then c\<lparr>tc_entryReset := insert k (tc_entryReset c)\<rparr> else c)"

definition keepAlive :: "'w env \<Rightarrow> 'w conn \<Rightarrow> 'w conn" where
  "keepAlive e c = reset_entry e (c\<lparr>tc_idleTimeout := 0\<rparr>)"

definition isKeepAlive :: "'w conn \<Rightarrow> bool" where
  "isKeepAlive c \<longleftrightarrow> tc_idleTimeout c = 0"

section \<open>Writing\<close>

text \<open>
  \<open>int\<close> and \<open>static_cast<int>\<close>, \<open>long long\<close> and \<open>static_cast<long long>\<close>: 32 and 64
  bits, two's complement.
\<close>

definition to_int32 :: "int \<Rightarrow> int" where
  "to_int32 n = (n + 2147483648) mod 4294967296 - 2147483648"

definition to_int64 :: "int \<Rightarrow> int" where
  "to_int64 n = (n + 9223372036854775808) mod 18446744073709551616 - 9223372036854775808"

text \<open>
  \<open>writeRaw\<close>. The code tests \<open>!isEAGAIN\<close>, the address of the function and not its result, so
  the branch that would return an error is never taken; and after a short write it calls
  \<open>enableReading()\<close>.
\<close>

definition writeRaw :: "'w env \<Rightarrow> byte list \<Rightarrow> 'w conn \<Rightarrow> int \<times> 'w conn" where
  "writeRaw e data c =
     (let (r, w) = os_write (env_os e) (tc_fd c) data (tc_world c);
          nWritten = (case r of IoCount n \<Rightarrow> to_int32 (int n) | IoError err \<Rightarrow> -1);
          c = c\<lparr>tc_world := w,
                tc_errno := (case r of IoCount n \<Rightarrow> tc_errno c | IoError err \<Rightarrow> err)\<rparr>;
          c = (if 0 < nWritten
               then log_eff (EffWrite (take (nat nWritten) data))
                      (c\<lparr>tc_bytesSent := sz_add (tc_bytesSent c) (nat nWritten)\<rparr>)
               else c);
          nWritten = (if nWritten < 0 then 0 else nWritten);
          c = (if nWritten < to_int32 (int (length data)) \<and> \<not> isWriting (tc_chan c)
               then upd_chan enableReading c else c)
      in (nWritten, extendLife e c))"

text \<open>Without a TLS provider \<open>writeInLoop\<close> is \<open>writeRaw\<close>.\<close>

definition writeInLoop :: "'w env \<Rightarrow> byte list \<Rightarrow> 'w conn \<Rightarrow> int \<times> 'w conn" where
  "writeInLoop = writeRaw"

definition set_node :: "nat \<Rightarrow> BufferNode \<Rightarrow> 'w conn \<Rightarrow> 'w conn" where
  "set_node i nd c = c\<lparr>tc_nodes := (tc_nodes c)(i := nd)\<rparr>"

definition new_node :: "BufferNode \<Rightarrow> 'w conn \<Rightarrow> nat \<times> 'w conn" where
  "new_node nd c = (tc_next c, (set_node (tc_next c) nd c)\<lparr>tc_next := Suc (tc_next c)\<rparr>)"

definition push_node :: "nat \<Rightarrow> 'w conn \<Rightarrow> 'w conn" where
  "push_node i c = c\<lparr>tc_writeList := tc_writeList c @ [i]\<rparr>"

definition highWater :: "nat \<Rightarrow> 'w conn \<Rightarrow> 'w conn" where
  "highWater i c =
     (let left = node_remainingBytes (tc_nodes c i) in
      if tc_highWaterCb c \<and> to_int64 (int (tc_highWaterMarkLen c)) < left
      then log_eff (EffHighWater left) c else c)"

definition sendInLoop :: "'w env \<Rightarrow> byte list \<Rightarrow> 'w conn \<Rightarrow> 'w conn res" where
  "sendInLoop e data c =
     (if tc_status c \<noteq> Connected then Inr c
      else
        (let (sendLen, c) =
               (if \<not> isWriting (tc_chan c) \<and> tc_writeList c = [] then writeInLoop e data c
                else (0, c))
         in
         if sendLen < 0 then Inr c
         else
           (let rest = drop (nat sendLen) data in
            if 0 < length rest \<and> tc_status c = Connected then
              bind_res
                (if tc_writeList c = [] \<or> node_isFile (tc_nodes c (last (tc_writeList c))) \<or>
                    node_isStream (tc_nodes c (last (tc_writeList c)))
                 then bind_res newMemBufferNode
                        (\<lambda>nd. let (i, c) = new_node nd c in Inr (push_node i c))
                 else Inr c)
                (\<lambda>c. let i = last (tc_writeList c) in
                     bind_res (node_append (tc_nodes c i) rest)
                       (\<lambda>nd. Inr (highWater i (set_node i nd c))))
            else Inr c)))"

text \<open>
  \<open>isEAGAIN\<close> reads \<open>errno\<close>, which a successful call leaves as it was.
\<close>

definition isEAGAIN :: "int \<Rightarrow> bool" where
  "isEAGAIN errno \<longleftrightarrow> errno = EAGAIN \<or> errno = 0"

definition kMaxSendBytes :: nat where
  "kMaxSendBytes = 0x7ffff000"

text \<open>\<open>sendNodeInLoop\<close> for a file node: sendfile(2).\<close>

definition sendFileNode :: "'w env \<Rightarrow> nat \<Rightarrow> 'w conn \<Rightarrow> (int \<times> 'w conn) res" where
  "sendFileNode e i c =
     (let nd = tc_nodes c i; toSend = node_remainingBytes nd in
      if toSend \<le> 0 then Inr (-1, c)
      else bind_res (node_getFd nd)
        (\<lambda>fd. let count = (if toSend < int kMaxSendBytes then nat toSend else kMaxSendBytes);
                  (r, w) = os_sendfile (env_os e) (tc_fd c) fd count (tc_world c);
                  bytesSent = (case r of IoCount n \<Rightarrow> int n | IoError err \<Rightarrow> -1);
                  c = c\<lparr>tc_world := w,
                        tc_errno := (case r of IoCount n \<Rightarrow> tc_errno c | IoError err \<Rightarrow> err)\<rparr>
              in
              if \<not> 0 < bytesSent \<and> \<not> isEAGAIN (tc_errno c) then Inr (-1, c)
              else bind_res
                (if 0 < bytesSent
                 then bind_res (node_retrieve nd (nat bytesSent))
                   (\<lambda>nd. Inr (log_eff (EffSendfile fd (nat bytesSent)) ((set_node i nd c)
                           \<lparr>tc_bytesSent := sz_add (tc_bytesSent c) (nat bytesSent)\<rparr>)))
                 else Inr c)
                (\<lambda>c. let c = extendLife e c;
                         c = (if bytesSent < toSend \<and> \<not> isWriting (tc_chan c)
                              then upd_chan enableWriting c else c)
                     in Inr (bytesSent, c))))"

text \<open>
  The loop of \<open>sendNodeInLoop\<close> for the other nodes. A stream callback may supply data for
  ever; the first argument bounds the iterations.
\<close>

fun sendNode_loop :: "nat \<Rightarrow> 'w env \<Rightarrow> nat \<Rightarrow> int \<Rightarrow> 'w conn \<Rightarrow> (int \<times> 'w conn) res" where
  "sendNode_loop 0 e i hasSent c = Inl OutOfFuel"
| "sendNode_loop (Suc k) e i hasSent c =
     (if node_remainingBytes (tc_nodes c i) \<le> 0 then Inr (hasSent, c)
      else bind_res (node_getData (env_os e) (tc_nodes c i) (tc_world c))
        (\<lambda>(data, nd, w).
           let c = (set_node i nd c)\<lparr>tc_world := w\<rparr> in
           if data = [] then Inr (hasSent, set_node i (node_done nd) c)
           else
             (let (nWritten, c) = writeInLoop e data c in
              if 0 \<le> nWritten then
                bind_res (node_retrieve (tc_nodes c i) (nat nWritten))
                  (\<lambda>nd. let c = set_node i nd c in
                     if nat nWritten < length data then Inr (hasSent + nWritten, c)
                     else sendNode_loop k e i (hasSent + nWritten) c)
              else Inr (-1, c))))"

definition sendNodeInLoop :: "nat \<Rightarrow> 'w env \<Rightarrow> nat \<Rightarrow> 'w conn \<Rightarrow> (int \<times> 'w conn) res" where
  "sendNodeInLoop k e i c =
     (if node_isFile (tc_nodes c i) then sendFileNode e i c else sendNode_loop k e i 0 c)"

section \<open>Closing\<close>

definition handleClose :: "'w conn \<Rightarrow> 'w conn" where
  "handleClose c =
     (let c = c\<lparr>tc_status := Disconnected, tc_chan := disableAll (tc_chan c)\<rparr>;
          c = (if tc_connectionCb c then log_eff (EffConnectionCb (tc_status c)) c else c)
      in if tc_closeCb c then log_eff EffCloseCb c else c)"

text \<open>
  \<open>shutdown\<close> in the loop thread. While data is waiting, the code evaluates
  \<open>closeOnEmpty_ - true\<close> and drops the result.
\<close>

definition shutdownInLoop :: "'w conn \<Rightarrow> 'w conn" where
  "shutdownInLoop c =
     (if tc_status c = Connected then
        (if tc_writeList c \<noteq> [] then c
         else
           (let c = c\<lparr>tc_status := Disconnecting\<rparr> in
            if \<not> isWriting (tc_chan c) then log_eff EffShutdownWrite c else c))
      else c)"

definition forceCloseInLoop :: "'w conn \<Rightarrow> 'w conn" where
  "forceCloseInLoop c =
     (if tc_status c = Connected \<or> tc_status c = Disconnecting
      then handleClose (c\<lparr>tc_status := Disconnecting\<rparr>) else c)"

definition connectEstablishedInLoop :: "'w conn \<Rightarrow> 'w conn res" where
  "connectEstablishedInLoop c =
     assert_then (tc_status c = Connecting)
       (let c = upd_chan enableReading (c\<lparr>tc_chan := tie (tc_chan c)\<rparr>);
            c = c\<lparr>tc_status := Connected\<rparr>
        in Inr (if tc_connectionCb c then log_eff (EffConnectionCb (tc_status c)) c else c))"

text \<open>
  \<open>connectDestroyed\<close> calls \<open>connectionCallback_\<close> without testing that one is set: an empty
  \<open>std::function\<close> throws. \<open>Channel::remove\<close> asserts that no event is enabled.
\<close>

definition connectDestroyed :: "'w conn \<Rightarrow> 'w conn res" where
  "connectDestroyed c =
     bind_res
       (if tc_status c = Connected then
          (let c = c\<lparr>tc_status := Disconnected, tc_chan := disableAll (tc_chan c)\<rparr> in
           if tc_connectionCb c then Inr (log_eff (EffConnectionCb (tc_status c)) c)
           else Inl RuntimeError)
        else Inr c)
       (\<lambda>c. assert_then (isNoneEvent (tc_chan c)) (Inr (log_eff EffRemove c)))"

section \<open>Events\<close>

definition readCallback :: "'w env \<Rightarrow> readv_result \<Rightarrow> 'w conn \<Rightarrow> 'w conn res" where
  "readCallback e r c =
     bind_res (readFd r 0 (tc_readBuffer c))
       (\<lambda>(n, ret, b).
          let c = c\<lparr>tc_readBuffer := b,
                    tc_errno := (case r of ReadvError err \<Rightarrow> err | ReadvBytes bs \<Rightarrow> tc_errno c)\<rparr>
          in
          if n < 0 then
            (if tc_errno c = EPIPE \<or> tc_errno c = ECONNRESET then Inr c
             else if tc_errno c = EAGAIN then Inr c
             else Inr (handleClose c))
          else
            (let c = extendLife e (if n = 0 then handleClose c else c) in
             if 0 < n then
               (let c = c\<lparr>tc_bytesReceived := sz_add (tc_bytesReceived c) (nat n)\<rparr> in
                if tc_recvCb c then
                  (let (b, w) = env_recv e (tc_readBuffer c) (tc_world c) in
                   Inr (log_eff (EffRecvCb (mb_content (tc_readBuffer c)))
                          (c\<lparr>tc_readBuffer := b, tc_world := w\<rparr>)))
                else Inr c)
             else Inr c))"

text \<open>
  The loop of \<open>writeCallback\<close>; the result says whether the list was emptied (the code then goes
  on after the loop) or the function returned inside it. The fuel bounds the iterations and is
  passed on to \<open>sendNodeInLoop\<close>.
\<close>

fun flush_loop :: "nat \<Rightarrow> 'w env \<Rightarrow> 'w conn \<Rightarrow> (bool \<times> 'w conn) res" where
  "flush_loop 0 e c = Inl OutOfFuel"
| "flush_loop (Suc k) e c =
     (case tc_writeList c of
        [] \<Rightarrow> Inr (True, c)
      | i # rest \<Rightarrow>
          if node_remainingBytes (tc_nodes c i) = 0 then
            (if \<not> node_isAsync (tc_nodes c i) \<or> \<not> node_available (tc_nodes c i)
             then flush_loop k e (c\<lparr>tc_writeList := rest\<rparr>)
             else Inr (False, upd_chan disableWriting c))
          else bind_res (sendNodeInLoop k e i c)
            (\<lambda>(n, c). if 0 < node_remainingBytes (tc_nodes c i) \<or> n < 0 then Inr (False, c)
                      else flush_loop k e c))"

definition writeCallback :: "nat \<Rightarrow> 'w env \<Rightarrow> 'w conn \<Rightarrow> 'w conn res" where
  "writeCallback k e c =
     (if isWriting (tc_chan c) then
        bind_res (flush_loop k e c)
          (\<lambda>(emptied, c).
             if emptied then
               assert_then (tc_writeList c = [])
                 (let c = upd_chan disableWriting c in
                  Inr (if tc_closeOnEmpty c then shutdownInLoop c else c))
             else Inr c)
      else Inr c)"

section \<open>Files, streams and asynchronous streams\<close>

text \<open>The closure that \<open>sendFile\<close> and \<open>sendStream\<close> queue, and \<open>sendFile\<close> runs in the loop.\<close>

definition sendNodeOrQueue :: "nat \<Rightarrow> 'w env \<Rightarrow> nat \<Rightarrow> 'w conn \<Rightarrow> 'w conn res" where
  "sendNodeOrQueue k e i c =
     (if tc_writeList c = [] then
        bind_res (sendNodeInLoop k e i c)
          (\<lambda>(n, c). Inr (if 0 < node_remainingBytes (tc_nodes c i) \<and> 0 \<le> n then push_node i c else c))
      else Inr (push_node i c))"

definition queue_task :: "conn_task \<Rightarrow> 'w conn \<Rightarrow> 'w conn" where
  "queue_task t c = c\<lparr>tc_tasks := tc_tasks c @ [t]\<rparr>"

definition sendFile :: "nat \<Rightarrow> 'w env \<Rightarrow> bool \<Rightarrow> int \<Rightarrow> int option \<Rightarrow> int \<Rightarrow> int \<Rightarrow> 'w conn \<Rightarrow>
    'w conn res" where
  "sendFile k e inLoop fd st_size offset len c =
     bind_res (newFileBufferNode fd st_size offset len)
       (\<lambda>nd. if \<not> node_available nd then Inr c
             else assert_then (node_isFile nd \<and> 0 < node_remainingBytes nd)
               (let (i, c) = new_node nd c in
                if inLoop then sendNodeOrQueue k e i c else Inr (queue_task (TaskSendNode i) c)))"

text \<open>In the loop thread \<open>sendStream\<close> has no branch for a non-empty list.\<close>

definition sendStream :: "nat \<Rightarrow> 'w env \<Rightarrow> bool \<Rightarrow> nat \<Rightarrow> 'w conn \<Rightarrow> 'w conn res" where
  "sendStream k e inLoop cb c =
     bind_res (newStreamBufferNode cb)
       (\<lambda>nd. let (i, c) = new_node nd c in
             if inLoop then
               (if tc_writeList c = [] then sendNodeOrQueue k e i c else Inr c)
             else Inr (queue_task (TaskSendNode i) c))"

definition disable_kickoff :: "'w env \<Rightarrow> 'w conn \<Rightarrow> 'w conn" where
  "disable_kickoff e c =
     (let c = (case tc_kickoffEntry c of
                 None \<Rightarrow> c
               | Some k \<Rightarrow> if env_alive e k (tc_world c)
                           then (reset_entry e c)\<lparr>tc_kickoffEntry := None\<rparr> else c)
      in c\<lparr>tc_idleTimeoutBackup := tc_idleTimeout c, tc_idleTimeout := 0\<rparr>)"

definition asyncOpenInLoop :: "nat \<Rightarrow> 'w env \<Rightarrow> nat \<Rightarrow> bool \<Rightarrow> 'w conn \<Rightarrow> 'w conn res" where
  "asyncOpenInLoop k e i disableKickoff c =
     (let c = (if disableKickoff then disable_kickoff e c else c) in
      if tc_writeList c = [] \<and> 0 < node_remainingBytes (tc_nodes c i) then
        bind_res (sendNodeInLoop k e i c)
          (\<lambda>(n, c). Inr (if 0 \<le> n \<and> (0 < node_remainingBytes (tc_nodes c i) \<or>
                                      node_available (tc_nodes c i))
                         then push_node i c else c))
      else Inr (push_node i c))"

definition sendAsyncStream :: "'w env \<Rightarrow> bool \<Rightarrow> bool \<Rightarrow> 'w conn \<Rightarrow> nat \<times> 'w conn" where
  "sendAsyncStream e inLoop disableKickoff c =
     (let (i, c) = new_node newAsyncStreamBufferNode c in
      (i, if inLoop then push_node i (if disableKickoff then disable_kickoff e c else c)
          else queue_task (TaskAsyncOpen i disableKickoff) c))"

definition sendAsyncDataInLoop :: "'w env \<Rightarrow> nat \<Rightarrow> byte list option \<Rightarrow> 'w conn \<Rightarrow> 'w conn res" where
  "sendAsyncDataInLoop e i data c =
     (let front = (tc_writeList c \<noteq> [] \<and> hd (tc_writeList c) = i) in
      case data of
        Some bs \<Rightarrow>
          if 0 < length bs then
            (if front \<and> node_remainingBytes (tc_nodes c i) = 0 then
               (let (nWritten, c) = writeInLoop e bs c in
                if nWritten < 0 then Inr c
                else if nat nWritten < length bs then
                  bind_res (node_append (tc_nodes c i) (drop (nat nWritten) bs))
                    (\<lambda>nd. Inr (set_node i nd c))
                else Inr c)
             else bind_res (node_append (tc_nodes c i) bs) (\<lambda>nd. Inr (set_node i nd c)))
          else Inr c
      | None \<Rightarrow>
          (let c = set_node i (node_done (tc_nodes c i)) c;
               c = (if front \<and> \<not> isWriting (tc_chan c) then upd_chan enableWriting c else c)
           in Inr (if 0 < tc_idleTimeoutBackup c \<and> env_wheel e (tc_world c)
                   then log_eff (EffWheelInsert (tc_idleTimeoutBackup c) (tc_nextEntry c))
                          ((new_entry c)\<lparr>tc_idleTimeout := tc_idleTimeoutBackup c,
                                         tc_idleTimeoutBackup := 0\<rparr>)
                   else c)))"

text \<open>
  The closure behind \<open>AsyncStream::send\<close> and \<open>close\<close> (\<open>None\<close>); the result says whether
  the data was taken.
\<close>

definition asyncStream_send :: "'w env \<Rightarrow> bool \<Rightarrow> nat \<Rightarrow> byte list option \<Rightarrow> 'w conn \<Rightarrow>
    (bool \<times> 'w conn) res" where
  "asyncStream_send e inLoop i data c =
     (if tc_status c \<noteq> Connected then Inr (False, c)
      else if inLoop then bind_res (sendAsyncDataInLoop e i data c) (\<lambda>c. Inr (True, c))
      else Inr (True, queue_task (TaskAsyncData i data) c))"

section \<open>The public operations and the queued closures\<close>

definition TcpConnection_send :: "'w env \<Rightarrow> bool \<Rightarrow> byte list \<Rightarrow> 'w conn \<Rightarrow> 'w conn res" where
  "TcpConnection_send e inLoop msg c =
     (if inLoop then sendInLoop e msg c else Inr (queue_task (TaskSend msg) c))"

definition TcpConnection_shutdown :: "bool \<Rightarrow> 'w conn \<Rightarrow> 'w conn" where
  "TcpConnection_shutdown inLoop c =
     (if inLoop then shutdownInLoop c else queue_task TaskShutdown c)"

definition TcpConnection_forceClose :: "bool \<Rightarrow> 'w conn \<Rightarrow> 'w conn" where
  "TcpConnection_forceClose inLoop c =
     (if inLoop then forceCloseInLoop c else queue_task TaskForceClose c)"

definition connectEstablished :: "bool \<Rightarrow> 'w conn \<Rightarrow> 'w conn res" where
  "connectEstablished inLoop c =
     (if inLoop then connectEstablishedInLoop c else Inr (queue_task TaskEstablish c))"

fun run_task :: "nat \<Rightarrow> 'w env \<Rightarrow> conn_task \<Rightarrow> 'w conn \<Rightarrow> 'w conn res" where
  "run_task k e (TaskSend bs) c = sendInLoop e bs c"
| "run_task k e (TaskSendNode i) c = sendNodeOrQueue k e i c"
| "run_task k e (TaskAsyncOpen i dis) c = asyncOpenInLoop k e i dis c"
| "run_task k e (TaskAsyncData i data) c = sendAsyncDataInLoop e i data c"
| "run_task k e TaskShutdown c = Inr (shutdownInLoop c)"
| "run_task k e TaskForceClose c = Inr (forceCloseInLoop c)"
| "run_task k e TaskEstablish c = connectEstablishedInLoop c"

fun run_tasks :: "nat \<Rightarrow> 'w env \<Rightarrow> conn_task list \<Rightarrow> 'w conn \<Rightarrow> 'w conn res" where
  "run_tasks k e [] c = Inr c"
| "run_tasks k e (t # ts) c = bind_res (run_task k e t c) (run_tasks k e ts)"

section \<open>Dispatch of an event\<close>

text \<open>
  The channel of a connection runs these functions; \<open>handleError\<close> reads and logs the socket's
  error, and no event callback is installed. One \<open>readv\<close> outcome is enough, since the read
  callback runs at most once per event.
\<close>

fun run_callback :: "nat \<Rightarrow> 'w env \<Rightarrow> readv_result \<Rightarrow> callback \<Rightarrow> 'w conn \<Rightarrow> 'w conn res" where
  "run_callback k e r ReadCb c = readCallback e r c"
| "run_callback k e r WriteCb c = writeCallback k e c"
| "run_callback k e r CloseCb c = Inr (handleClose c)"
| "run_callback k e r ErrorCb c = Inr c"
| "run_callback k e r EventCb c = Inr c"

fun run_callbacks :: "nat \<Rightarrow> 'w env \<Rightarrow> readv_result \<Rightarrow> callback list \<Rightarrow> 'w conn \<Rightarrow> 'w conn res" where
  "run_callbacks k e r [] c = Inr c"
| "run_callbacks k e r (cb # cbs) c = bind_res (run_callback k e r cb c) (run_callbacks k e r cbs)"

definition conn_handleEvent :: "nat \<Rightarrow> 'w env \<Rightarrow> bool \<Rightarrow> 32 word \<Rightarrow> readv_result \<Rightarrow> 'w conn \<Rightarrow>
    'w conn res" where
  "conn_handleEvent k e alive revents r c =
     (let c = c\<lparr>tc_chan := setRevents revents (tc_chan c)\<rparr>
      in run_callbacks k e r (handleEvent alive (tc_chan c)) c)"

section \<open>TLS\<close>

text \<open>Both factories of this build throw, so \<open>startEncryption\<close> throws and changes nothing.\<close>

definition newSSLContext :: "unit res" where
  "newSSLContext = Inl RuntimeError"

definition newTLSProvider :: "unit res" where
  "newTLSProvider = Inl RuntimeError"

definition startEncryption :: "'w conn \<Rightarrow> 'w conn res" where
  "startEncryption c = bind_res newSSLContext (\<lambda>_. bind_res newTLSProvider (\<lambda>_. Inr c))"

end
