(* ===== verification/TcpConnectionProps.thy ===== *)
theory TcpConnectionProps
  imports TcpConnection
begin

text \<open>
  What the connection promises: the bytes handed to the kernel followed by the bytes waiting in
  the write list are the bytes accepted by \<open>send\<close>, in order, through any sequence of sends and
  write events; the status machine; and the places where the code loses data or a shutdown.
\<close>

section \<open>The stream of a connection\<close>

fun written :: "effect list \<Rightarrow> byte list" where
  "written [] = []"
| "written (EffWrite bs # es) = bs @ written es"
| "written (_ # es) = written es"

lemma written_append [simp]: "written (xs @ ys) = written xs @ written ys"
  by (induction xs rule: written.induct) auto

definition wire :: "'w conn \<Rightarrow> byte list" where
  "wire c = written (tc_log c)"

definition pending :: "'w conn \<Rightarrow> byte list" where
  "pending c = concat (map (\<lambda>i. node_bytes (tc_nodes c i)) (tc_writeList c))"

text \<open>The invariant of a connection whose write list holds memory nodes.\<close>

definition conn_inv :: "'w conn \<Rightarrow> bool" where
  "conn_inv c \<longleftrightarrow> (\<forall>i\<in>set (tc_writeList c). is_mem (tc_nodes c i) \<and> i < tc_next c) \<and>
     distinct (tc_writeList c)"

text \<open>The contract of write(2): it accepts a prefix, or fails.\<close>

definition write_ok :: "'w env \<Rightarrow> bool" where
  "write_ok e \<longleftrightarrow> (\<forall>fd data w n. fst (os_write (env_os e) fd data w) = IoCount n \<longrightarrow> n \<le> length data)"

definition same_queue :: "'w conn \<Rightarrow> 'w conn \<Rightarrow> bool" where
  "same_queue c c' \<longleftrightarrow> tc_nodes c' = tc_nodes c \<and> tc_writeList c' = tc_writeList c \<and>
     tc_next c' = tc_next c \<and> tc_status c' = tc_status c \<and>
     isWriting (tc_chan c') = isWriting (tc_chan c) \<and> tc_tasks c' = tc_tasks c \<and>
     tc_closeOnEmpty c' = tc_closeOnEmpty c"

lemma log_eff_fields [simp]:
  "tc_nodes (log_eff x c) = tc_nodes c" "tc_writeList (log_eff x c) = tc_writeList c"
  "tc_next (log_eff x c) = tc_next c" "tc_status (log_eff x c) = tc_status c"
  "tc_chan (log_eff x c) = tc_chan c" "tc_tasks (log_eff x c) = tc_tasks c"
  "tc_closeOnEmpty (log_eff x c) = tc_closeOnEmpty c" "tc_log (log_eff x c) = tc_log c @ [x]"
  "tc_world (log_eff x c) = tc_world c" "tc_bytesSent (log_eff x c) = tc_bytesSent c"
  "tc_closeCb (log_eff x c) = tc_closeCb c" "tc_connectionCb (log_eff x c) = tc_connectionCb c"
  by (simp_all add: log_eff_def)

lemma extendLife_fields [simp]:
  "tc_nodes (extendLife e c) = tc_nodes c" "tc_writeList (extendLife e c) = tc_writeList c"
  "tc_next (extendLife e c) = tc_next c" "tc_status (extendLife e c) = tc_status c"
  "tc_chan (extendLife e c) = tc_chan c" "tc_tasks (extendLife e c) = tc_tasks c"
  "tc_closeOnEmpty (extendLife e c) = tc_closeOnEmpty c"
  "written (tc_log (extendLife e c)) = written (tc_log c)"
  "tc_world (extendLife e c) = tc_world c" "tc_bytesSent (extendLife e c) = tc_bytesSent c"
  by (simp_all add: extendLife_def Let_def split: option.split)

lemma upd_chan_fields [simp]:
  "tc_nodes (upd_chan f c) = tc_nodes c" "tc_writeList (upd_chan f c) = tc_writeList c"
  "tc_next (upd_chan f c) = tc_next c" "tc_status (upd_chan f c) = tc_status c"
  "tc_chan (upd_chan f c) = f (tc_chan c)" "tc_tasks (upd_chan f c) = tc_tasks c"
  "tc_closeOnEmpty (upd_chan f c) = tc_closeOnEmpty c"
  "written (tc_log (upd_chan f c)) = written (tc_log c)"
  "tc_world (upd_chan f c) = tc_world c" "tc_bytesSent (upd_chan f c) = tc_bytesSent c"
  by (simp_all add: upd_chan_def)

lemma set_node_fields [simp]:
  "tc_nodes (set_node i nd c) = (tc_nodes c)(i := nd)"
  "tc_writeList (set_node i nd c) = tc_writeList c" "tc_next (set_node i nd c) = tc_next c"
  "tc_status (set_node i nd c) = tc_status c" "tc_chan (set_node i nd c) = tc_chan c"
  "tc_tasks (set_node i nd c) = tc_tasks c" "tc_closeOnEmpty (set_node i nd c) = tc_closeOnEmpty c"
  "tc_log (set_node i nd c) = tc_log c" "tc_world (set_node i nd c) = tc_world c"
  "tc_bytesSent (set_node i nd c) = tc_bytesSent c"
  by (simp_all add: set_node_def)

lemma highWater_fields [simp]:
  "tc_nodes (highWater i c) = tc_nodes c" "tc_writeList (highWater i c) = tc_writeList c"
  "tc_next (highWater i c) = tc_next c" "tc_status (highWater i c) = tc_status c"
  "tc_chan (highWater i c) = tc_chan c" "tc_tasks (highWater i c) = tc_tasks c"
  "tc_closeOnEmpty (highWater i c) = tc_closeOnEmpty c"
  "written (tc_log (highWater i c)) = written (tc_log c)"
  by (simp_all add: highWater_def Let_def)

lemma to_int32_exact: "0 \<le> n \<Longrightarrow> n < 2147483648 \<Longrightarrow> to_int32 n = n"
  by (simp add: to_int32_def)

text \<open>\<open>writeRaw\<close> never reports an error: the count is between 0 and the length.\<close>

lemma writeRaw_result:
  assumes ok: "write_ok e" and len: "length data < 2147483648"
  obtains n c' where "writeRaw e data c = (int n, c')" "n \<le> length data"
    "wire c' = wire c @ take n data" "same_queue c c'"
    "n > 0 \<Longrightarrow> fst (os_write (env_os e) (tc_fd c) data (tc_world c)) = IoCount n"
proof -
  obtain r w where r: "os_write (env_os e) (tc_fd c) data (tc_world c) = (r, w)" by fastforce
  show thesis
  proof (cases r)
    case (IoError err)
    show thesis
      by (rule that [of 0 "snd (writeRaw e data c)"])
         (auto simp: writeRaw_def r IoError wire_def same_queue_def Let_def)
  next
    case (IoCount n)
    have n: "n \<le> length data" using ok r IoCount unfolding write_ok_def by (metis fst_conv)
    then have "to_int32 (int n) = int n" using len by (simp add: to_int32_exact)
    then show thesis using n
      by (intro that [of n "snd (writeRaw e data c)"])
         (auto simp: writeRaw_def r IoCount wire_def same_queue_def Let_def)
  qed
qed

text \<open>The second half of \<open>sendInLoop\<close>: what was not written goes to the last memory node.\<close>

definition enqueue_rest :: "byte list \<Rightarrow> 'w conn \<Rightarrow> 'w conn res" where
  "enqueue_rest rest c =
     bind_res
       (if tc_writeList c = [] \<or> node_isFile (tc_nodes c (last (tc_writeList c))) \<or>
           node_isStream (tc_nodes c (last (tc_writeList c)))
        then bind_res newMemBufferNode (\<lambda>nd. let (i, c) = new_node nd c in Inr (push_node i c))
        else Inr c)
       (\<lambda>c. let i = last (tc_writeList c) in
            bind_res (node_append (tc_nodes c i) rest)
              (\<lambda>nd. Inr (highWater i (set_node i nd c))))"

lemma sendInLoop_alt:
  "sendInLoop e data c =
     (if tc_status c \<noteq> Connected then Inr c
      else
        (let (sendLen, c) =
               (if \<not> isWriting (tc_chan c) \<and> tc_writeList c = [] then writeInLoop e data c else (0, c))
         in if sendLen < 0 then Inr c
            else if 0 < length (drop (nat sendLen) data) \<and> tc_status c = Connected
                 then enqueue_rest (drop (nat sendLen) data) c else Inr c))"
  by (simp only: sendInLoop_def enqueue_rest_def Let_def)

lemma enqueue_last:
  assumes inv: "conn_inv c" and ne: "tc_writeList c = ys @ [i]" and len: "length rest \<le> alloc_max"
  shows "enqueue_rest rest c = Inl AllocError \<or>
    (\<exists>c'. enqueue_rest rest c = Inr c' \<and> conn_inv c' \<and> wire c' = wire c \<and>
       pending c' = pending c @ rest \<and> tc_writeList c' = tc_writeList c \<and> tc_status c' = tc_status c \<and>
       tc_chan c' = tc_chan c)"
proof -
  have mem: "is_mem (tc_nodes c i)" and new: "i \<notin> set ys"
    using inv ne by (auto simp: conn_inv_def)
  have others: "concat (map (\<lambda>j. node_bytes (if j = i then nd else tc_nodes c j)) ys) =
      concat (map (\<lambda>j. node_bytes (tc_nodes c j)) ys)" for nd
    using new by (intro arg_cong [where f = concat] map_cong) auto
  from mem_append [OF mem len] show ?thesis
  proof
    assume "node_append (tc_nodes c i) rest = Inl AllocError"
    then show ?thesis using ne mem by (simp add: enqueue_rest_def)
  next
    assume "\<exists>nd'. node_append (tc_nodes c i) rest = Inr nd' \<and> is_mem nd' \<and>
        node_bytes nd' = node_bytes (tc_nodes c i) @ rest"
    then obtain nd where nd: "node_append (tc_nodes c i) rest = Inr nd" "is_mem nd"
      "node_bytes nd = node_bytes (tc_nodes c i) @ rest" by blast
    then have "enqueue_rest rest c = Inr (highWater i (set_node i nd c))"
      using ne mem by (simp add: enqueue_rest_def Let_def)
    moreover have "conn_inv (highWater i (set_node i nd c))"
      using inv nd by (simp add: conn_inv_def)
    moreover have "pending (highWater i (set_node i nd c)) = pending c @ rest"
      using ne nd others by (simp add: pending_def)
    ultimately show ?thesis using ne by (auto simp: wire_def)
  qed
qed

lemma enqueue_rest_result:
  assumes inv: "conn_inv c" and len: "length rest \<le> alloc_max"
  shows "enqueue_rest rest c = Inl AllocError \<or>
    (\<exists>c'. enqueue_rest rest c = Inr c' \<and> conn_inv c' \<and> wire c' = wire c \<and>
       pending c' = pending c @ rest \<and> tc_writeList c' \<noteq> [] \<and>
       length (tc_writeList c') \<le> max 1 (length (tc_writeList c)) \<and> tc_status c' = tc_status c \<and>
       tc_chan c' = tc_chan c)"
proof (cases "tc_writeList c" rule: rev_cases)
  case (snoc ys i)
  from enqueue_last [OF inv snoc len] snoc show ?thesis by auto
next
  case Nil
  obtain nd where nd: "newMemBufferNode = Inr nd" "is_mem nd" "node_bytes nd = []"
    using newMemBufferNode_ok by blast
  let ?c = "push_node (tc_next c) ((set_node (tc_next c) nd c)\<lparr>tc_next := Suc (tc_next c)\<rparr>)"
  have list: "tc_writeList ?c = [] @ [tc_next c]"
    and node: "tc_nodes ?c (tc_next c) = nd"
    and same: "wire ?c = wire c" "pending ?c = pending c" "tc_status ?c = tc_status c"
      "tc_chan ?c = tc_chan c"
    using Nil nd by (simp_all add: push_node_def wire_def pending_def)
  have inv': "conn_inv ?c" using Nil nd by (simp add: conn_inv_def push_node_def)
  have "enqueue_rest rest c = enqueue_rest rest ?c"
    using Nil list node nd(2,3) by (simp add: enqueue_rest_def new_node_def nd(1) Let_def)
  with enqueue_last [OF inv' list len] same list show ?thesis by auto
qed

lemma sendInLoop_stream:
  assumes inv: "conn_inv c" and ok: "write_ok e" and len: "length data < 2147483648"
    and conn: "tc_status c = Connected"
  shows "sendInLoop e data c = Inl AllocError \<or>
    (\<exists>c'. sendInLoop e data c = Inr c' \<and> conn_inv c' \<and>
       wire c' @ pending c' = wire c @ pending c @ data \<and> tc_status c' = Connected \<and>
       isWriting (tc_chan c') = isWriting (tc_chan c) \<and> length (wire c) \<le> length (wire c') \<and>
       length (tc_writeList c') \<le> max 1 (length (tc_writeList c)) \<and>
       (tc_writeList c \<noteq> [] \<longrightarrow> wire c' = wire c \<and> tc_writeList c' \<noteq> []))"
proof (cases "\<not> isWriting (tc_chan c) \<and> tc_writeList c = []")
  case True
  obtain n c1 where w: "writeRaw e data c = (int n, c1)" "n \<le> length data"
    "wire c1 = wire c @ take n data" "same_queue c c1"
    using writeRaw_result [OF ok len, of c] by metis
  have c1: "conn_inv c1" "pending c1 = []" "pending c = []" "tc_status c1 = Connected"
    "isWriting (tc_chan c1) = isWriting (tc_chan c)" "tc_writeList c1 = []"
    using w(4) True conn by (auto simp: same_queue_def conn_inv_def pending_def)
  have eq: "sendInLoop e data c = (if n < length data then enqueue_rest (drop n data) c1 else Inr c1)"
    using True conn w c1 by (simp add: sendInLoop_alt writeInLoop_def)
  show ?thesis
  proof (cases "n < length data")
    case False
    then show ?thesis using eq w c1 True by auto
  next
    case True': True
    have "length (drop n data) \<le> alloc_max" using len by simp
    from enqueue_rest_result [OF c1(1) this] eq w c1 True True' show ?thesis by auto
  qed
next
  case False
  then have eq: "sendInLoop e data c = (if 0 < length data then enqueue_rest data c else Inr c)"
    using conn by (auto simp: sendInLoop_alt)
  have "length data \<le> alloc_max" using len by simp
  from enqueue_rest_result [OF inv this] eq inv conn show ?thesis
    by (cases "data = []") auto
qed

section \<open>Flushing the write list\<close>

definition small_nodes :: "'w conn \<Rightarrow> bool" where
  "small_nodes c \<longleftrightarrow> (\<forall>i\<in>set (tc_writeList c). length (node_bytes (tc_nodes c i)) < 2147483648)"

text \<open>One memory node: one write, and the bytes written leave the node.\<close>

lemma sendNode_mem:
  assumes mem: "is_mem (tc_nodes c i)" and ok: "write_ok e"
    and len: "length (node_bytes (tc_nodes c i)) < 2147483648"
  shows "\<exists>n c' nd. sendNodeInLoop (Suc (Suc k)) e i c = Inr (int n, c') \<and>
    n \<le> length (node_bytes (tc_nodes c i)) \<and> is_mem nd \<and> tc_nodes c' = (tc_nodes c)(i := nd) \<and>
    node_bytes nd = drop n (node_bytes (tc_nodes c i)) \<and>
    wire c' = wire c @ take n (node_bytes (tc_nodes c i)) \<and>
    tc_writeList c' = tc_writeList c \<and> tc_next c' = tc_next c \<and> tc_status c' = tc_status c \<and>
    isWriting (tc_chan c') = isWriting (tc_chan c) \<and> tc_closeOnEmpty c' = tc_closeOnEmpty c"
proof (cases "node_bytes (tc_nodes c i) = []")
  case True
  then have "sendNodeInLoop (Suc (Suc k)) e i c = Inr (int 0, c)"
    using mem by (simp add: sendNodeInLoop_def mem_remaining)
  then show ?thesis using True mem
    by (intro exI [of _ 0] exI [of _ c] exI [of _ "tc_nodes c i"]) simp
next
  case False
  let ?nd = "tc_nodes c i" and ?data = "node_bytes (tc_nodes c i)"
  have same0: "(set_node i ?nd c)\<lparr>tc_world := tc_world c\<rparr> = c"
    by (simp add: set_node_def)
  obtain n c1 where w: "writeRaw e ?data c = (int n, c1)" "n \<le> length ?data"
    "wire c1 = wire c @ take n ?data" "same_queue c c1"
    using writeRaw_result [OF ok len, of c] by metis
  have node1: "tc_nodes c1 i = ?nd" using w(4) by (simp add: same_queue_def)
  obtain nd where nd: "node_retrieve ?nd n = Inr nd" "is_mem nd" "node_bytes nd = drop n ?data"
    using mem_retrieve [OF mem, of n] by blast
  let ?c2 = "set_node i nd c1"
  have step: "sendNodeInLoop (Suc (Suc k)) e i c = Inr (int n, ?c2)"
  proof (cases "n < length ?data")
    case True
    then show ?thesis
      using mem False w nd node1 same0
      by (simp add: sendNodeInLoop_def mem_remaining mem_getData writeInLoop_def)
  next
    case full: False
    then have "node_bytes nd = []" using w(2) nd by simp
    then show ?thesis
      using mem False w nd node1 same0 full
      by (simp add: sendNodeInLoop_def mem_remaining mem_getData writeInLoop_def)
  qed
  show ?thesis using step nd w
    by (intro exI [of _ n] exI [of _ ?c2] exI [of _ nd]) (simp add: same_queue_def wire_def)
qed

lemma flush_stream:
  assumes "conn_inv c" "write_ok e" "small_nodes c" "2 * length (tc_writeList c) + 3 \<le> k"
  shows "\<exists>b c'. flush_loop k e c = Inr (b, c') \<and> conn_inv c' \<and> small_nodes c' \<and>
    wire c' @ pending c' = wire c @ pending c \<and> (b \<longrightarrow> tc_writeList c' = []) \<and>
    tc_status c' = tc_status c \<and> isWriting (tc_chan c') = isWriting (tc_chan c) \<and>
    tc_closeOnEmpty c' = tc_closeOnEmpty c \<and> length (tc_writeList c') \<le> length (tc_writeList c) \<and>
    length (wire c) \<le> length (wire c')"
  using assms
proof (induction "length (tc_writeList c)" arbitrary: c k rule: less_induct)
  case less
  define k' where "k' = k - 3"
  then have k: "k = Suc (Suc (Suc k'))" using less.prems(4) by simp
  show ?case
  proof (cases "tc_writeList c")
    case Nil
    then show ?thesis using k less.prems by auto
  next
    case (Cons i rest)
    let ?data = "node_bytes (tc_nodes c i)"
    have mem: "is_mem (tc_nodes c i)" and new: "i \<notin> set rest" "i < tc_next c"
      and len: "length ?data < 2147483648"
      using less.prems Cons by (auto simp: conn_inv_def small_nodes_def)
    text \<open>Dropping the front node once it is empty.\<close>
    have pop: "\<exists>b c'. flush_loop m e d = Inr (b, c') \<and> conn_inv c' \<and> small_nodes c' \<and>
        wire c' @ pending c' = wire d @ pending d \<and> (b \<longrightarrow> tc_writeList c' = []) \<and>
        tc_status c' = tc_status d \<and> isWriting (tc_chan c') = isWriting (tc_chan d) \<and>
        tc_closeOnEmpty c' = tc_closeOnEmpty d \<and> length (tc_writeList c') \<le> length rest \<and>
        length (wire d) \<le> length (wire c')"
      if d: "tc_writeList d = i # rest" "is_mem (tc_nodes d i)" "node_bytes (tc_nodes d i) = []"
        "conn_inv d" "small_nodes d" and m: "m = Suc m'" "2 * length rest + 3 \<le> m'" for d m m'
    proof -
      let ?d = "d\<lparr>tc_writeList := rest\<rparr>"
      have "flush_loop m e d = flush_loop m' e ?d"
        using d m by (simp add: mem_remaining)
      moreover have "conn_inv ?d" "small_nodes ?d" "wire ?d = wire d" "pending ?d = pending d"
        using d by (auto simp: conn_inv_def small_nodes_def wire_def pending_def)
      ultimately show ?thesis
        using less.hyps [of ?d m'] Cons m less.prems(2) by auto
    qed
    show ?thesis
    proof (cases "?data = []")
      case True
      show ?thesis
        using pop [OF Cons mem True less.prems(1,3) k] less.prems(4) Cons k by fastforce
    next
      case False
      obtain n c1 nd where s: "sendNodeInLoop (Suc (Suc k')) e i c = Inr (int n, c1)"
        "n \<le> length ?data" "is_mem nd" "tc_nodes c1 = (tc_nodes c)(i := nd)"
        "node_bytes nd = drop n ?data" "wire c1 = wire c @ take n ?data"
        "tc_writeList c1 = tc_writeList c" "tc_next c1 = tc_next c" "tc_status c1 = tc_status c"
        "isWriting (tc_chan c1) = isWriting (tc_chan c)" "tc_closeOnEmpty c1 = tc_closeOnEmpty c"
        using sendNode_mem [OF mem less.prems(2) len, of k'] by blast
      have rest_same: "concat (map (\<lambda>j. node_bytes (if j = i then nd else tc_nodes c j)) rest) =
          concat (map (\<lambda>j. node_bytes (tc_nodes c j)) rest)"
        using new by (intro arg_cong [where f = concat] map_cong) auto
      have stream: "wire c1 @ pending c1 = wire c @ pending c"
        using s Cons rest_same by (simp add: pending_def)
      have inv1: "conn_inv c1" "small_nodes c1"
        using less.prems(1,3) s Cons by (auto simp: conn_inv_def small_nodes_def)
      have eq: "flush_loop k e c = (if n < length ?data then Inr (False, c1)
          else flush_loop (Suc (Suc k')) e c1)"
        using Cons False mem s k by (simp add: mem_remaining)
      show ?thesis
      proof (cases "n < length ?data")
        case True
        with eq s stream inv1 show ?thesis by auto
      next
        case False
        then have "node_bytes (tc_nodes c1 i) = []" using s by simp
        from pop [OF _ _ this inv1 refl, of "Suc k'"] s Cons less.prems(4) k
        obtain b c' where r: "flush_loop (Suc (Suc k')) e c1 = Inr (b, c')" "conn_inv c'"
          "small_nodes c'" "wire c' @ pending c' = wire c1 @ pending c1"
          "b \<longrightarrow> tc_writeList c' = []" "tc_status c' = tc_status c1"
          "isWriting (tc_chan c') = isWriting (tc_chan c1)"
          "tc_closeOnEmpty c' = tc_closeOnEmpty c1" "length (tc_writeList c') \<le> length rest"
          "length (wire c1) \<le> length (wire c')"
          by auto
        then show ?thesis using eq False stream s Cons by auto
      qed
    qed
  qed
qed

lemma writeCallback_stream:
  assumes inv: "conn_inv c" and ok: "write_ok e" and small: "small_nodes c"
    and fuel: "2 * length (tc_writeList c) + 3 \<le> k" and open': "\<not> tc_closeOnEmpty c"
  shows "\<exists>c'. writeCallback k e c = Inr c' \<and> conn_inv c' \<and> small_nodes c' \<and>
    wire c' @ pending c' = wire c @ pending c \<and> tc_status c' = tc_status c \<and> \<not> tc_closeOnEmpty c' \<and>
    length (wire c) \<le> length (wire c') \<and>
    length (tc_writeList c') \<le> length (tc_writeList c) \<and> (\<not> isWriting (tc_chan c) \<longrightarrow> c' = c)"
proof (cases "isWriting (tc_chan c)")
  case False
  then show ?thesis using assms by (simp add: writeCallback_def)
next
  case True
  obtain b c1 where r: "flush_loop k e c = Inr (b, c1)" "conn_inv c1" "small_nodes c1"
    "wire c1 @ pending c1 = wire c @ pending c" "b \<longrightarrow> tc_writeList c1 = []"
    "tc_status c1 = tc_status c" "tc_closeOnEmpty c1 = tc_closeOnEmpty c"
    "length (tc_writeList c1) \<le> length (tc_writeList c)" "length (wire c) \<le> length (wire c1)"
    using flush_stream [OF inv ok small fuel] by blast
  let ?c2 = "upd_chan disableWriting c1"
  have "conn_inv ?c2" "small_nodes ?c2" "wire ?c2 = wire c1" "pending ?c2 = pending c1"
    using r by (simp_all add: conn_inv_def small_nodes_def wire_def pending_def)
  with r True open' show ?thesis by (auto simp: writeCallback_def)
qed

section \<open>Sequences of sends and write events\<close>

datatype conn_op = OpSend "byte list" | OpWritable

fun conn_run :: "nat \<Rightarrow> 'w env \<Rightarrow> conn_op list \<Rightarrow> 'w conn \<Rightarrow> 'w conn res" where
  "conn_run k e [] c = Inr c"
| "conn_run k e (OpSend bs # ops) c = bind_res (TcpConnection_send e True bs c) (conn_run k e ops)"
| "conn_run k e (OpWritable # ops) c = bind_res (writeCallback k e c) (conn_run k e ops)"

fun sent_bytes :: "conn_op list \<Rightarrow> byte list" where
  "sent_bytes [] = []"
| "sent_bytes (OpSend bs # ops) = bs @ sent_bytes ops"
| "sent_bytes (OpWritable # ops) = sent_bytes ops"

lemma small_of_pending:
  assumes "length (pending c) < 2147483648" shows "small_nodes c"
  unfolding small_nodes_def
proof
  fix i assume "i \<in> set (tc_writeList c)"
  then have "length (node_bytes (tc_nodes c i)) \<le> length (pending c)"
    unfolding pending_def by (induction "tc_writeList c" arbitrary: c)
      (auto simp: length_concat intro!: member_le_sum_list order_trans [OF member_le_sum_list])
  with assms show "length (node_bytes (tc_nodes c i)) < 2147483648" by simp
qed

lemma sendInLoop_closeOnEmpty:
  assumes "write_ok e" "length data < 2147483648" "sendInLoop e data c = Inr c'"
  shows "tc_closeOnEmpty c' = tc_closeOnEmpty c"
proof -
  obtain n c1 where w: "writeRaw e data c = (int n, c1)" "same_queue c c1"
    using writeRaw_result [OF assms(1,2), of c] by metis
  have "enqueue_rest rest d = Inr c' \<Longrightarrow> tc_closeOnEmpty c' = tc_closeOnEmpty d" for rest d
    by (auto simp: enqueue_rest_def Let_def new_node_def push_node_def res_simps split: if_splits)
  with assms(3) w show ?thesis
    by (auto simp: sendInLoop_alt Let_def writeInLoop_def same_queue_def split: if_splits)
qed

lemma conn_run_stream:
  assumes "conn_inv c" "write_ok e" "tc_status c = Connected" "\<not> tc_closeOnEmpty c"
    "length (pending c) + length (sent_bytes ops) < 2147483648"
    "2 * max 1 (length (tc_writeList c)) + 3 \<le> k"
  shows "conn_run k e ops c = Inl AllocError \<or>
    (\<exists>c'. conn_run k e ops c = Inr c' \<and> conn_inv c' \<and>
       wire c' @ pending c' = wire c @ pending c @ sent_bytes ops \<and> tc_status c' = Connected)"
  using assms
proof (induction ops arbitrary: c)
  case Nil
  then show ?case by simp
next
  case (Cons op ops)
  show ?case
  proof (cases op)
    case (OpSend data)
    have len: "length data < 2147483648" using Cons.prems(5) OpSend by simp
    from sendInLoop_stream [OF Cons.prems(1,2) len Cons.prems(3)]
    consider "sendInLoop e data c = Inl AllocError"
      | c1 where "sendInLoop e data c = Inr c1" "conn_inv c1"
          "wire c1 @ pending c1 = wire c @ pending c @ data" "tc_status c1 = Connected"
          "length (tc_writeList c1) \<le> max 1 (length (tc_writeList c))"
          "length (wire c) \<le> length (wire c1)"
      by blast
    then show ?thesis
    proof cases
      case 1
      with OpSend show ?thesis by (simp add: TcpConnection_send_def)
    next
      case (2 c1)
      have "length (wire c1) + length (pending c1) = length (wire c) + length (pending c) + length data"
        using arg_cong [OF 2(3), of length] by simp
      then have "length (pending c1) + length (sent_bytes ops) < 2147483648"
        using Cons.prems(5) OpSend 2(6) by simp
      moreover have "2 * max 1 (length (tc_writeList c1)) + 3 \<le> k"
        using Cons.prems(6) 2(5) by linarith
      moreover have "\<not> tc_closeOnEmpty c1"
        using sendInLoop_closeOnEmpty [OF Cons.prems(2) len 2(1)] Cons.prems(4) by simp
      ultimately show ?thesis
        using Cons.IH [OF 2(2) Cons.prems(2) 2(4)] 2(1,3) OpSend
        by (fastforce simp: TcpConnection_send_def)
    qed
  next
    case OpWritable
    have small: "small_nodes c" using Cons.prems(5) by (intro small_of_pending) simp
    have fuel: "2 * length (tc_writeList c) + 3 \<le> k" using Cons.prems(6) by linarith
    obtain c1 where r: "writeCallback k e c = Inr c1" "conn_inv c1"
      "wire c1 @ pending c1 = wire c @ pending c" "tc_status c1 = tc_status c" "\<not> tc_closeOnEmpty c1"
      "length (wire c) \<le> length (wire c1)" "length (tc_writeList c1) \<le> length (tc_writeList c)"
      using writeCallback_stream [OF Cons.prems(1,2) small fuel Cons.prems(4)] by blast
    have "length (wire c1) + length (pending c1) = length (wire c) + length (pending c)"
      using arg_cong [OF r(3), of length] by simp
    then have "length (pending c1) + length (sent_bytes ops) < 2147483648"
      using Cons.prems(5) OpWritable r(6) by simp
    moreover have "2 * max 1 (length (tc_writeList c1)) + 3 \<le> k"
      using Cons.prems(6) r(7) by linarith
    ultimately show ?thesis
      using Cons.IH [OF r(2) Cons.prems(2)] r Cons.prems(3) OpWritable by fastforce
  qed
qed

end
