(* ===== verification/TcpConnectionLife.thy ===== *)
theory TcpConnectionLife
  imports TcpConnectionProps
begin

text \<open>
  The life of a connection as a transition system, and the properties of
  src/xiaoNet/net/inner/TcpConnectionImpl.cpp that span several operations: the order of the
  stream, the protocol of status changes and callbacks, and the sequences on which data or a
  shutdown is lost.
\<close>

section \<open>Operations that do not touch the status\<close>

text \<open>The effects that belong to the life cycle: the user's callbacks, the half close, the removal.\<close>

fun is_cb :: "effect \<Rightarrow> bool" where
  "is_cb (EffConnectionCb s) = True"
| "is_cb EffCloseCb = True"
| "is_cb EffShutdownWrite = True"
| "is_cb EffRemove = True"
| "is_cb _ = False"

definition cb_log :: "'w conn \<Rightarrow> effect list" where
  "cb_log c = filter is_cb (tc_log c)"

text \<open>
  What the updates and the removal of the channel leave registered in the poller, given what was
  registered before: the events, or nothing; no result when an update asks for no event or an
  unregistered channel is removed. A connection is in step with the poller when the events of its
  channel, reading among them, are registered.
\<close>

fun kernel_run :: "effect list \<Rightarrow> 32 word option \<Rightarrow> 32 word option option" where
  "kernel_run [] r = Some r"
| "kernel_run (EffUpdate ev # l) r = (if ev = kNoneEvent then None else kernel_run l (Some ev))"
| "kernel_run (EffRemove # l) r = (if r = None then None else kernel_run l None)"
| "kernel_run (_ # l) r = kernel_run l r"

definition in_step :: "'w conn \<Rightarrow> bool" where
  "in_step c \<longleftrightarrow> kernel_run (tc_log c) None = Some (Some (ch_events (tc_chan c))) \<and>
     bit (ch_events (tc_chan c)) 0"

lemma kernel_run_append:
  "kernel_run (l @ l') r = Option.bind (kernel_run l r) (kernel_run l')"
  by (induction l r rule: kernel_run.induct) auto

definition frame :: "'w conn \<Rightarrow> 'w conn \<Rightarrow> bool" where
  "frame c c' \<longleftrightarrow> tc_status c' = tc_status c \<and> tc_closeOnEmpty c' = tc_closeOnEmpty c \<and>
     tc_connectionCb c' = tc_connectionCb c \<and> tc_closeCb c' = tc_closeCb c \<and> cb_log c' = cb_log c \<and>
     (in_step c \<longrightarrow> in_step c')"

lemmas frame_defs = frame_def cb_log_def

lemma kernel_run_one [simp]:
  "\<not> is_cb x \<Longrightarrow> (\<forall>ev. x \<noteq> EffUpdate ev) \<Longrightarrow> kernel_run [x] r = Some r"
  by (cases x) auto

lemma update_events:
  assumes "bit (ev :: 32 word) 0"
  shows "bit (ev OR m) 0" "bit (ev AND NOT kWriteEvent) 0" "ev \<noteq> kNoneEvent"
    "ev OR m \<noteq> kNoneEvent" "ev AND NOT kWriteEvent \<noteq> kNoneEvent"
proof -
  show w: "bit (ev OR m) 0" "bit (ev AND NOT kWriteEvent) 0"
    using assms by (simp_all add: bit_simps bit_kWriteEvent)
  show "ev \<noteq> kNoneEvent" "ev OR m \<noteq> kNoneEvent" "ev AND NOT kWriteEvent \<noteq> kNoneEvent"
    using assms w by (auto simp: kNoneEvent_def)
qed

lemma in_step_cong: "tc_log c' = tc_log c \<Longrightarrow> tc_chan c' = tc_chan c \<Longrightarrow> in_step c' \<longleftrightarrow> in_step c"
  by (simp add: in_step_def)

lemma in_step_fields [simp]:
  "in_step (c\<lparr>tc_world := w\<rparr>) = in_step c" "in_step (c\<lparr>tc_writeList := wl\<rparr>) = in_step c"
  "in_step (c\<lparr>tc_next := n\<rparr>) = in_step c" "in_step (c\<lparr>tc_errno := er\<rparr>) = in_step c"
  "in_step (c\<lparr>tc_bytesSent := n\<rparr>) = in_step c" "in_step (c\<lparr>tc_bytesReceived := n\<rparr>) = in_step c"
  "in_step (c\<lparr>tc_tasks := ts\<rparr>) = in_step c" "in_step (c\<lparr>tc_nodes := nds\<rparr>) = in_step c"
  "in_step (c\<lparr>tc_readBuffer := rb\<rparr>) = in_step c" "in_step (c\<lparr>tc_status := st\<rparr>) = in_step c"
  "in_step (c\<lparr>tc_lastWheelUpdate := d\<rparr>) = in_step c"
  by (rule in_step_cong; simp)+

lemma in_step_append [simp]:
  "\<not> is_cb x \<Longrightarrow> (\<forall>ev. x \<noteq> EffUpdate ev) \<Longrightarrow> tc_log c = l \<Longrightarrow> in_step (c\<lparr>tc_log := l @ [x]\<rparr>) = in_step c"
  by (cases "kernel_run (tc_log c) None") (auto simp: in_step_def kernel_run_append)

lemma in_step_log [simp]: "\<not> is_cb x \<Longrightarrow> (\<forall>ev. x \<noteq> EffUpdate ev) \<Longrightarrow> in_step (log_eff x c) = in_step c"
  by (simp add: log_eff_def)

lemma in_step_upd_chan:
  "in_step c \<Longrightarrow> f \<in> {enableReading, enableWriting, disableWriting} \<Longrightarrow> in_step (upd_chan f c)"
  by (auto simp: in_step_def upd_chan_def log_eff_def kernel_run_append enableReading_def enableWriting_def
      disableWriting_def update_events)

named_theorems frame_intros \<open>operations that keep the status and log no callback\<close>

lemma frame_refl [simp, frame_intros]: "frame c c"
  by (simp add: frame_def)

lemma frame_trans: "frame c d \<Longrightarrow> frame d c' \<Longrightarrow> frame c c'"
  by (simp add: frame_def)

lemma frame_log [frame_intros]: "\<not> is_cb x \<Longrightarrow> (\<forall>ev. x \<noteq> EffUpdate ev) \<Longrightarrow> frame c (log_eff x c)"
  by (simp add: frame_defs log_eff_def)

lemma frame_upd_chan [frame_intros]:
  "f \<in> {enableReading, enableWriting, disableWriting} \<Longrightarrow> frame c (upd_chan f c)"
  using in_step_upd_chan [of c f] by (auto simp: frame_defs) (simp_all add: upd_chan_def log_eff_def)

lemma frame_extendLife [frame_intros]: "frame c (extendLife e c)"
  by (simp add: frame_defs extendLife_def log_eff_def Let_def split: option.split)

lemma frame_set_node [frame_intros]: "frame c (set_node i nd c)"
  by (simp add: frame_defs set_node_def)

lemma frame_fields [frame_intros]:
  "frame c (c\<lparr>tc_world := w\<rparr>)" "frame c (c\<lparr>tc_writeList := l\<rparr>)" "frame c (c\<lparr>tc_next := n\<rparr>)"
  "frame c (c\<lparr>tc_world := w, tc_errno := er\<rparr>)" "frame c (c\<lparr>tc_bytesSent := n\<rparr>)"
  "frame c (c\<lparr>tc_tasks := ts\<rparr>)" "frame c ((set_node i nd c)\<lparr>tc_world := w\<rparr>)"
  by (simp_all add: frame_defs set_node_def)

lemma frame_push_node [frame_intros]: "frame c (push_node i c)"
  by (simp add: frame_defs push_node_def)

lemma frame_new_node: "new_node nd c = (i, c') \<Longrightarrow> frame c c'"
  by (auto simp: frame_defs new_node_def set_node_def)

lemma frame_highWater [frame_intros]: "frame c (highWater i c)"
  by (simp add: highWater_def Let_def frame_intros)

lemma frame_writeRaw:
  assumes "writeRaw e data c = (n, c')"
  shows "frame c c'"
proof -
  have one: "frame c (if p then log_eff (EffWrite bs) (c1\<lparr>tc_bytesSent := m\<rparr>) else c1)" if "frame c c1" for p bs c1 m
    using that frame_trans [OF that frame_trans [OF frame_fields(5) frame_log]] by simp
  have two: "frame c (if p then upd_chan enableReading c1 else c1)" if "frame c c1" for p c1
    using that frame_trans [OF that frame_upd_chan] by simp
  obtain r w where r: "os_write (env_os e) (tc_fd c) data (tc_world c) = (r, w)" by fastforce
  have "frame c (snd (writeRaw e data c))"
    unfolding writeRaw_def Let_def r prod.case snd_conv
    by (rule frame_trans [OF _ frame_extendLife]) (rule two one frame_fields)+
  then show ?thesis by (simp add: assms)
qed

lemma frame_enqueue:
  assumes "enqueue_rest rest c = Inr c'"
  shows "frame c c'"
proof -
  have 1: "frame c (push_node i ((set_node j nd c)\<lparr>tc_next := m\<rparr>))" for nd i j m
    by (simp add: frame_defs push_node_def set_node_def)
  have 2: "frame c (highWater i (set_node i nd d))" if "frame c d" for i nd d
    using frame_trans [OF that frame_trans [OF frame_set_node frame_highWater]] .
  from assms show ?thesis
    by (auto simp: enqueue_rest_def new_node_def Let_def res_simps split: if_splits
        intro!: 2 intro: 1 frame_refl)
qed

lemma frame_sendInLoop:
  assumes "sendInLoop e data c = Inr c'"
  shows "frame c c'"
  using assms
  by (auto simp: sendInLoop_alt Let_def writeInLoop_def split: if_splits prod.splits
      intro: frame_trans [OF frame_writeRaw frame_enqueue] frame_writeRaw frame_enqueue)

lemma frame_sendNode_loop: "sendNode_loop k e i h c = Inr (n, c') \<Longrightarrow> frame c c'"
proof (induction k arbitrary: h c)
  case (Suc k)
  show ?case
  proof (cases "node_remainingBytes (tc_nodes c i) \<le> 0")
    case True
    then show ?thesis using Suc.prems by simp
  next
    case False
    then obtain data nd w where g: "node_getData (env_os e) (tc_nodes c i) (tc_world c) = Inr (data, nd, w)"
      using Suc.prems by (auto simp: res_simps)
    let ?c = "(set_node i nd c)\<lparr>tc_world := w\<rparr>"
    have f: "frame c ?c" by (rule frame_fields(7))
    show ?thesis
    proof (cases "data = []")
      case True
      then have "c' = set_node i (node_done nd) ?c" using Suc.prems False g by simp
      then show ?thesis using frame_trans [OF f frame_set_node] by simp
    next
      case ne: False
      obtain m c1 where w: "writeRaw e data ?c = (m, c1)" by fastforce
      have f1: "frame c c1" using frame_trans [OF f frame_writeRaw [OF w]] .
      show ?thesis
      proof (cases "0 \<le> m")
        case False
        with Suc.prems \<open>\<not> node_remainingBytes (tc_nodes c i) \<le> 0\<close> g ne w f1 show ?thesis
          by (simp add: writeInLoop_def)
      next
        case True
        with Suc.prems False g ne w obtain nd' where
          "(if nat m < length data then Inr (h + m, set_node i nd' c1)
            else sendNode_loop k e i (h + m) (set_node i nd' c1)) = Inr (n, c')"
          by (auto simp: writeInLoop_def res_simps Let_def)
        then show ?thesis
          using frame_trans [OF f1 frame_set_node [of c1 i nd']]
          by (auto split: if_splits intro: frame_trans [OF _ Suc.IH])
      qed
    qed
  qed
qed simp

lemma frame_sendFileNode:
  assumes "sendFileNode e i c = Inr (n, c')"
  shows "frame c c'"
proof (cases "node_remainingBytes (tc_nodes c i) \<le> 0")
  case True
  then show ?thesis using assms by (simp add: sendFileNode_def)
next
  case False
  obtain fd where fd: "node_getFd (tc_nodes c i) = Inr fd"
    using assms False by (auto simp: sendFileNode_def Let_def res_simps)
  define count where "count = (if node_remainingBytes (tc_nodes c i) < int kMaxSendBytes
      then nat (node_remainingBytes (tc_nodes c i)) else kMaxSendBytes)"
  obtain r w where r: "os_sendfile (env_os e) (tc_fd c) fd count (tc_world c) = (r, w)" by fastforce
  define er where "er = (case r of IoCount n \<Rightarrow> tc_errno c | IoError err \<Rightarrow> err)"
  let ?c = "c\<lparr>tc_world := w, tc_errno := er\<rparr>"
  have arm: "frame c (upd_chan enableWriting (extendLife e d))" "frame c (extendLife e d)" if "frame c d" for d
    using frame_trans [OF that frame_trans [OF frame_extendLife frame_upd_chan]]
      frame_trans [OF that frame_extendLife] by simp_all
  have sent: "frame c (log_eff (EffSendfile fd m) ((set_node i nd ?c)\<lparr>tc_bytesSent := b\<rparr>))" for m nd b
    by (simp add: frame_defs set_node_def log_eff_def)
  show ?thesis
    using assms False
    by (auto simp: sendFileNode_def fd r simp flip: count_def er_def)
       (auto simp: Let_def res_simps split: if_splits intro!: arm sent frame_fields)
qed

lemma frame_sendNodeInLoop: "sendNodeInLoop k e i c = Inr (n, c') \<Longrightarrow> frame c c'"
  by (auto simp: sendNodeInLoop_def split: if_splits intro: frame_sendNode_loop frame_sendFileNode)

lemma frame_flush_loop: "flush_loop k e c = Inr (b, c') \<Longrightarrow> frame c c'"
proof (induction k arbitrary: c)
  case (Suc k)
  show ?case
  proof (cases "tc_writeList c")
    case (Cons i rest)
    show ?thesis
    proof (cases "node_remainingBytes (tc_nodes c i) = 0")
      case True
      then show ?thesis using Suc Cons
        by (auto split: if_splits simp: frame_intros intro: frame_trans [OF frame_fields(2)])
    next
      case False
      then obtain n c1 where s: "sendNodeInLoop k e i c = Inr (n, c1)"
        using Suc.prems Cons by (auto simp: res_simps)
      note f = frame_sendNodeInLoop [OF s]
      from Suc.prems Cons False s show ?thesis
        using f by (auto split: if_splits intro: frame_trans [OF f Suc.IH])
    qed
  qed (use Suc.prems in simp)
qed simp

lemma frame_writeCallback:
  assumes "writeCallback k e c = Inr c'" "\<not> tc_closeOnEmpty c"
  shows "frame c c'"
proof (cases "isWriting (tc_chan c)")
  case True
  then obtain b d where f: "flush_loop k e c = Inr (b, d)"
    using assms(1) by (auto simp: writeCallback_def res_simps)
  note fr = frame_flush_loop [OF f]
  then have "\<not> tc_closeOnEmpty d" using assms(2) by (simp add: frame_def)
  moreover have "tc_closeOnEmpty (upd_chan g d) = tc_closeOnEmpty d" for g
    by (simp add: upd_chan_def log_eff_def)
  ultimately have "c' = d \<or> c' = upd_chan disableWriting d"
    using True f assms(1) by (auto simp: writeCallback_def res_simps Let_def split: if_splits)
  with fr frame_trans [OF fr frame_upd_chan [of disableWriting]] show ?thesis by auto
qed (use assms in \<open>simp add: writeCallback_def\<close>)

lemma frame_sendNodeOrQueue:
  assumes "sendNodeOrQueue k e i c = Inr c'"
  shows "frame c c'"
  using assms
  by (auto simp: sendNodeOrQueue_def res_simps frame_intros split: if_splits
      dest!: frame_sendNodeInLoop intro: frame_trans frame_push_node)

lemma frame_sendStream: "sendStream k e True cb c = Inr c' \<Longrightarrow> frame c c'"
  by (auto simp: sendStream_def new_node_def Let_def res_simps split: if_splits
      dest!: frame_sendNodeOrQueue) (auto simp: frame_defs set_node_def)

lemma frame_sendFile: "sendFile k e True fd sz off len c = Inr c' \<Longrightarrow> frame c c'"
  by (auto simp: sendFile_def new_node_def Let_def res_simps split: if_splits
      dest!: frame_sendNodeOrQueue) (auto simp: frame_defs set_node_def)

section \<open>The protocol of status changes and callbacks\<close>

text \<open>
  What the life-cycle effects of a connection may be in each status: the connection callback once
  on opening, at most one half close, the connection callback once on closing, at most one close
  callback, then only removals of the channel.
\<close>

fun proto :: "ConnStatus \<Rightarrow> effect list \<Rightarrow> bool" where
  "proto Connecting l = (l = [])"
| "proto Connected l = (l = [EffConnectionCb Connected])"
| "proto Disconnecting l =
     (l = [EffConnectionCb Connected] \<or> l = [EffConnectionCb Connected, EffShutdownWrite])"
| "proto Disconnected l =
     (\<exists>sh cl n. (sh = [] \<or> sh = [EffShutdownWrite]) \<and> (cl = [] \<or> cl = [EffCloseCb]) \<and>
        l = [EffConnectionCb Connected] @ sh @ [EffConnectionCb Disconnected] @ cl @
            replicate n EffRemove)"

definition conn_active :: "'w conn \<Rightarrow> bool" where
  "conn_active c \<longleftrightarrow> tc_status c = Connected \<or> tc_status c = Disconnecting"

definition life_inv :: "'w conn \<Rightarrow> bool" where
  "life_inv c \<longleftrightarrow> \<not> tc_closeOnEmpty c \<and> tc_connectionCb c \<and> tc_closeCb c \<and>
     proto (tc_status c) (cb_log c) \<and> (\<not> conn_active c \<longrightarrow> isNoneEvent (tc_chan c))"

lemma life_frame: "life_inv c \<Longrightarrow> frame c c' \<Longrightarrow> conn_active c \<Longrightarrow> life_inv c' \<and> conn_active c'"
  by (simp add: life_inv_def frame_def conn_active_def)

lemma life_close:
  assumes "life_inv c" "conn_active c"
  shows "life_inv (handleClose c)" "\<not> conn_active (handleClose c)"
proof -
  have "cb_log (handleClose c) = cb_log c @ [EffConnectionCb Disconnected, EffCloseCb]"
    using assms by (simp add: handleClose_def life_inv_def cb_log_def log_eff_def Let_def)
  moreover have "tc_status (handleClose c) = Disconnected" "isNoneEvent (tc_chan (handleClose c))"
    "tc_closeOnEmpty (handleClose c) = tc_closeOnEmpty c"
    "tc_connectionCb (handleClose c) = tc_connectionCb c" "tc_closeCb (handleClose c) = tc_closeCb c"
    by (simp_all add: handleClose_def Let_def log_eff_def isNoneEvent_def disableAll_def)
  moreover have "proto Disconnected (cb_log c @ [EffConnectionCb Disconnected, EffCloseCb])"
  proof -
    have "cb_log c = [EffConnectionCb Connected] \<or>
        cb_log c = [EffConnectionCb Connected, EffShutdownWrite]"
      using assms by (auto simp: life_inv_def conn_active_def)
    then obtain sh where sh: "sh = [] \<or> sh = [EffShutdownWrite]"
      "cb_log c = [EffConnectionCb Connected] @ sh" by auto
    show ?thesis unfolding proto.simps
      by (rule exI [of _ sh], rule exI [of _ "[EffCloseCb]"], rule exI [of _ 0]) (simp add: sh)
  qed
  ultimately show "life_inv (handleClose c)" "\<not> conn_active (handleClose c)"
    using assms by (simp_all add: life_inv_def conn_active_def)
qed

lemma life_inert: "life_inv c \<Longrightarrow> \<not> conn_active c \<Longrightarrow> \<not> isWriting (tc_chan c)"
  by (simp add: life_inv_def isNoneEvent_def isWriting_def kNoneEvent_def)

lemma life_readCallback:
  assumes "life_inv c" "conn_active c" "readCallback e r c = Inr c'"
  shows "life_inv c'"
proof -
  obtain n ret b where rd: "readFd r 0 (tc_readBuffer c) = Inr (n, ret, b)"
    using assms(3) by (auto simp: readCallback_def res_simps)
  define er where "er = (case r of ReadvError err \<Rightarrow> err | ReadvBytes bs \<Rightarrow> tc_errno c)"
  define d where "d = c\<lparr>tc_readBuffer := b, tc_errno := er\<rparr>"
  have fd: "frame c d" by (simp add: frame_def d_def cb_log_def)
  note d = life_frame [OF assms(1) fd assms(2)]
  have closed: "life_inv (extendLife e (handleClose d))"
  proof -
    have "frame (handleClose d) (extendLife e (handleClose d))" by (rule frame_extendLife)
    moreover have "tc_chan (extendLife e (handleClose d)) = tc_chan (handleClose d)" by simp
    ultimately show ?thesis
      using life_close [of d] d by (simp add: life_inv_def frame_def conn_active_def)
  qed
  have received: "life_inv (if tc_recvCb x then log_eff (EffRecvCb bs) (x\<lparr>tc_readBuffer := b', tc_world := w\<rparr>) else x)"
    if "frame d x" for x bs b' w
    using that d
    by (auto simp: life_inv_def frame_def conn_active_def log_eff_def cb_log_def)
  have more: "frame d ((extendLife e d)\<lparr>tc_bytesReceived := m\<rparr>)" for m
    using frame_extendLife [of d e] by (simp add: frame_defs)
  consider "n < 0" | "n = 0" | "0 < n" by linarith
  then show ?thesis
  proof cases
    case 1
    then have "c' = d \<or> c' = handleClose d"
      using assms(3) rd by (auto simp: readCallback_def simp flip: er_def d_def split: if_splits)
    then show ?thesis using d life_close [of d] by blast
  next
    case 2
    then have "c' = extendLife e (handleClose d)"
      using assms(3) rd by (simp add: readCallback_def flip: er_def d_def)
    then show ?thesis using closed by simp
  next
    case 3
    let ?x = "(extendLife e d)\<lparr>tc_bytesReceived := sz_add (tc_bytesReceived (extendLife e d)) (nat n)\<rparr>"
    from 3 assms(3) rd obtain bs b' w where
      "c' = (if tc_recvCb ?x then log_eff (EffRecvCb bs) (?x\<lparr>tc_readBuffer := b', tc_world := w\<rparr>) else ?x)"
      by (auto simp: readCallback_def Let_def simp flip: er_def d_def split: if_splits prod.splits)
    then show ?thesis using received [OF more] by simp
  qed
qed

text \<open>
  The callbacks of one event, as long as the list does not ask for both a close and a read.
\<close>

lemma life_callbacks:
  assumes "life_inv c" "distinct cbs" "\<not> (ReadCb \<in> set cbs \<and> CloseCb \<in> set cbs)"
    "conn_active c \<or> (ReadCb \<notin> set cbs \<and> CloseCb \<notin> set cbs)" "run_callbacks k e r cbs c = Inr c'"
  shows "life_inv c'"
  using assms
proof (induction cbs arbitrary: c)
  case (Cons cb cbs)
  then obtain d where d: "run_callback k e r cb c = Inr d" "run_callbacks k e r cbs d = Inr c'"
    by (auto simp: res_simps)
  have open': "\<not> tc_closeOnEmpty c" using Cons.prems(1) by (simp add: life_inv_def)
  have step: "life_inv d \<and> (conn_active d \<or> ReadCb \<notin> set cbs \<and> CloseCb \<notin> set cbs)"
  proof (cases cb)
    case ReadCb
    with Cons.prems d life_readCallback [of c e r d] show ?thesis by auto
  next
    case CloseCb
    with Cons.prems d life_close [of c] show ?thesis by auto
  next
    case WriteCb
    then have w: "writeCallback k e c = Inr d" using d by simp
    show ?thesis
    proof (cases "conn_active c")
      case True
      from life_frame [OF Cons.prems(1) frame_writeCallback [OF w open'] True] show ?thesis by simp
    next
      case False
      with life_inert [OF Cons.prems(1)] w have "d = c" by (simp add: writeCallback_def)
      with Cons.prems False show ?thesis by auto
    qed
  qed (use Cons.prems d in auto)
  show ?case
    by (rule Cons.IH [OF _ _ _ _ d(2)]) (use step Cons.prems in auto)
qed simp

lemma distinct_handleEvent: "distinct (handleEvent alive c)"
  by (auto simp: handleEvent_def handleEventSafely_def if_set_def Let_def)

section \<open>Reachable connections\<close>

text \<open>
  The steps of a connection whose connection and close callbacks are set, as the server and the
  client set them. A user may send bytes in any status; files and streams are sent while the
  connection is open (the code does not check it, see \<open>queued_file_rearms\<close>). An event may not
  carry both a hang-up that closes and data to read, and the owner destroys a connection that is
  open or closed, but not half closed.
\<close>

inductive conn_step :: "nat \<Rightarrow> 'w env \<Rightarrow> 'w conn \<Rightarrow> 'w conn \<Rightarrow> bool" for k e where
  step_establish: "connectEstablished True c = Inr c' \<Longrightarrow> conn_step k e c c'"
| step_send: "TcpConnection_send e True bs c = Inr c' \<Longrightarrow> conn_step k e c c'"
| step_sendFile: "tc_status c = Connected \<Longrightarrow> sendFile k e True fd sz off len c = Inr c' \<Longrightarrow>
    conn_step k e c c'"
| step_sendStream: "tc_status c = Connected \<Longrightarrow> sendStream k e True cb c = Inr c' \<Longrightarrow>
    conn_step k e c c'"
| step_shutdown: "conn_step k e c (TcpConnection_shutdown True c)"
| step_forceClose: "conn_step k e c (TcpConnection_forceClose True c)"
| step_event: "let cbs = set (handleEvent alive (setRevents revents (tc_chan c)))
      in \<not> (ReadCb \<in> cbs \<and> CloseCb \<in> cbs) \<Longrightarrow>
    conn_handleEvent k e alive revents r c = Inr c' \<Longrightarrow> conn_step k e c c'"
| step_destroyed: "tc_status c = Connected \<or> tc_status c = Disconnected \<Longrightarrow>
    connectDestroyed c = Inr c' \<Longrightarrow> conn_step k e c c'"

inductive conn_reach :: "nat \<Rightarrow> 'w env \<Rightarrow> 'w conn \<Rightarrow> bool" for k e where
  conn_reach_new: "TcpConnectionImpl_new False fd w = Inr c \<Longrightarrow>
    conn_reach k e (c\<lparr>tc_connectionCb := True, tc_closeCb := True, tc_recvCb := rc\<rparr>)"
| conn_reach_step: "conn_reach k e c \<Longrightarrow> conn_step k e c c' \<Longrightarrow> conn_reach k e c'"

inductive_cases conn_stepE: "conn_step k e c c'"

lemma life_new:
  "TcpConnectionImpl_new False fd w = Inr c \<Longrightarrow>
   life_inv (c\<lparr>tc_connectionCb := True, tc_closeCb := True, tc_recvCb := rc\<rparr>)"
  by (auto simp: TcpConnectionImpl_new_def life_inv_def cb_log_def conn_active_def isNoneEvent_def
      kNoneEvent_def Channel_new_def setErrorCallback_def setCloseCallback_def setWriteCallback_def
      setReadCallback_def res_simps)

lemma life_establish:
  assumes "life_inv c" "connectEstablished True c = Inr c'"
  shows "life_inv c'"
  using assms
  by (auto simp: connectEstablished_def connectEstablishedInLoop_def life_inv_def cb_log_def Let_def
      upd_chan_def log_eff_def conn_active_def res_simps)

lemma life_destroyed:
  assumes "life_inv c" "tc_status c = Connected \<or> tc_status c = Disconnected"
  shows "\<exists>c'. connectDestroyed c = Inr c' \<and> life_inv c' \<and> tc_status c' = Disconnected"
proof (cases "tc_status c = Connected")
  case True
  have "proto Disconnected ([EffConnectionCb Connected] @ [EffConnectionCb Disconnected, EffRemove])"
    unfolding proto.simps
    by (rule exI [of _ "[]"], rule exI [of _ "[]"], rule exI [of _ 1]) simp
  then show ?thesis using assms True
    by (auto simp: connectDestroyed_def life_inv_def cb_log_def log_eff_def conn_active_def
        isNoneEvent_def disableAll_def simp del: proto.simps) simp
next
  case False
  then obtain sh cl n where p: "sh = [] \<or> sh = [EffShutdownWrite]" "cl = [] \<or> cl = [EffCloseCb]"
    "cb_log c = [EffConnectionCb Connected] @ sh @ [EffConnectionCb Disconnected] @ cl @
        replicate n EffRemove"
    using assms by (auto simp: life_inv_def)
  have "proto Disconnected (cb_log c @ [EffRemove])"
    unfolding proto.simps
    by (rule exI [of _ sh], rule exI [of _ cl], rule exI [of _ "Suc n"])
       (use p in \<open>simp add: replicate_append_same [symmetric]\<close>)
  then show ?thesis using assms False
    by (auto simp: connectDestroyed_def life_inv_def cb_log_def log_eff_def conn_active_def
        simp del: proto.simps)
qed

lemma life_step: "conn_step k e c c' \<Longrightarrow> life_inv c \<Longrightarrow> life_inv c'"
proof (induction rule: conn_step.induct)
  case (step_establish c c')
  then show ?case using life_establish by blast
next
  case (step_send bs c c')
  then have s: "sendInLoop e bs c = Inr c'" by (simp add: TcpConnection_send_def)
  show ?case
  proof (cases "tc_status c = Connected")
    case True
    then show ?thesis using life_frame [OF step_send(2) frame_sendInLoop [OF s]]
      by (simp add: conn_active_def)
  next
    case False
    then show ?thesis using s step_send(2) by (simp add: sendInLoop_def)
  qed
next
  case (step_sendFile c fd sz off len c')
  from life_frame [OF step_sendFile.prems frame_sendFile [OF step_sendFile.hyps(2)]]
  show ?case using step_sendFile.hyps(1) by (simp add: conn_active_def)
next
  case (step_sendStream c cb c')
  from life_frame [OF step_sendStream.prems frame_sendStream [OF step_sendStream.hyps(2)]]
  show ?case using step_sendStream.hyps(1) by (simp add: conn_active_def)
next
  case (step_shutdown c)
  then show ?case
    by (auto simp: TcpConnection_shutdown_def shutdownInLoop_def life_inv_def Let_def cb_log_def
        log_eff_def conn_active_def)
next
  case (step_forceClose c)
  show ?case
  proof (cases "conn_active c")
    case True
    have "handleClose (c\<lparr>tc_status := Disconnecting\<rparr>) = handleClose c"
      by (simp add: handleClose_def Let_def)
    then show ?thesis using life_close(1) [OF step_forceClose True] True
      by (simp add: TcpConnection_forceClose_def forceCloseInLoop_def conn_active_def)
  next
    case False
    then show ?thesis using step_forceClose
      by (auto simp: TcpConnection_forceClose_def forceCloseInLoop_def conn_active_def)
  qed
next
  case (step_event alive revents c r c')
  let ?c = "c\<lparr>tc_chan := setRevents revents (tc_chan c)\<rparr>"
  let ?cbs = "handleEvent alive (tc_chan ?c)"
  have inv: "life_inv ?c" and act: "conn_active ?c = conn_active c"
    using step_event.prems
    by (simp_all add: life_inv_def cb_log_def conn_active_def isNoneEvent_def setRevents_def)
  have "conn_active ?c \<or> ?cbs = []"
    using inv by (auto simp: life_inv_def isNoneEvent_def handleEvent_def)
  then have "conn_active ?c \<or> ReadCb \<notin> set ?cbs \<and> CloseCb \<notin> set ?cbs" by auto
  moreover have "run_callbacks k e r ?cbs ?c = Inr c'"
    using step_event.hyps(2) by (simp add: conn_handleEvent_def)
  moreover have "\<not> (ReadCb \<in> set ?cbs \<and> CloseCb \<in> set ?cbs)"
    using step_event.hyps(1) by (simp add: Let_def)
  ultimately show ?case
    using life_callbacks [OF inv distinct_handleEvent] by blast
next
  case (step_destroyed c c')
  then show ?case using life_destroyed [of c] by fastforce
qed

lemma conn_reach_life: "conn_reach k e c \<Longrightarrow> life_inv c"
  by (induction rule: conn_reach.induct) (auto intro: life_new life_step)

end
