(* ===== verification/TcpConnectionTheorems.thy ===== *)
theory TcpConnectionTheorems
  imports TcpConnectionLife
begin

text \<open>
  The properties of the connection, each with a concrete instance: an environment whose
  \<open>write\<close> and \<open>sendfile\<close> accept at most two bytes per call.
\<close>

section \<open>A concrete connection\<close>

definition two_byte_os :: "unit os" where
  "two_byte_os = \<lparr>os_write = (\<lambda>fd data w. (IoCount (min 2 (length data)), w)),
     os_sendfile = (\<lambda>s fd n w. (IoCount (min 2 n), w)), os_read = (\<lambda>fd n w. (ReadvBytes [], w)),
     os_stream = (\<lambda>cb n w. ([], w))\<rparr>"

definition two_byte_env :: "unit env" where
  "two_byte_env = \<lparr>env_os = two_byte_os, env_now = (\<lambda>w. 0), env_after1 = (\<lambda>t. t + 1000000),
     env_alive = (\<lambda>k w. True), env_wheel = (\<lambda>w. True), env_recv = (\<lambda>b w. (b, w))\<rparr>"

definition busy_env :: "unit env" where
  "busy_env = two_byte_env\<lparr>env_os := two_byte_os\<lparr>os_sendfile := (\<lambda>s fd n w. (IoError EAGAIN, w))\<rparr>\<rparr>"

definition fresh_conn :: "unit conn" where
  "fresh_conn = projr (TcpConnectionImpl_new False 7 ())"

definition sample_conn :: "unit conn" where
  "sample_conn = projr (bind_res (TcpConnectionImpl_new False 7 ())
     (\<lambda>c. connectEstablished True (c\<lparr>tc_connectionCb := True, tc_closeCb := True, tc_recvCb := True\<rparr>)))"

lemma two_byte_write_ok: "write_ok two_byte_env"
  by (simp add: write_ok_def two_byte_env_def two_byte_os_def)

lemma default_new: "\<exists>b. MsgBuffer_new kBufferDefaultLength = Inr b"
  using default_buffer by blast

lemma new_conn: "TcpConnectionImpl_new False 7 () = Inr fresh_conn"
  using default_new by (auto simp: fresh_conn_def TcpConnectionImpl_new_def)

lemma new_conn_fields:
  assumes "TcpConnectionImpl_new False fd w = Inr c"
  shows "tc_status c = Connecting" "tc_writeList c = []" "\<not> tc_closeOnEmpty c" "tc_log c = []"
    "tc_next c = 0" "\<not> isWriting (tc_chan c)" "tc_idleTimeout c = 0" "tc_fd c = fd"
    "tc_errno c = 0" "tc_tasks c = []" "isNoneEvent (tc_chan c)"
  using assms
  by (auto simp: TcpConnectionImpl_new_def isWriting_def Channel_new_def setErrorCallback_def
      setCloseCallback_def setWriteCallback_def setReadCallback_def isNoneEvent_def kNoneEvent_def
      res_simps)

lemma establish_fields:
  assumes "connectEstablished True c = Inr c'"
  shows "tc_status c' = Connected" "tc_writeList c' = tc_writeList c"
    "tc_closeOnEmpty c' = tc_closeOnEmpty c" "tc_nodes c' = tc_nodes c" "tc_next c' = tc_next c"
    "isWriting (tc_chan c') = isWriting (tc_chan c)" "tc_idleTimeout c' = tc_idleTimeout c"
    "tc_fd c' = tc_fd c" "tc_errno c' = tc_errno c" "tc_tasks c' = tc_tasks c"
  using assms
  by (auto simp: connectEstablished_def connectEstablishedInLoop_def Let_def upd_chan_def log_eff_def
      res_simps split: if_splits)

lemmas fresh_conn_fields = new_conn_fields [OF new_conn]

lemma sample_conn_new:
  "connectEstablished True (fresh_conn\<lparr>tc_connectionCb := True, tc_closeCb := True, tc_recvCb := True\<rparr>) =
     Inr sample_conn"
  by (simp add: sample_conn_def new_conn connectEstablished_def connectEstablishedInLoop_def
      fresh_conn_fields Let_def)

lemma sample_conn_fields:
  "tc_status sample_conn = Connected" "tc_writeList sample_conn = []"
  "\<not> tc_closeOnEmpty sample_conn" "\<not> isWriting (tc_chan sample_conn)" "tc_next sample_conn = 0"
  "tc_fd sample_conn = 7" "tc_idleTimeout sample_conn = 0" "tc_tasks sample_conn = []"
  "tc_errno sample_conn = 0" "pending sample_conn = []" "conn_inv sample_conn"
  using establish_fields [OF sample_conn_new]
  by (simp_all add: fresh_conn_fields pending_def conn_inv_def)

lemma sample_conn_reach: "conn_reach k e sample_conn"
  by (rule conn_reach_step [OF conn_reach_new [OF new_conn, of _ _ True]])
     (rule step_establish [OF sample_conn_new])

section \<open>The order of the stream\<close>



section \<open>A short write stalls the connection\<close>

lemma writeRaw_count:
  assumes r: "fst (os_write (env_os e) (tc_fd c) data (tc_world c)) = IoCount n"
    and n: "n \<le> length data" "length data < 2147483648"
  shows "\<exists>c'. writeRaw e data c = (int n, c') \<and> wire c' = wire c @ take n data \<and> same_queue c c'"
proof -
  obtain w where w: "os_write (env_os e) (tc_fd c) data (tc_world c) = (IoCount n, w)"
    using r by (metis prod.collapse)
  have "to_int32 (int n) = int n" using n by (simp add: to_int32_exact)
  then show ?thesis using w
    by (intro exI [of _ "snd (writeRaw e data c)"])
       (auto simp: writeRaw_def wire_def same_queue_def Let_def)
qed

lemma stalled_run:
  assumes "conn_inv c" "write_ok e" "tc_status c = Connected" "\<not> isWriting (tc_chan c)"
    "tc_writeList c \<noteq> []" "length (sent_bytes ops) < 2147483648"
  shows "conn_run k e ops c = Inl AllocError \<or>
    (\<exists>c'. conn_run k e ops c = Inr c' \<and> wire c' = wire c \<and> pending c' = pending c @ sent_bytes ops)"
  using assms
proof (induction ops arbitrary: c)
  case Nil
  then show ?case by simp
next
  case (Cons op ops)
  show ?case
  proof (cases op)
    case OpWritable
    then have "conn_run k e (op # ops) c = conn_run k e ops c"
      using Cons.prems(4) by (simp add: writeCallback_def)
    moreover have "sent_bytes (op # ops) = sent_bytes ops" using OpWritable by simp
    ultimately show ?thesis using Cons.IH [OF Cons.prems(1-5)] Cons.prems(6) by simp
  next
    case (OpSend data)
    then have len: "length data < 2147483648" "length (sent_bytes ops) < 2147483648"
      using Cons.prems(6) by simp_all
    from sendInLoop_stream [OF Cons.prems(1,2) len(1) Cons.prems(3)] Cons.prems(4,5)
    consider "sendInLoop e data c = Inl AllocError"
      | c1 where "sendInLoop e data c = Inr c1" "conn_inv c1" "tc_status c1 = Connected"
          "\<not> isWriting (tc_chan c1)" "tc_writeList c1 \<noteq> []" "wire c1 = wire c"
          "wire c1 @ pending c1 = wire c @ pending c @ data"
      by blast
    then show ?thesis
    proof cases
      case 1
      then show ?thesis using OpSend by (simp add: TcpConnection_send_def)
    next
      case (2 c1)
      have "pending c1 = pending c @ data" using 2(6,7) by simp
      then show ?thesis
        using Cons.IH [OF 2(2) Cons.prems(2) 2(3,4,5) len(2)] 2 OpSend
        by (auto simp: TcpConnection_send_def)
    qed
  qed
qed

text \<open>
  C4. After a short write on an idle connection \<open>writeRaw\<close> enables reading where it has to enable
  writing: whatever is sent afterwards and whatever write events arrive, nothing more is ever
  handed to the kernel; the rest of the first message and all later ones only pile up.
\<close>

theorem short_write_stalls:
  assumes "conn_inv c" "write_ok e" "tc_status c = Connected" "\<not> isWriting (tc_chan c)"
    "tc_writeList c = []"
    and w: "fst (os_write (env_os e) (tc_fd c) data (tc_world c)) = IoCount n" "n < length data"
    and len: "length data + length (sent_bytes ops) < 2147483648"
  shows "conn_run k e (OpSend data # ops) c = Inl AllocError \<or>
    (\<exists>c'. conn_run k e (OpSend data # ops) c = Inr c' \<and> wire c' = wire c @ take n data \<and>
       pending c' = drop n data @ sent_bytes ops)"
proof -
  obtain c1 where c1: "writeRaw e data c = (int n, c1)" "wire c1 = wire c @ take n data"
    "same_queue c c1"
    using writeRaw_count [OF w(1)] w(2) len by fastforce
  have inv1: "conn_inv c1" and p1: "pending c1 = []"
    using assms(1,5) c1(3) by (simp_all add: conn_inv_def same_queue_def pending_def)
  have send: "sendInLoop e data c = enqueue_rest (drop n data) c1"
    using assms(3,4,5) w(2) c1 by (simp add: sendInLoop_alt writeInLoop_def same_queue_def)
  have "length (drop n data) \<le> alloc_max" using len by simp
  from enqueue_rest_result [OF inv1 this] consider
    "enqueue_rest (drop n data) c1 = Inl AllocError"
    | c2 where "enqueue_rest (drop n data) c1 = Inr c2" "conn_inv c2" "wire c2 = wire c1"
        "pending c2 = drop n data" "tc_writeList c2 \<noteq> []" "tc_status c2 = tc_status c1"
        "tc_chan c2 = tc_chan c1"
    using p1 by auto
  then show ?thesis
  proof cases
    case 1
    then show ?thesis by (simp add: TcpConnection_send_def send)
  next
    case (2 c2)
    have "tc_status c2 = Connected" "\<not> isWriting (tc_chan c2)"
      using 2 c1(3) assms(3,4) by (simp_all add: same_queue_def)
    from stalled_run [OF 2(2) assms(2) this 2(5), of ops k] len 2 c1(2) show ?thesis
      by (auto simp: TcpConnection_send_def send)
  qed
qed

theorem short_write_stalls_witness:
  "conn_run 5 two_byte_env (OpSend [1, 2, 3] # [OpWritable, OpSend [4], OpWritable]) sample_conn = Inl AllocError \<or>
    (\<exists>c'. conn_run 5 two_byte_env (OpSend [1, 2, 3] # [OpWritable, OpSend [4], OpWritable]) sample_conn = Inr c' \<and>
       wire c' = wire sample_conn @ take 2 [1, 2, 3] \<and>
       pending c' = drop 2 [1, 2, 3] @ sent_bytes [OpWritable, OpSend [4], OpWritable])"
  by (rule short_write_stalls)
     (simp_all add: sample_conn_fields two_byte_write_ok, simp add: two_byte_env_def two_byte_os_def)

section \<open>A shutdown with data waiting is lost\<close>

lemma conn_run_frame:
  "conn_run k e ops c = Inr c' \<Longrightarrow> \<not> tc_closeOnEmpty c \<Longrightarrow> frame c c'"
proof (induction ops arbitrary: c)
  case (Cons op ops)
  then obtain d where d: "conn_run k e ops d = Inr c'" "frame c d"
    by (cases op) (auto simp: TcpConnection_send_def res_simps dest: frame_sendInLoop frame_writeCallback)
  then have "\<not> tc_closeOnEmpty d" using Cons.prems(2) by (simp add: frame_def)
  from frame_trans [OF d(2) Cons.IH [OF d(1) this]] show ?case .
qed simp

text \<open>
  C17. \<open>shutdown\<close> while data waits in the list does nothing, and is not made up for when the list
  drains: after any sends and write events that follow, the connection is still connected, no
  half close was issued and the flag that would ask for it is still clear.
\<close>

theorem shutdown_lost:
  assumes "tc_status c = Connected" "tc_writeList c \<noteq> []" "\<not> tc_closeOnEmpty c"
    and run: "conn_run k e ops (TcpConnection_shutdown True c) = Inr c'"
  shows "tc_status c' = Connected \<and> \<not> tc_closeOnEmpty c' \<and> cb_log c' = cb_log c"
proof -
  have "TcpConnection_shutdown True c = c"
    using assms by (simp add: TcpConnection_shutdown_def shutdownInLoop_def)
  with conn_run_frame [of k e ops c c'] run assms show ?thesis by (simp add: frame_def)
qed

text \<open>A connection with a byte waiting and write events on.\<close>

definition one_byte_node :: BufferNode where
  "one_byte_node = \<lparr>nd_kind = MemNode \<lparr>mb_head = 8, mb_initCap = 8,
     mb_buffer = replicate 8 0 @ [42] @ replicate 7 0, mb_tail = 9\<rparr>, nd_isDone = False\<rparr>"

definition writing_conn :: "unit conn" where
  "writing_conn = upd_chan enableWriting (push_node 0 (set_node 0 one_byte_node (sample_conn\<lparr>tc_next := 1\<rparr>)))"

lemma one_byte_node_mem: "is_mem one_byte_node" "node_bytes one_byte_node = [42]"
  by (simp_all add: one_byte_node_def is_mem_def mb_wf_def kBufferOffset_def mb_content_def)

lemma writing_conn_fields:
  "tc_status writing_conn = Connected" "tc_writeList writing_conn = [0]" "\<not> tc_closeOnEmpty writing_conn"
  "conn_inv writing_conn" "pending writing_conn = [42]" "isWriting (tc_chan writing_conn)"
  using sample_conn_fields one_byte_node_mem
  by (simp_all add: writing_conn_def push_node_def conn_inv_def pending_def)

theorem shutdown_lost_witness:
  "\<exists>c'. conn_run 5 two_byte_env [OpWritable] (TcpConnection_shutdown True writing_conn) = Inr c' \<and>
     tc_status c' = Connected \<and> \<not> tc_closeOnEmpty c' \<and> cb_log c' = cb_log writing_conn"
proof -
  have "TcpConnection_shutdown True writing_conn = writing_conn"
    by (simp add: TcpConnection_shutdown_def shutdownInLoop_def writing_conn_fields)
  moreover have "conn_run 5 two_byte_env [OpWritable] writing_conn = Inl AllocError \<or>
      (\<exists>c'. conn_run 5 two_byte_env [OpWritable] writing_conn = Inr c')"
    using conn_run_stream [of writing_conn two_byte_env "[OpWritable]" 5]
    by (auto simp: writing_conn_fields two_byte_write_ok)
  moreover obtain c' where "writeCallback 5 two_byte_env writing_conn = Inr c'"
    using writeCallback_stream [of writing_conn two_byte_env 5]
      small_of_pending [of writing_conn]
    by (auto simp: writing_conn_fields two_byte_write_ok)
  ultimately have run: "conn_run 5 two_byte_env [OpWritable] (TcpConnection_shutdown True writing_conn) = Inr c'"
    by simp
  show ?thesis using shutdown_lost [OF _ _ _ run] run by (auto simp: writing_conn_fields)
qed

section \<open>Files and streams\<close>

text \<open>
  In the loop thread \<open>sendStream\<close> with data already waiting loses the stream: nothing is
  queued, written or logged. From another thread the same call ends with the stream at the back
  of the list.
\<close>

theorem sendStream_in_loop_lost:
  assumes "tc_writeList c \<noteq> []"
  shows "(\<exists>c'. sendStream k e True cb c = Inr c' \<and> tc_writeList c' = tc_writeList c \<and>
      tc_log c' = tc_log c \<and> tc_tasks c' = tc_tasks c) \<and>
    (\<exists>c1 c2. sendStream k e False cb c = Inr c1 \<and> tc_tasks c1 = tc_tasks c @ [TaskSendNode (tc_next c)] \<and>
      run_task k e (TaskSendNode (tc_next c)) c1 = Inr c2 \<and>
      tc_writeList c2 = tc_writeList c @ [tc_next c])"
proof -
  obtain b where "MsgBuffer_new kBufferDefaultLength = Inr b" using default_new by blast
  then have "newStreamBufferNode cb = Inr \<lparr>nd_kind = StreamNode cb b, nd_isDone = False\<rparr>"
    by (simp add: newStreamBufferNode_def)
  then show ?thesis using assms
    by (simp add: sendStream_def new_node_def queue_task_def sendNodeOrQueue_def push_node_def)
qed

theorem sendStream_in_loop_lost_witness:
  "(\<exists>c'. sendStream 5 two_byte_env True 0 writing_conn = Inr c' \<and>
      tc_writeList c' = tc_writeList writing_conn \<and> tc_log c' = tc_log writing_conn \<and>
      tc_tasks c' = tc_tasks writing_conn) \<and>
    (\<exists>c1 c2. sendStream 5 two_byte_env False 0 writing_conn = Inr c1 \<and>
      tc_tasks c1 = tc_tasks writing_conn @ [TaskSendNode (tc_next writing_conn)] \<and>
      run_task 5 two_byte_env (TaskSendNode (tc_next writing_conn)) c1 = Inr c2 \<and>
      tc_writeList c2 = tc_writeList writing_conn @ [tc_next writing_conn])"
  by (rule sendStream_in_loop_lost) (simp add: writing_conn_fields)

lemma file_node_methods:
  assumes "0 < sz"
  shows "node_isFile \<lparr>nd_kind = FileNode fd sz None, nd_isDone = False\<rparr>"
    "node_remainingBytes \<lparr>nd_kind = FileNode fd sz None, nd_isDone = False\<rparr> = sz"
    "node_getFd \<lparr>nd_kind = FileNode fd sz None, nd_isDone = False\<rparr> = Inr fd"
    "node_available \<lparr>nd_kind = FileNode fd sz None, nd_isDone = False\<rparr> = (0 \<le> fd)"
    "int m < sz \<Longrightarrow> node_retrieve \<lparr>nd_kind = FileNode fd sz None, nd_isDone = False\<rparr> m =
       Inr \<lparr>nd_kind = FileNode fd (sz - int m) None, nd_isDone = False\<rparr>"
  using assms
  by (simp_all add: node_available_def node_isFile_def node_remainingBytes_def node_getFd_def
      node_retrieve_def)

abbreviation sendfile_count :: "int \<Rightarrow> nat" where
  "sendfile_count sz \<equiv> (if sz < int kMaxSendBytes then nat sz else kMaxSendBytes)"

lemma sendFileNode_busy:
  assumes "tc_nodes c i = \<lparr>nd_kind = FileNode fd sz None, nd_isDone = False\<rparr>" "0 < sz"
    "\<not> isWriting (tc_chan c)"
    "os_sendfile (env_os e) (tc_fd c) fd (sendfile_count sz) (tc_world c) = (IoError EAGAIN, w)"
  shows "sendFileNode e i c =
    Inr (-1, upd_chan enableWriting (extendLife e (c\<lparr>tc_world := w, tc_errno := EAGAIN\<rparr>)))"
  using assms
  by (simp add: sendFileNode_def file_node_methods [OF assms(2)] isEAGAIN_def del: if_split)

lemma sendFileNode_part:
  assumes "tc_nodes c i = \<lparr>nd_kind = FileNode fd sz None, nd_isDone = False\<rparr>" "0 < sz"
    "\<not> isWriting (tc_chan c)"
    "os_sendfile (env_os e) (tc_fd c) fd (sendfile_count sz) (tc_world c) = (IoCount m, w)"
    "0 < m" "int m < sz"
  shows "sendFileNode e i c =
    Inr (int m, upd_chan enableWriting (extendLife e (log_eff (EffSendfile fd m)
      ((set_node i \<lparr>nd_kind = FileNode fd (sz - int m) None, nd_isDone = False\<rparr>
          (c\<lparr>tc_world := w, tc_errno := tc_errno c\<rparr>))\<lparr>tc_bytesSent := sz_add (tc_bytesSent c) m\<rparr>))))"
  using assms
  by (simp add: sendFileNode_def file_node_methods [OF assms(2)] isEAGAIN_def del: if_split)
     (simp add: Let_def)

lemma file_node_new:
  "0 \<le> fd \<Longrightarrow> 0 < sz \<Longrightarrow>
   newFileBufferNode fd (Some sz) 0 0 = Inr \<lparr>nd_kind = FileNode fd sz None, nd_isDone = False\<rparr>"
  by (simp add: newFileBufferNode_def)

text \<open>
  \<open>sendFile\<close> on an idle connection whose socket is full (the first \<open>sendfile\<close> reports
  EAGAIN): \<open>sendNodeInLoop\<close> enables write events and returns -1, which the caller takes for
  an error, so the file is not put on the list and no byte of it is ever sent.
\<close>

theorem sendFile_busy_lost:
  assumes "tc_writeList c = []" "0 \<le> fd" "0 < sz" "\<not> isWriting (tc_chan c)"
    and "os_sendfile (env_os e) (tc_fd c) fd (sendfile_count sz) (tc_world c) = (IoError EAGAIN, w)"
  shows "\<exists>c'. sendFile k e True fd (Some sz) 0 0 c = Inr c' \<and> tc_writeList c' = [] \<and>
    tc_tasks c' = tc_tasks c \<and> isWriting (tc_chan c') \<and> tc_bytesSent c' = tc_bytesSent c"
proof -
  let ?d = "(set_node (tc_next c) \<lparr>nd_kind = FileNode fd sz None, nd_isDone = False\<rparr> c)
      \<lparr>tc_next := Suc (tc_next c)\<rparr>"
  have "sendFileNode e (tc_next c) ?d =
      Inr (-1, upd_chan enableWriting (extendLife e (?d\<lparr>tc_world := w, tc_errno := EAGAIN\<rparr>)))"
    by (rule sendFileNode_busy) (use assms in \<open>simp_all add: set_node_def\<close>)
  then show ?thesis
    using assms
    by (simp add: sendFile_def file_node_new new_node_def sendNodeOrQueue_def sendNodeInLoop_def
        file_node_methods)
qed

theorem sendFile_busy_lost_witness:
  "\<exists>c'. sendFile 5 busy_env True 3 (Some 100) 0 0 sample_conn = Inr c' \<and> tc_writeList c' = [] \<and>
    tc_tasks c' = tc_tasks sample_conn \<and> isWriting (tc_chan c') \<and>
    tc_bytesSent c' = tc_bytesSent sample_conn"
  by (rule sendFile_busy_lost)
     (simp_all add: sample_conn_fields, simp add: busy_env_def two_byte_os_def two_byte_env_def)

text \<open>
  A file queued from another thread is sent by a closure that does not look at the status.
  On a connection that has been closed meanwhile, a partial \<open>sendfile\<close> switches write events
  back on, and the destruction that the owner has scheduled then fails the assertion of
  \<open>Channel::remove\<close>.
\<close>

theorem queued_file_rearms:
  assumes "tc_status c = Disconnected" "isNoneEvent (tc_chan c)" "tc_writeList c = []"
    and "tc_nodes c i = \<lparr>nd_kind = FileNode fd sz None, nd_isDone = False\<rparr>" "0 < sz"
    and "os_sendfile (env_os e) (tc_fd c) fd (sendfile_count sz) (tc_world c) = (IoCount m, w)" "0 < m" "int m < sz"
  shows "\<exists>c'. run_task k e (TaskSendNode i) c = Inr c' \<and> tc_status c' = Disconnected \<and>
    EffSendfile fd m \<in> set (tc_log c') \<and> isWriting (tc_chan c') \<and>
    connectDestroyed c' = Inl AssertFailed"
proof -
  have notw: "\<not> isWriting (tc_chan c)"
    using assms(2) by (simp add: isNoneEvent_def isWriting_def kNoneEvent_def)
  have arm: "\<not> isNoneEvent (enableWriting ch)" for ch
    using isWriting_ops(1) [of ch] by (auto simp: isNoneEvent_def isWriting_def kNoneEvent_def)
  have log: "EffSendfile fd m \<in> set (tc_log (upd_chan f (extendLife e (log_eff (EffSendfile fd m) d))))"
    for f and d :: "'a conn"
    by (simp add: upd_chan_def extendLife_def Let_def log_eff_def split: option.split)
  note part = sendFileNode_part [OF assms(4,5) notw assms(6-8)]
  show ?thesis
    using assms(1,3-5,7,8) part
    by (simp add: sendNodeOrQueue_def sendNodeInLoop_def file_node_methods push_node_def log arm
        connectDestroyed_def node_remainingBytes_def)
qed

definition closed_file_conn :: "unit conn" where
  "closed_file_conn = set_node 0 \<lparr>nd_kind = FileNode 3 100 None, nd_isDone = False\<rparr> (handleClose sample_conn)"

theorem queued_file_rearms_witness:
  "\<exists>c'. run_task 5 two_byte_env (TaskSendNode 0) closed_file_conn = Inr c' \<and> tc_status c' = Disconnected \<and>
    EffSendfile 3 2 \<in> set (tc_log c') \<and> isWriting (tc_chan c') \<and>
    connectDestroyed c' = Inl AssertFailed"
  by (rule queued_file_rearms [where sz = 100])
     (simp_all add: closed_file_conn_def handleClose_def Let_def log_eff_def isNoneEvent_def
        disableAll_def sample_conn_fields set_node_def two_byte_env_def two_byte_os_def kMaxSendBytes_def)

section \<open>The life cycle\<close>



end
