(* ===== verification/ConnectionPoller.thy ===== *)
theory ConnectionPoller
  imports TcpConnectionLife EpollProps
begin

text \<open>
  A connection (src/xiaoNet/net/inner/TcpConnectionImpl.cpp) with the poller its channel is
  registered in (inner/poller/EpollPoller.cpp): the updates and the removal the connection logs
  are calls of the poller, one after the other.
\<close>

section \<open>The composition\<close>

text \<open>
  \<open>disableAll\<close> changes the channel only, so the poller's copy learns of it when the channel is removed,
  which \<open>connectDestroyed\<close> does with no event enabled.
\<close>

fun poller_effect :: "nat \<Rightarrow> effect \<Rightarrow> Poller \<Rightarrow> Poller res" where
  "poller_effect i (EffUpdate ev) p = channel_update (updateEvents ev) i p"
| "poller_effect i EffRemove p = Channel_remove i (set_chan i (disableAll (pl_chans p i)) p)"
| "poller_effect i _ p = Inr p"

fun poller_effects :: "nat \<Rightarrow> effect list \<Rightarrow> Poller \<Rightarrow> Poller res" where
  "poller_effects i [] p = Inr p"
| "poller_effects i (x # l) p = bind_res (poller_effect i x p) (poller_effects i l)"

text \<open>What a poller has registered of channel \<open>i\<close>, whose descriptor nobody else uses.\<close>

definition registered :: "nat \<Rightarrow> int \<Rightarrow> 32 word option \<Rightarrow> Poller \<Rightarrow> bool" where
  "registered i fd r p \<longleftrightarrow> pl_inv p \<and> ch_fd (pl_chans p i) = fd \<and>
     (case r of
        None \<Rightarrow> ch_index (pl_chans p i) = kNew \<and> pl_channels p fd = None \<and> interest (pl_log p) fd = None
      | Some ev \<Rightarrow> ev \<noteq> kNoneEvent \<and> ch_index (pl_chans p i) = kAdded \<and> interest (pl_log p) fd = Some (ev, i))"

lemma registered_update:
  assumes "registered i fd r p" "0 \<le> fd" "ev \<noteq> kNoneEvent"
  shows "\<exists>p'. poller_effect i (EffUpdate ev) p = Inr p' \<and> registered i fd (Some ev) p'"
proof -
  have p: "pl_inv p" "ch_fd (pl_chans p i) = fd" "ch_index (pl_chans p i) \<noteq> kNew \<or> pl_channels p fd = None"
    using assms(1) by (auto simp: registered_def index_defs split: option.splits)
  obtain p' where r: "channel_update (updateEvents ev) i p = Inr p'" "pl_inv p'"
    "interest (pl_log p') = (interest (pl_log p))(fd := Some (ev, i))"
    using channel_update_step [OF p(1,2) assms(2) p(3), of ev] assms(3) by auto
  then have "ch_fd (pl_chans p' i) = fd \<and> ch_index (pl_chans p' i) = kAdded"
    using pl_invD(4) [OF r(2), of fd i] by auto
  with r assms(3) show ?thesis by (auto simp: registered_def)
qed

lemma remove_keeps_fd:
  "Channel_remove i p = Inr p' \<Longrightarrow> ch_fd (pl_chans p' j) = ch_fd (pl_chans p j)"
  by (auto simp: Channel_remove_def EpollPoller_removeChannel_def EpollPoller_update_def set_chan_def setIndex_def
      Let_def assert_then_Inr_iff split: if_splits)

lemma registered_remove:
  assumes "registered i fd (Some ev) p"
  shows "\<exists>p'. poller_effect i EffRemove p = Inr p' \<and> registered i fd None p'"
proof -
  let ?p = "set_chan i (disableAll (pl_chans p i)) p"
  have p: "pl_inv p" "ch_fd (pl_chans p i) = fd" "ch_index (pl_chans p i) \<noteq> kNew"
    using assms by (auto simp: registered_def index_defs)
  have inv: "pl_inv ?p" using p(1) by (rule pl_inv_set_chan) (simp_all add: channel_ops)
  obtain p' where r: "Channel_remove i ?p = Inr p'" "pl_inv p'"
    "interest (pl_log p') fd = None" "ch_index (pl_chans p' i) = kNew" "pl_channels p' fd = None"
    using Channel_remove_step [OF inv, of i] p by (auto simp: channel_ops isNoneEvent_def)
  moreover have "ch_fd (pl_chans p' i) = fd" using remove_keeps_fd [OF r(1)] p(2) by (simp add: channel_ops)
  ultimately show ?thesis by (simp add: registered_def)
qed

text \<open>A channel that is not registered cannot be removed.\<close>

lemma unregistered_remove:
  assumes "registered i fd None p"
  shows "poller_effect i EffRemove p = Inl AssertFailed"
  using assms
  by (simp add: registered_def Channel_remove_def EpollPoller_removeChannel_def channel_ops isNoneEvent_def Let_def)

lemma registered_effects:
  assumes "registered i fd r p" "0 \<le> fd"
  shows "case kernel_run l r of
      Some r' \<Rightarrow> \<exists>p'. poller_effects i l p = Inr p' \<and> registered i fd r' p'
    | None \<Rightarrow> (\<forall>x\<in>set l. x \<noteq> EffUpdate kNoneEvent) \<longrightarrow> poller_effects i l p = Inl AssertFailed"
  using assms(1)
proof (induction l r arbitrary: p rule: kernel_run.induct)
  case (2 ev l r)
  then show ?case using registered_update [OF "2.prems" assms(2), of ev] by (auto split: option.splits)
next
  case (3 l r)
  show ?case
  proof (cases r)
    case None
    with "3.prems" unregistered_remove [of i fd p] show ?thesis by simp
  next
    case (Some ev)
    with registered_remove [of i fd ev p] "3.prems" "3.IH" show ?thesis by (auto split: option.splits)
  qed
qed (auto split: option.splits)

section \<open>What a connection logs\<close>

definition removals :: "'w conn \<Rightarrow> nat" where
  "removals c = count_list (tc_log c) EffRemove"

text \<open>
  An open connection is in step with the poller; a closed one stays registered until its channel is
  removed, and can be removed once.
\<close>

definition reg_inv :: "'w conn \<Rightarrow> bool" where
  "reg_inv c \<longleftrightarrow>
     (tc_status c = Connecting \<longrightarrow> kernel_run (tc_log c) None = Some None \<and> removals c = 0) \<and>
     (conn_active c \<longrightarrow> in_step c \<and> removals c = 0) \<and>
     (tc_status c = Disconnected \<longrightarrow>
        (removals c = 0 \<longrightarrow> (\<exists>ev. kernel_run (tc_log c) None = Some (Some ev))) \<and>
        (removals c = 1 \<longrightarrow> kernel_run (tc_log c) None = Some None) \<and>
        (1 < removals c \<longrightarrow> kernel_run (tc_log c) None = None))"

lemma removals_cb: "removals c = count_list (cb_log c) EffRemove"
proof -
  have "count_list l EffRemove = count_list (filter is_cb l) EffRemove" for l
    by (induction l) auto
  then show ?thesis by (simp add: removals_def cb_log_def)
qed

lemma reg_active:
  "conn_active c \<Longrightarrow> reg_inv c \<longleftrightarrow> in_step c \<and> removals c = 0"
  by (simp add: reg_inv_def) (auto simp: conn_active_def)

lemma reg_frame:
  assumes "reg_inv c" "frame c c'" "conn_active c"
  shows "reg_inv c'"
proof -
  have "conn_active c'" "removals c' = removals c" "in_step c \<longrightarrow> in_step c'"
    using assms(2,3) by (simp_all add: frame_def conn_active_def removals_cb)
  with assms(1,3) show ?thesis by (simp add: reg_active)
qed

text \<open>Closing logs callbacks only.\<close>

lemma logged:
  assumes "x \<noteq> EffRemove" "\<forall>ev. x \<noteq> EffUpdate ev"
  shows "kernel_run (l @ [x]) None = kernel_run l None" "count_list (l @ [x]) EffRemove = count_list l EffRemove"
proof -
  have "kernel_run [x] r = Some r" for r using assms by (cases x) simp_all
  then show "kernel_run (l @ [x]) None = kernel_run l None"
    by (cases "kernel_run l None") (simp_all add: kernel_run_append)
  show "count_list (l @ [x]) EffRemove = count_list l EffRemove" using assms(1) by simp
qed

lemma close_log:
  "kernel_run (tc_log (handleClose c)) None = kernel_run (tc_log c) None"
  "removals (handleClose c) = removals c" "tc_status (handleClose c) = Disconnected"
  by (simp_all add: handleClose_def Let_def log_eff_def removals_def logged del: append_assoc)

lemma extendLife_log:
  "kernel_run (tc_log (extendLife e c)) None = kernel_run (tc_log c) None"
  "removals (extendLife e c) = removals c" "tc_status (extendLife e c) = tc_status c"
proof -
  let ?u = "c\<lparr>tc_lastWheelUpdate := env_now e (tc_world c)\<rparr>"
  have "extendLife e c = c \<or> extendLife e c = ?u \<or>
      extendLife e c = log_eff (EffWheelInsert (tc_idleTimeout c) (the (tc_kickoffEntry c))) ?u"
    by (cases "tc_kickoffEntry c") (auto simp: extendLife_def Let_def)
  then show "kernel_run (tc_log (extendLife e c)) None = kernel_run (tc_log c) None"
    "removals (extendLife e c) = removals c" "tc_status (extendLife e c) = tc_status c"
    by (auto simp: log_eff_def removals_def logged)
qed

lemma reg_close:
  assumes "reg_inv c" "conn_active c"
  shows "reg_inv (handleClose c)" "reg_inv (extendLife e (handleClose c))"
  using assms by (auto simp: reg_inv_def close_log extendLife_log in_step_def conn_active_def)

lemma readCallback_cases:
  assumes "readCallback e r c = Inr c'"
  shows "frame c c' \<or> (\<exists>d. frame c d \<and> (c' = handleClose d \<or> c' = extendLife e (handleClose d)))"
proof -
  obtain n ret b where rd: "readFd r 0 (tc_readBuffer c) = Inr (n, ret, b)"
    using assms by (auto simp: readCallback_def res_simps)
  define er where "er = (case r of ReadvError err \<Rightarrow> err | ReadvBytes bs \<Rightarrow> tc_errno c)"
  define d where "d = c\<lparr>tc_readBuffer := b, tc_errno := er\<rparr>"
  have fd: "frame c d" by (simp add: frame_defs d_def)
  have received: "frame c (if tc_recvCb x then log_eff (EffRecvCb bs) (x\<lparr>tc_readBuffer := b', tc_world := w\<rparr>) else x)"
    if "frame c x" for x bs b' w
    using that by (simp add: frame_def log_eff_def cb_log_def)
  have more: "frame c ((extendLife e d)\<lparr>tc_bytesReceived := m\<rparr>)" for m
    using frame_trans [OF fd frame_extendLife [of d e]] by (simp add: frame_def cb_log_def)
  consider "n < 0" | "n = 0" | "0 < n" by linarith
  then show ?thesis
  proof cases
    case 1
    then have "c' = d \<or> c' = handleClose d"
      using assms rd by (auto simp: readCallback_def simp flip: er_def d_def split: if_splits)
    then show ?thesis using fd by blast
  next
    case 2
    then have "c' = extendLife e (handleClose d)"
      using assms rd by (simp add: readCallback_def flip: er_def d_def)
    then show ?thesis using fd by blast
  next
    case 3
    let ?x = "(extendLife e d)\<lparr>tc_bytesReceived := sz_add (tc_bytesReceived (extendLife e d)) (nat n)\<rparr>"
    from 3 assms rd obtain bs b' w where
      "c' = (if tc_recvCb ?x then log_eff (EffRecvCb bs) (?x\<lparr>tc_readBuffer := b', tc_world := w\<rparr>) else ?x)"
      by (auto simp: readCallback_def Let_def simp flip: er_def d_def split: if_splits prod.splits)
    then show ?thesis using received [OF more] by simp
  qed
qed

lemma reg_readCallback:
  assumes "life_inv c" "reg_inv c" "conn_active c" "readCallback e r c = Inr c'"
  shows "reg_inv c'"
  using readCallback_cases [OF assms(4)] reg_frame [OF assms(2) _ assms(3)] life_frame [OF assms(1) _ assms(3)]
    reg_close by metis

lemma reg_callbacks:
  assumes "life_inv c" "reg_inv c" "distinct cbs" "\<not> (ReadCb \<in> set cbs \<and> CloseCb \<in> set cbs)"
    "conn_active c \<or> (ReadCb \<notin> set cbs \<and> CloseCb \<notin> set cbs)" "run_callbacks k e r cbs c = Inr c'"
  shows "reg_inv c'"
  using assms
proof (induction cbs arbitrary: c)
  case (Cons cb cbs)
  then obtain d where d: "run_callback k e r cb c = Inr d" "run_callbacks k e r cbs d = Inr c'"
    by (auto simp: res_simps)
  have ran: "run_callbacks k e r [cb] c = Inr d" using d(1) by simp
  have life: "life_inv d"
    by (rule life_callbacks [OF Cons.prems(1) _ _ _ ran]) (use Cons.prems in auto)
  have open': "\<not> tc_closeOnEmpty c" using Cons.prems(1) by (simp add: life_inv_def)
  have step: "reg_inv d \<and> (conn_active d \<or> ReadCb \<notin> set cbs \<and> CloseCb \<notin> set cbs)"
  proof (cases cb)
    case ReadCb
    with Cons.prems d reg_readCallback [of c e r d] show ?thesis by auto
  next
    case CloseCb
    with Cons.prems d reg_close(1) [of c] show ?thesis by auto
  next
    case WriteCb
    then have w: "writeCallback k e c = Inr d" using d by simp
    show ?thesis
    proof (cases "conn_active c")
      case True
      note f = frame_writeCallback [OF w open']
      from reg_frame [OF Cons.prems(2) f True] life_frame [OF Cons.prems(1) f True] show ?thesis by simp
    next
      case False
      with life_inert [OF Cons.prems(1)] w have "d = c" by (simp add: writeCallback_def)
      with Cons.prems False show ?thesis by auto
    qed
  qed (use Cons.prems d in auto)
  show ?case
    by (rule Cons.IH [OF life _ _ _ _ d(2)]) (use step Cons.prems in auto)
qed simp

section \<open>Every step\<close>

lemma reg_new:
  "TcpConnectionImpl_new False fd w = Inr c \<Longrightarrow>
   reg_inv (c\<lparr>tc_connectionCb := True, tc_closeCb := True, tc_recvCb := rc\<rparr>)"
  by (auto simp: TcpConnectionImpl_new_def reg_inv_def removals_def conn_active_def res_simps)

lemma reg_establish:
  assumes "life_inv c" "reg_inv c" "connectEstablished True c = Inr c'"
  shows "reg_inv c'"
proof -
  have st: "tc_status c = Connecting" using assms(3)
    by (auto simp: connectEstablished_def connectEstablishedInLoop_def res_simps)
  then have ev: "ch_events (tc_chan c) = kNoneEvent" using assms(1)
    by (simp add: life_inv_def conn_active_def isNoneEvent_def)
  have bit: "bit (kNoneEvent OR kReadEvent) 0" by (simp add: bit_simps bit_kReadEvent)
  then have "kNoneEvent OR kReadEvent \<noteq> kNoneEvent" by (auto simp: kNoneEvent_def)
  define d where "d = upd_chan enableReading (c\<lparr>tc_chan := tie (tc_chan c)\<rparr>)"
  have d: "in_step d" "removals d = removals c" "tc_connectionCb d"
    using st ev bit assms(1,2) \<open>kNoneEvent OR kReadEvent \<noteq> kNoneEvent\<close>
    by (simp_all add: d_def upd_chan_def log_eff_def in_step_def removals_def kernel_run_append enableReading_def
        tie_def reg_inv_def life_inv_def)
  have "c' = log_eff (EffConnectionCb Connected) (d\<lparr>tc_status := Connected\<rparr>)"
    using assms(3) d(3) st by (simp add: connectEstablished_def connectEstablishedInLoop_def Let_def flip: d_def)
  with d st assms(2) show ?thesis
    by (simp add: reg_inv_def conn_active_def log_eff_def in_step_def removals_def logged)
qed

lemma reg_destroyed:
  assumes "life_inv c" "reg_inv c" "tc_status c = Connected \<or> tc_status c = Disconnected"
    "connectDestroyed c = Inr c'"
  shows "reg_inv c'"
proof -
  define d where "d = (if tc_status c = Connected
    then log_eff (EffConnectionCb Disconnected) (c\<lparr>tc_status := Disconnected, tc_chan := disableAll (tc_chan c)\<rparr>)
    else c)"
  have c': "c' = log_eff EffRemove d"
    using assms(1,4) by (auto simp: connectDestroyed_def d_def life_inv_def res_simps Let_def split: if_splits)
  have same: "kernel_run (tc_log d) None = kernel_run (tc_log c) None" "removals d = removals c"
    "tc_status d = Disconnected"
    using assms(3) by (cases "kernel_run (tc_log c) None";
      auto simp: d_def log_eff_def kernel_run_append removals_def)+
  have "reg_inv d"
    using assms(2,3) by (auto simp: reg_inv_def same conn_active_def in_step_def)
  then show ?thesis
    using same(3) by (cases "kernel_run (tc_log d) None")
      (auto simp: c' reg_inv_def log_eff_def kernel_run_append removals_def conn_active_def Suc_lessI)
qed

lemma reg_step:
  assumes "life_inv c" "reg_inv c" "conn_step k e c c'"
  shows "reg_inv c'"
  using assms(3,1,2)
proof cases
  case step_establish
  then show ?thesis using reg_establish assms(1,2) by blast
next
  case (step_send bs)
  then have s: "sendInLoop e bs c = Inr c'" by (simp add: TcpConnection_send_def)
  show ?thesis
  proof (cases "tc_status c = Connected")
    case True
    then show ?thesis using reg_frame [OF assms(2) frame_sendInLoop [OF s]] by (simp add: conn_active_def)
  next
    case False
    then show ?thesis using s assms(2) by (simp add: sendInLoop_def)
  qed
next
  case (step_sendFile fd sz off len)
  then show ?thesis using reg_frame [OF assms(2) frame_sendFile] by (simp add: conn_active_def)
next
  case (step_sendStream cb)
  then show ?thesis using reg_frame [OF assms(2) frame_sendStream] by (simp add: conn_active_def)
next
  case step_shutdown
  then show ?thesis using assms(2)
    by (auto simp: TcpConnection_shutdown_def shutdownInLoop_def reg_inv_def Let_def log_eff_def conn_active_def
        in_step_def removals_def kernel_run_append)
next
  case step_forceClose
  have "handleClose (c\<lparr>tc_status := Disconnecting\<rparr>) = handleClose c" by (simp add: handleClose_def Let_def)
  with step_forceClose reg_close(1) [OF assms(2)] assms(2) show ?thesis
    by (auto simp: TcpConnection_forceClose_def forceCloseInLoop_def conn_active_def)
next
  case (step_event alive revents r)
  let ?c = "c\<lparr>tc_chan := setRevents revents (tc_chan c)\<rparr>"
  let ?cbs = "handleEvent alive (tc_chan ?c)"
  have inv: "life_inv ?c" "reg_inv ?c" and act: "conn_active ?c = conn_active c"
    using assms(1,2)
    by (simp_all add: life_inv_def reg_inv_def in_step_def removals_def cb_log_def conn_active_def isNoneEvent_def
        setRevents_def)
  have "conn_active ?c \<or> ?cbs = []"
    using inv(1) by (auto simp: life_inv_def isNoneEvent_def handleEvent_def)
  then have "conn_active ?c \<or> ReadCb \<notin> set ?cbs \<and> CloseCb \<notin> set ?cbs" by auto
  moreover have "run_callbacks k e r ?cbs ?c = Inr c'"
    using step_event(2) by (simp add: conn_handleEvent_def)
  moreover have "\<not> (ReadCb \<in> set ?cbs \<and> CloseCb \<in> set ?cbs)"
    using step_event(1) by (simp add: Let_def)
  ultimately show ?thesis using reg_callbacks [OF inv distinct_handleEvent] by blast
next
  case step_destroyed
  then show ?thesis using reg_destroyed [OF assms(1,2)] by blast
qed

lemma conn_reach_reg: "conn_reach k e c \<Longrightarrow> reg_inv c"
  by (induction rule: conn_reach.induct) (auto intro: reg_new reg_step conn_reach_life)

section \<open>The property\<close>


lemma fresh_registered: "registered i fd None (EpollPoller_new (\<lambda>_. Channel_new fd))"
proof -
  have idx: "\<forall>j. ch_index (Channel_new fd) = kNew" by (simp add: Channel_new_def kNew_def)
  have "ch_fd (Channel_new fd) = fd" by (simp add: Channel_new_def)
  with idx new_inv [of "\<lambda>_. Channel_new fd"] show ?thesis
    by (simp add: registered_def EpollPoller_new_def)
qed


text \<open>Destroying a connection twice fails an assertion of the poller.\<close>

lemma destroyed_twice:
  assumes "conn_reach k e c" "registered i fd None p" "0 \<le> fd" "1 < removals c"
    "EffUpdate kNoneEvent \<notin> set (tc_log c)"
  shows "poller_effects i (tc_log c) p = Inl AssertFailed"
proof -
  have "reg_inv c" "life_inv c" using assms(1) by (auto intro: conn_reach_reg conn_reach_life)
  then have "kernel_run (tc_log c) None = None"
    using assms(4) by (cases "tc_status c") (auto simp: reg_inv_def conn_active_def)
  with registered_effects [OF assms(2,3), of "tc_log c"] assms(5) show ?thesis by (auto split: option.splits)
qed

end
