(* ===== verification/ConnectionAccess.thy ===== *)
theory ConnectionAccess
  imports TcpConnection
begin

text \<open>
  What a user and the server set and ask of a connection without changing what it does:
  src/xiaoNet/net/TcpConnection.h and the inline functions of inner/TcpConnectionImpl.h.
\<close>

section \<open>Callbacks\<close>

text \<open>A callback is its presence; what is given is not empty.\<close>

definition setRecvMsgCallback :: "'w conn \<Rightarrow> 'w conn" where
  "setRecvMsgCallback c = c\<lparr>tc_recvCb := True\<rparr>"

definition conn_setConnectionCallback :: "'w conn \<Rightarrow> 'w conn" where
  "conn_setConnectionCallback c = c\<lparr>tc_connectionCb := True\<rparr>"

definition conn_setCloseCallback :: "'w conn \<Rightarrow> 'w conn" where
  "conn_setCloseCallback c = c\<lparr>tc_closeCb := True\<rparr>"

definition setHighWaterMarkCallback :: "nat \<Rightarrow> 'w conn \<Rightarrow> 'w conn" where
  "setHighWaterMarkCallback markLen c = c\<lparr>tc_highWaterCb := True, tc_highWaterMarkLen := markLen\<rparr>"

section \<open>Questions\<close>

definition conn_connected :: "'w conn \<Rightarrow> bool" where
  "conn_connected c \<longleftrightarrow> tc_status c = Connected"

definition conn_disconnected :: "'w conn \<Rightarrow> bool" where
  "conn_disconnected c \<longleftrightarrow> tc_status c = Disconnected"

definition conn_bytesSent :: "'w conn \<Rightarrow> nat" where
  "conn_bytesSent c = tc_bytesSent c"

definition conn_bytesReceived :: "'w conn \<Rightarrow> nat" where
  "conn_bytesReceived c = tc_bytesReceived c"

text \<open>There is never a TLS provider.\<close>

definition isSSLConnection :: "'w conn \<Rightarrow> bool" where
  "isSSLConnection c \<longleftrightarrow> False"

definition getRecvBuffer :: "'w conn \<Rightarrow> MsgBuffer" where
  "getRecvBuffer c = tc_readBuffer c"

text \<open>
  \<open>isKeepAlive\<close> is documented to tell whether \<open>keepAlive\<close> was called, but is true of every
  connection without an idle timeout, and of one whose timeout an asynchronous stream suspends.
\<close>

lemma keepAlive_uncalled:
  "TcpConnectionImpl_new policy fd w = Inr c \<Longrightarrow> isKeepAlive c"
  "sendAsyncStream e True True c = (i, c') \<Longrightarrow> isKeepAlive c'"
  by (auto simp: TcpConnectionImpl_new_def bind_res_Inr_iff isKeepAlive_def sendAsyncStream_def disable_kickoff_def
      new_node_def push_node_def Let_def split: if_splits)

section \<open>User data\<close>

text \<open>\<open>contextPtr_\<close> is the user's object, if any.\<close>

definition setContext :: "'c \<Rightarrow> 'c option \<Rightarrow> 'c option" where
  "setContext x ctx = Some x"

definition getContext :: "'c option \<Rightarrow> 'c option" where
  "getContext ctx = ctx"

definition hasContext :: "'c option \<Rightarrow> bool" where
  "hasContext ctx \<longleftrightarrow> ctx \<noteq> None"

definition clearContext :: "'c option \<Rightarrow> 'c option" where
  "clearContext ctx = None"

lemma context_laws [simp]:
  "getContext (setContext x ctx) = Some x" "hasContext (setContext x ctx)"
  "\<not> hasContext (clearContext ctx)" "hasContext ctx \<longleftrightarrow> getContext ctx \<noteq> None"
  by (simp_all add: getContext_def setContext_def hasContext_def clearContext_def)

end
