(* ===== verification/AsyncStream.thy ===== *)
theory AsyncStream
  imports TcpConnection
begin

text \<open>
  The stream object \<open>sendAsyncStream\<close> gives its caller: src/xiaoNet/net/AsyncStream.h and
  \<open>AsyncStreamImpl\<close> in src/xiaoNet/net/inner/TcpConnectionImpl.cpp. It holds a closure over the
  connection and the node, until it is closed or destroyed.
\<close>

section \<open>The object\<close>

text \<open>\<open>as_callback\<close> is the node the closure sends to, or none once it was cleared.\<close>

record async_stream =
  as_callback :: "nat option"

definition AsyncStreamImpl_new :: "nat \<Rightarrow> async_stream" where
  "AsyncStreamImpl_new i = \<lparr>as_callback = Some i\<rparr>"

text \<open>
  The closure, with its weak pointer to the connection: nothing is sent when the connection is
  gone. An empty \<open>std::function\<close> throws.
\<close>

definition stream_callback :: "'w env \<Rightarrow> bool \<Rightarrow> bool \<Rightarrow> byte list option \<Rightarrow> async_stream \<Rightarrow> 'w conn \<Rightarrow>
    (bool \<times> 'w conn) res" where
  "stream_callback e alive inLoop data s c =
     (case as_callback s of
        None \<Rightarrow> Inl RuntimeError
      | Some i \<Rightarrow> if alive then asyncStream_send e inLoop i data c else Inr (False, c))"

definition AsyncStream_send :: "'w env \<Rightarrow> bool \<Rightarrow> bool \<Rightarrow> byte list \<Rightarrow> async_stream \<Rightarrow> 'w conn \<Rightarrow>
    (bool \<times> 'w conn) res" where
  "AsyncStream_send e alive inLoop data s c = stream_callback e alive inLoop (Some data) s c"

definition AsyncStream_close :: "'w env \<Rightarrow> bool \<Rightarrow> bool \<Rightarrow> async_stream \<Rightarrow> 'w conn \<Rightarrow>
    (async_stream \<times> 'w conn) res" where
  "AsyncStream_close e alive inLoop s c =
     bind_res (stream_callback e alive inLoop None s c) (\<lambda>(ok, c). Inr (s\<lparr>as_callback := None\<rparr>, c))"

definition AsyncStream_destroy :: "'w env \<Rightarrow> bool \<Rightarrow> bool \<Rightarrow> async_stream \<Rightarrow> 'w conn \<Rightarrow> 'w conn res" where
  "AsyncStream_destroy e alive inLoop s c =
     (if as_callback s \<noteq> None
      then bind_res (stream_callback e alive inLoop None s c) (\<lambda>(ok, c). Inr c) else Inr c)"

section \<open>The end of a stream\<close>

lemma stream_close_result:
  assumes "as_callback s = Some i"
  shows "\<exists>c'. AsyncStream_close e alive inLoop s c = Inr (s\<lparr>as_callback := None\<rparr>, c') \<and>
    AsyncStream_destroy e alive inLoop s c = Inr c' \<and>
    (if alive \<and> tc_status c = Connected \<and> inLoop then nd_isDone (tc_nodes c' i)
     else if alive \<and> tc_status c = Connected then tc_tasks c' = tc_tasks c @ [TaskAsyncData i None]
     else c' = c)"
  using assms
  by (auto simp: AsyncStream_close_def AsyncStream_destroy_def stream_callback_def asyncStream_send_def
      sendAsyncDataInLoop_def Let_def queue_task_def node_done_def set_node_def upd_chan_def log_eff_def new_entry_def)

text \<open>
  A stream is closed once: by \<open>close\<close> or, without it, by its destructor, with the same effect. After
  \<open>close\<close> the destructor does nothing, and a second \<open>close\<close> and every \<open>send\<close> throw.
\<close>

theorem stream_closed_once:
  assumes "as_callback s = Some i" "AsyncStream_close e alive inLoop s c = Inr (s', c')"
  shows "AsyncStream_destroy e alive inLoop s c = Inr c' \<and>
    (\<forall>c2. AsyncStream_destroy e alive2 inLoop2 s' c2 = Inr c2 \<and>
       AsyncStream_close e alive2 inLoop2 s' c2 = Inl RuntimeError \<and>
       AsyncStream_send e alive2 inLoop2 data s' c2 = Inl RuntimeError)"
proof -
  from stream_close_result [OF assms(1), of e alive inLoop c] assms(2)
  have "s' = s\<lparr>as_callback := None\<rparr>" "AsyncStream_destroy e alive inLoop s c = Inr c'" by auto
  then show ?thesis
    by (simp add: AsyncStream_destroy_def AsyncStream_close_def AsyncStream_send_def stream_callback_def)
qed

section \<open>Order\<close>

text \<open>
  While an earlier node waits, the chunks of a stream gather in its node in the order they are
  sent, and data sent after the stream was opened go to a node behind it.
\<close>

lemma chunk_gathers:
  assumes "tc_status c = Connected" "as_callback s = Some i" "hd (tc_writeList c) \<noteq> i" "bs \<noteq> []"
    and "kind_wf (nd_kind (tc_nodes c i))" "node_isAsync (tc_nodes c i)" "length bs \<le> alloc_max"
    and "nd_kind (tc_nodes c i) \<noteq> AsyncNode None"
  shows "AsyncStream_send e True True bs s c = Inl AllocError \<or>
    (\<exists>c'. AsyncStream_send e True True bs s c = Inr (True, c') \<and>
       node_bytes (tc_nodes c' i) = node_bytes (tc_nodes c i) @ bs \<and> kind_wf (nd_kind (tc_nodes c' i)) \<and>
       tc_writeList c' = tc_writeList c \<and> tc_log c' = tc_log c)"
proof -
  obtain b where b: "nd_kind (tc_nodes c i) = AsyncNode (Some b)" "mb_wf b"
    using assms(5,6,8) by (auto simp: node_isAsync_def split: node_kind.splits)
  from append_result [OF b(2) assms(7)] consider "MsgBuffer_append b bs = Inl AllocError"
    | b' where "MsgBuffer_append b bs = Inr b'" "mb_wf b'" "mb_content b' = mb_content b @ bs" by blast
  then show ?thesis
    by cases (use assms(1-4) b in \<open>auto simp: AsyncStream_send_def stream_callback_def asyncStream_send_def
      sendAsyncDataInLoop_def Let_def node_append_def set_node_def\<close>)
qed

end
