(* ===== verification/NodeLifetime.thy ===== *)
theory NodeLifetime
  imports BufferNode
begin

text \<open>
  What the nodes of a write list own, and how it is given back: the descriptor of a file node
  (src/xiaoNet/net/inner/FileBufferNodeUnix.cpp) and the callback of a stream node
  (StreamBufferNode.cpp), which is told with a null pointer that it will not be asked again.
\<close>

text \<open>The descriptors the constructor of a file node closes, with the arguments of \<open>newFileBufferNode\<close>.\<close>

definition file_constructor_closes :: "int \<Rightarrow> int option \<Rightarrow> int \<Rightarrow> int \<Rightarrow> int list" where
  "file_constructor_closes fd st_size offset len =
     (if fd < 0 then []
      else case st_size of
        None \<Rightarrow> [fd]
      | Some fsize \<Rightarrow>
          if len = 0 then (if fsize < offset then [fd] else [])
          else if fsize - offset < len then [fd] else [])"

definition file_destroy :: "int \<Rightarrow> int list" where
  "file_destroy fd = (if 0 \<le> fd then [fd] else [])"

definition stream_destroy :: "nat \<Rightarrow> nat list" where
  "stream_destroy cb = [cb]"

text \<open>The descriptors a node closes and the callbacks it tells when it is destroyed.\<close>

definition node_destroy :: "BufferNode \<Rightarrow> int list \<times> nat list" where
  "node_destroy nd =
     (case nd_kind nd of
        FileNode fd n buf \<Rightarrow> (file_destroy fd, [])
      | StreamNode cb b \<Rightarrow> ([], stream_destroy cb)
      | _ \<Rightarrow> ([], []))"

text \<open>A descriptor that was opened is closed once, by the constructor or by the destructor.\<close>

theorem file_closed_once:
  assumes "newFileBufferNode fd st_size offset len = Inr nd" "0 \<le> fd"
  shows "file_constructor_closes fd st_size offset len @ fst (node_destroy nd) = [fd]"
    and "node_available nd \<longleftrightarrow> file_constructor_closes fd st_size offset len = []"
  using assms
  by (auto simp: newFileBufferNode_def assert_then_def failed_file_def file_constructor_closes_def
      node_destroy_def file_destroy_def node_available_def split: if_splits option.splits)

text \<open>The operations on a node leave its descriptor and its callback alone.\<close>

lemma node_ops_keep:
  "node_destroy (node_done nd) = node_destroy nd"
  "node_retrieve nd len = Inr nd' \<Longrightarrow> node_destroy nd' = node_destroy nd"
  "node_append nd bs = Inr nd' \<Longrightarrow> node_destroy nd' = node_destroy nd"
  by (auto simp: node_destroy_def node_done_def node_retrieve_def node_append_def bind_res_Inr_iff
      split: node_kind.splits option.splits)

lemma stream_getData_keeps:
  "stream_getData os cb b isdone w = Inr (data, nd, w') \<Longrightarrow> node_destroy nd = ([], [cb])"
  by (auto simp: stream_getData_def bind_res_Inr_iff node_destroy_def stream_destroy_def)

lemma file_getData_keeps:
  "file_getData os fd n buf isdone w = Inr (data, nd, w') \<Longrightarrow> node_destroy nd = (file_destroy fd, [])"
  by (auto simp: file_getData_def Let_def bind_res_Inr_iff node_destroy_def)

lemma getData_keeps:
  assumes "node_getData os nd w = Inr (data, nd', w')"
  shows "node_destroy nd' = node_destroy nd"
proof (cases "nd_kind nd")
  case (StreamNode cb b)
  with assms have "stream_getData os cb b (nd_isDone nd) w = Inr (data, nd', w')"
    by (simp add: node_getData_def)
  from stream_getData_keeps [OF this] show ?thesis by (simp add: node_destroy_def [of nd] StreamNode stream_destroy_def)
next
  case (FileNode fd n buf)
  with assms have "file_getData os fd n buf (nd_isDone nd) w = Inr (data, nd', w')"
    by (simp add: node_getData_def)
  from file_getData_keeps [OF this] show ?thesis by (simp add: node_destroy_def [of nd] FileNode)
qed (use assms in \<open>auto simp: node_getData_def bind_res_Inr_iff split: option.splits\<close>)

end
