(* ===== verification/TimingWheel.thy ===== *)
theory TimingWheel
  imports Prelude
begin

text \<open>
  The timing wheel of src/xiaoNet/utils/TimingWheel.h and TimingWheel.cpp: several wheels of
  buckets, each turning once per revolution of the one below, that drop the references they hold.
  A user's entry is a number; it is destroyed, and so takes effect, when the last reference to it
  goes away. The entry that carries another one to a lower wheel is a \<open>CallbackEntry\<close>, held in
  one bucket only. The division of a delay by the tick interval is in \<open>float\<close>; its result
  \<open>static_cast<size_t>(delay / ticksInterval_ + 1)\<close> is the parameter \<open>ticks\<close>. The order in which a
  bucket destroys its entries is the order of insertion here, unspecified in the code.
\<close>

section \<open>State\<close>

datatype wheel_entry = User nat | Cascade nat nat nat wheel_entry

type_synonym wheels = "wheel_entry list list list"

record TimingWheel =
  tw_wheels :: wheels
  tw_ticksCounter :: nat
  tw_wheelsNum :: nat
  tw_bucketsNum :: nat
  tw_fired :: "(nat \<times> nat) list"

text \<open>
  The loop of the constructor that counts the wheels; the product wraps, so it may run for ever
  and has a bound.
\<close>

fun count_wheels :: "nat \<Rightarrow> nat \<Rightarrow> nat \<Rightarrow> nat \<Rightarrow> nat \<Rightarrow> nat res" where
  "count_wheels 0 maxTickNum buckets ticksNum num = Inl OutOfFuel"
| "count_wheels (Suc k) maxTickNum buckets ticksNum num =
     (if ticksNum < maxTickNum
      then count_wheels k maxTickNum buckets (sz_mul ticksNum buckets) (Suc num)
      else Inr num)"

definition TimingWheel_new :: "nat \<Rightarrow> nat \<Rightarrow> nat \<Rightarrow> bool \<Rightarrow> nat \<Rightarrow> TimingWheel res" where
  "TimingWheel_new fuel maxTimeout maxTickNum intervalPositive buckets =
     assert_then (1 < maxTimeout) (assert_then intervalPositive (assert_then (1 < buckets)
       (bind_res (count_wheels fuel maxTickNum buckets buckets 1)
          (\<lambda>num. Inr \<lparr>tw_wheels = replicate num (replicate buckets []), tw_ticksCounter = 0,
             tw_wheelsNum = num, tw_bucketsNum = buckets, tw_fired = []\<rparr>))))"

section \<open>Operations\<close>

text \<open>The user's entry an entry carries.\<close>

primrec user_of :: "wheel_entry \<Rightarrow> nat" where
  "user_of (User n) = n"
| "user_of (Cascade delay i t e) = user_of e"

text \<open>\<open>unordered_set::insert\<close>: a pointer already there is not added; a new object always is.\<close>

definition bucket_insert :: "wheel_entry \<Rightarrow> wheel_entry list \<Rightarrow> wheel_entry list" where
  "bucket_insert e b = (case e of User n \<Rightarrow> if e \<in> set b then b else b @ [e] | _ \<Rightarrow> b @ [e])"

definition wheel_insert :: "nat \<Rightarrow> nat \<Rightarrow> wheel_entry \<Rightarrow> wheels \<Rightarrow> wheels" where
  "wheel_insert i k e ws = ws[i := (ws ! i)[k := bucket_insert e (ws ! i ! k)]]"

definition users_of :: "wheels \<Rightarrow> nat set" where
  "users_of ws = user_of ` set (concat (concat ws))"

text \<open>
  The destruction of a bucket's entries, one after the other. A user's entry that is still held
  in a wheel or further on in the bucket lives on; otherwise it is destroyed at tick \<open>now\<close>. A
  carrying entry puts its load on the wheel below.
\<close>

function release :: "nat \<Rightarrow> nat \<Rightarrow> wheel_entry list \<Rightarrow> wheels \<Rightarrow> (nat \<times> nat) list \<Rightarrow>
    wheels \<times> (nat \<times> nat) list" where
  "release N now [] ws fired = (ws, fired)"
| "release N now (User n # es) ws fired =
     release N now es ws
       (if n \<in> users_of ws \<or> n \<in> user_of ` set es then fired else fired @ [(n, now)])"
| "release N now (Cascade delay i t e # es) ws fired =
     (if 0 < delay
      then release N now es (wheel_insert i ((delay + t mod N - 1) mod N) e ws) fired
      else release N now (e # es) ws fired)"
  by pat_completeness auto
termination
  by (relation "measure (\<lambda>(N, now, es, ws, fired). size_list size es)") auto

text \<open>The timer callback: \<open>t\<close> is the new counter, \<open>pow\<close> the period of wheel \<open>i\<close> in ticks.\<close>

fun tick_loop :: "nat \<Rightarrow> nat \<Rightarrow> nat \<Rightarrow> nat \<Rightarrow> nat \<Rightarrow> wheels \<Rightarrow> (nat \<times> nat) list \<Rightarrow>
    wheels \<times> (nat \<times> nat) list" where
  "tick_loop N t pow i 0 ws fired = (ws, fired)"
| "tick_loop N t pow i (Suc r) ws fired =
     (let (ws, fired) =
        (if t mod pow = 0
         then release N t (hd (ws ! i)) (ws[i := tl (ws ! i) @ [[]]]) fired
         else (ws, fired))
      in tick_loop N t (sz_mul pow N) (Suc i) r ws fired)"

definition TimingWheel_tick :: "TimingWheel \<Rightarrow> TimingWheel" where
  "TimingWheel_tick w =
     (let t = sz_add (tw_ticksCounter w) 1;
          (ws, fired) = tick_loop (tw_bucketsNum w) t 1 0 (tw_wheelsNum w) (tw_wheels w) (tw_fired w)
      in w\<lparr>tw_ticksCounter := t, tw_wheels := ws, tw_fired := fired\<rparr>)"

fun insert_loop :: "nat \<Rightarrow> nat \<Rightarrow> nat \<Rightarrow> nat \<Rightarrow> nat \<Rightarrow> nat \<Rightarrow> wheel_entry \<Rightarrow> wheels \<Rightarrow> wheels" where
  "insert_loop N num 0 i delay t e ws = ws"
| "insert_loop N num (Suc r) i delay t e ws =
     (if delay \<le> N then wheel_insert i (delay - 1) e ws
      else
        (let (e, ws) = (if i < num - 1 then (Cascade delay i t e, ws)
                        else (e, wheel_insert i (N - 1) e ws))
         in insert_loop N num r (Suc i) ((delay + t mod N - 1) div N) (t div N) e ws))"

definition insertEntryInloop :: "(nat \<Rightarrow> nat) \<Rightarrow> nat \<Rightarrow> nat \<Rightarrow> TimingWheel \<Rightarrow> TimingWheel" where
  "insertEntryInloop ticks delay n w =
     w\<lparr>tw_wheels := insert_loop (tw_bucketsNum w) (tw_wheelsNum w) (tw_wheelsNum w) 0 (ticks delay)
                      (tw_ticksCounter w) (User n) (tw_wheels w)\<rparr>"

text \<open>\<open>insertEntry\<close> in the loop thread; a null entry is ignored.\<close>

definition insertEntry :: "(nat \<Rightarrow> nat) \<Rightarrow> nat \<Rightarrow> nat option \<Rightarrow> TimingWheel \<Rightarrow> TimingWheel" where
  "insertEntry ticks delay entry w =
     (case entry of None \<Rightarrow> w | Some n \<Rightarrow> insertEntryInloop ticks delay n w)"

text \<open>
  The destructor clears the wheels from the highest; what a carrying entry puts on the wheel
  below goes with that one.
\<close>

fun clear_wheels :: "nat \<Rightarrow> nat \<Rightarrow> nat \<Rightarrow> wheels \<Rightarrow> (nat \<times> nat) list \<Rightarrow> wheels \<times> (nat \<times> nat) list" where
  "clear_wheels N now 0 ws fired = (ws, fired)"
| "clear_wheels N now (Suc i) ws fired =
     (let (ws, fired) = release N now (concat (ws ! i)) (ws[i := []]) fired
      in clear_wheels N now i ws fired)"

definition TimingWheel_destroy :: "TimingWheel \<Rightarrow> TimingWheel" where
  "TimingWheel_destroy w =
     (let (ws, fired) = clear_wheels (tw_bucketsNum w) (tw_ticksCounter w) (tw_wheelsNum w)
                          (tw_wheels w) (tw_fired w)
      in w\<lparr>tw_wheels := ws, tw_fired := fired\<rparr>)"

end
