(* ===== verification/WheelProps.thy ===== *)
theory WheelProps
  imports TimingWheel
begin

text \<open>
  The timing wheel implements a schedule: every insertion sets a deadline, and an entry is
  destroyed at the tick of the last of its deadlines, exactly.
\<close>

section \<open>Deadlines\<close>

text \<open>
  The tick at which bucket \<open>k\<close> of wheel \<open>i\<close> is released, seen from tick \<open>c\<close>, and the tick at
  which the user's entry inside an entry released at \<open>T\<close> is.
\<close>

definition rel :: "nat \<Rightarrow> nat \<Rightarrow> nat \<Rightarrow> nat \<Rightarrow> nat" where
  "rel N c i k = (c div N ^ i + k + 1) * N ^ i"

primrec expiry :: "nat \<Rightarrow> nat \<Rightarrow> wheel_entry \<Rightarrow> nat" where
  "expiry N T (User n) = T"
| "expiry N T (Cascade d j t e) = expiry N (rel N T j ((d + t mod N - 1) mod N)) e"

text \<open>A carrying entry sits one wheel above the one it names.\<close>

primrec entry_ok :: "nat \<Rightarrow> wheel_entry \<Rightarrow> bool" where
  "entry_ok i (User n) = True"
| "entry_ok i (Cascade d j t e) = (i = Suc j \<and> 0 < d \<and> entry_ok j e)"

definition shape :: "nat \<Rightarrow> nat \<Rightarrow> wheels \<Rightarrow> bool" where
  "shape N num ws \<longleftrightarrow> length ws = num \<and>
     (\<forall>i<num. length (ws ! i) = N \<and> (\<forall>k<N. \<forall>e\<in>set (ws ! i ! k). entry_ok i e))"

text \<open>The deadlines held in the wheels; \<open>f i\<close> is the tick wheel \<open>i\<close> has been turned to.\<close>

definition deadlines :: "nat \<Rightarrow> nat \<Rightarrow> (nat \<Rightarrow> nat) \<Rightarrow> wheels \<Rightarrow> (nat \<times> nat) set" where
  "deadlines N num f ws =
     {(user_of e, expiry N (rel N (f i) i k) e) | i k e. i < num \<and> k < N \<and> e \<in> set (ws ! i ! k)}"

lemma rel_after:
  assumes "0 < N" shows "c < rel N c i k"
proof -
  have "c < (c div N ^ i + 1) * N ^ i"
    using assms by (metis Suc_eq_plus1 dividend_less_div_times mult.commute mult_Suc_right zero_less_power add.commute mult_Suc)
  also have "\<dots> \<le> rel N c i k" unfolding rel_def by (intro mult_right_mono) simp_all
  finally show ?thesis .
qed

lemma expiry_after: "0 < N \<Longrightarrow> T \<le> expiry N T e"
proof (induction e arbitrary: T)
  case (Cascade d j t e)
  have "T < rel N T j ((d + t mod N - 1) mod N)" by (rule rel_after [OF Cascade.prems])
  with Cascade.IH [OF Cascade.prems] show ?case by (simp, meson less_imp_le_nat order_trans)
qed simp

lemma deadlines_after:
  assumes "0 < N" "(n, T) \<in> deadlines N num (\<lambda>_. c) ws"
  shows "c < T"
  using assms(2) unfolding deadlines_def
  by (auto intro: less_le_trans [OF rel_after [OF assms(1)] expiry_after [OF assms(1)]])

lemma shapeD:
  assumes "shape N num ws"
  shows "length ws = num" "i < num \<Longrightarrow> length (ws ! i) = N"
    "i < num \<Longrightarrow> k < N \<Longrightarrow> e \<in> set (ws ! i ! k) \<Longrightarrow> entry_ok i e"
  using assms unfolding shape_def by blast+

lemma users_deadlines:
  assumes "shape N num ws"
  shows "users_of ws = fst ` deadlines N num f ws"
proof
  show "users_of ws \<subseteq> fst ` deadlines N num f ws"
    unfolding users_of_def deadlines_def using shapeD(1,2) [OF assms]
    by (force simp: in_set_conv_nth image_iff)
  show "fst ` deadlines N num f ws \<subseteq> users_of ws"
    unfolding users_of_def deadlines_def using shapeD(1,2) [OF assms]
    by (fastforce simp: in_set_conv_nth image_iff)
qed

lemma bucket_insert_set [simp]: "set (bucket_insert e b) = insert e (set b)"
  by (auto simp: bucket_insert_def split: wheel_entry.split)

lemma wheel_insert_bucket:
  assumes "shape N num ws" "j < num" "k < N" "i < num" "l < N"
  shows "wheel_insert j k e ws ! i ! l = (if i = j \<and> l = k then bucket_insert e (ws ! j ! k) else ws ! i ! l)"
  using assms by (simp add: wheel_insert_def shapeD nth_list_update)

lemma wheel_insert_shape:
  assumes "shape N num ws" "j < num" "k < N" "entry_ok j e"
  shows "shape N num (wheel_insert j k e ws)"
  unfolding shape_def
proof (intro conjI allI impI ballI)
  show "length (wheel_insert j k e ws) = num" by (simp add: wheel_insert_def shapeD [OF assms(1)])
  show "length (wheel_insert j k e ws ! i) = N" if "i < num" for i
    using that assms(2) shapeD [OF assms(1)] by (simp add: wheel_insert_def nth_list_update)
  show "entry_ok i x" if "i < num" "l < N" "x \<in> set (wheel_insert j k e ws ! i ! l)" for i l x
    using that wheel_insert_bucket [OF assms(1-3) that(1,2), of e] shapeD(3) [OF assms(1) that(1,2)] assms(4)
    by (auto split: if_splits)
qed

lemma wheel_insert_deadlines:
  assumes "shape N num ws" "j < num" "k < N"
  shows "deadlines N num f (wheel_insert j k e ws) =
    insert (user_of e, expiry N (rel N (f j) j k) e) (deadlines N num f ws)"
proof -
  have "e' \<in> set (wheel_insert j k e ws ! i ! l) \<longleftrightarrow> e' \<in> set (ws ! i ! l) \<or> (i = j \<and> l = k \<and> e' = e)"
    if "i < num" "l < N" for e' i l
    using wheel_insert_bucket [OF assms that, of e] by auto
  then show ?thesis unfolding deadlines_def using assms(2,3) by blast
qed

section \<open>Releasing a bucket\<close>

definition cascaded :: "nat \<Rightarrow> nat \<Rightarrow> wheel_entry list \<Rightarrow> (nat \<times> nat) set" where
  "cascaded N T es = {(user_of e, expiry N T e) | e. e \<in> set es \<and> (\<nexists>n. e = User n)}"

lemma release_result:
  assumes "shape N num ws" "\<forall>e\<in>set es. entry_ok i e" "i < num" "0 < N" "\<And>j. j < i \<Longrightarrow> f j = T"
  shows "\<exists>ws' new. release N T es ws fired = (ws', fired @ new) \<and> shape N num ws' \<and>
    deadlines N num f ws' = deadlines N num f ws \<union> cascaded N T es \<and>
    set new = {(n, T) | n. User n \<in> set es \<and> n \<notin> fst ` deadlines N num f ws'}"
  using assms(1,2)
proof (induction es arbitrary: ws fired)
  case Nil
  then show ?case by (auto simp: cascaded_def)
next
  case (Cons e es)
  show ?case
  proof (cases e)
    case (User n)
    define fired1 where "fired1 = (if n \<in> users_of ws \<or> n \<in> user_of ` set es then fired else fired @ [(n, T)])"
    obtain ws' new where r: "release N T es ws fired1 = (ws', fired1 @ new)" "shape N num ws'"
      "deadlines N num f ws' = deadlines N num f ws \<union> cascaded N T es"
      "set new = {(n, T) | n. User n \<in> set es \<and> n \<notin> fst ` deadlines N num f ws'}"
      using Cons.IH [OF Cons.prems(1), of fired1] Cons.prems(2) by auto
    have held: "n \<in> users_of ws \<longleftrightarrow> n \<in> fst ` deadlines N num f ws"
      using users_deadlines [OF Cons.prems(1)] by blast
    have later: "n \<in> user_of ` set es \<longleftrightarrow> User n \<in> set es \<or> n \<in> fst ` cascaded N T es"
    proof
      assume "n \<in> user_of ` set es"
      then obtain x where "x \<in> set es" "user_of x = n" by blast
      then show "User n \<in> set es \<or> n \<in> fst ` cascaded N T es"
        by (cases x) (force simp: cascaded_def image_iff)+
    qed (force simp: cascaded_def image_iff)
    have casc: "cascaded N T (e # es) = cascaded N T es" using User by (auto simp: cascaded_def)
    define fresh where "fresh = (if n \<in> users_of ws \<or> n \<in> user_of ` set es then [] else [(n, T)])"
    have f1: "fired1 = fired @ fresh" by (simp add: fired1_def fresh_def)
    have "release N T (e # es) ws fired = (ws', fired @ fresh @ new)"
    proof -
      have "release N T (e # es) ws fired = release N T es ws fired1"
        by (simp only: User release.simps fired1_def)
      then show ?thesis using r(1) f1 by simp
    qed
    moreover have "set (fresh @ new) = {(n, T) | n. User n \<in> set (e # es) \<and> n \<notin> fst ` deadlines N num f ws'}"
      using held later r(3,4) User by (auto simp: fresh_def image_Un)
    ultimately show ?thesis using r(2,3) casc by blast
  next
    case (Cascade d j t x)
    then have ok: "i = Suc j" "0 < d" "entry_ok j x" "j < num" using Cons.prems(2) assms(3) by auto
    let ?k = "(d + t mod N - 1) mod N"
    have k: "?k < N" using assms(4) by simp
    let ?ws = "wheel_insert j ?k x ws"
    have sh: "shape N num ?ws" by (rule wheel_insert_shape [OF Cons.prems(1) ok(4) k ok(3)])
    obtain ws' new where r: "release N T es ?ws fired = (ws', fired @ new)" "shape N num ws'"
      "deadlines N num f ws' = deadlines N num f ?ws \<union> cascaded N T es"
      "set new = {(n, T) | n. User n \<in> set es \<and> n \<notin> fst ` deadlines N num f ws'}"
      using Cons.IH [OF sh, of fired] Cons.prems(2) by auto
    have "deadlines N num f ?ws = insert (user_of x, expiry N (rel N T j ?k) x) (deadlines N num f ws)"
      using wheel_insert_deadlines [OF Cons.prems(1) ok(4) k, of f x] assms(5) [of j] ok(1) by simp
    moreover have "cascaded N T (e # es) = insert (user_of x, expiry N (rel N T j ?k) x) (cascaded N T es)"
    proof -
      have "cascaded N T (e # es) = insert (user_of e, expiry N T e) (cascaded N T es)"
        unfolding cascaded_def using Cascade by fastforce
      then show ?thesis using Cascade by simp
    qed
    ultimately have "deadlines N num f ws' = deadlines N num f ws \<union> cascaded N T (e # es)"
      using r(3) by simp
    moreover have "release N T (e # es) ws fired = (ws', fired @ new)" using r(1) ok Cascade by simp
    ultimately show ?thesis using r(2,4) Cascade by auto
  qed
qed

section \<open>One tick\<close>

text \<open>A wheel whose turn it is not: its deadlines read the same from the next tick.\<close>

lemma div_Suc_same:
  fixes c M :: nat
  assumes "Suc c mod M \<noteq> 0" shows "Suc c div M = c div M"
  using assms by (simp add: div_Suc)

lemma div_Suc_next:
  fixes c M :: nat
  assumes "Suc c mod M = 0" "0 < M" shows "Suc c div M = Suc (c div M)" "(c div M + 1) * M = Suc c"
proof -
  show "Suc c div M = Suc (c div M)" using assms by (simp add: div_Suc)
  then show "(c div M + 1) * M = Suc c" using div_mult_mod_eq [of "Suc c" M] assms(1) by simp
qed

lemma turn_deadlines_same:
  assumes "Suc c mod N ^ i \<noteq> 0" "f i = c"
  shows "deadlines N num (f(i := Suc c)) ws = deadlines N num f ws"
proof -
  have "rel N (Suc c) i k = rel N c i k" for k
    using div_Suc_same [OF assms(1)] by (simp add: rel_def)
  then have "rel N ((f(i := Suc c)) l) l k = rel N (f l) l k" for l k using assms(2) by simp
  then show ?thesis unfolding deadlines_def by simp
qed

lemma turn_deadlines:
  assumes sh: "shape N num ws" and i: "i < num" and N: "0 < N" and turn: "Suc c mod N ^ i = 0" "f i = c"
  shows "shape N num (ws[i := tl (ws ! i) @ [[]]])"
    "deadlines N num f ws = deadlines N num (f(i := Suc c)) (ws[i := tl (ws ! i) @ [[]]]) \<union>
       {(user_of e, expiry N (Suc c) e) | e. e \<in> set (hd (ws ! i))}"
    "\<forall>e\<in>set (hd (ws ! i)). entry_ok i e"
proof -
  let ?ws = "ws[i := tl (ws ! i) @ [[]]]"
  have len: "length (ws ! i) = N" and lws: "length ws = num" using shapeD(1,2) [OF sh] i by auto
  have "ws ! i \<noteq> []" using len N by auto
  then have hd: "hd (ws ! i) = ws ! i ! 0" by (rule hd_conv_nth)
  have bucket: "?ws ! l ! k = (if l = i then (if Suc k < N then ws ! i ! Suc k else []) else ws ! l ! k)"
    if "l < num" "k < N" for l k
    using that len lws i by (auto simp: nth_append nth_tl nth_list_update)
  show "\<forall>e\<in>set (hd (ws ! i)). entry_ok i e" using shapeD(3) [OF sh i N] by (simp add: hd)
  show "shape N num ?ws"
    unfolding shape_def
  proof (intro conjI allI impI ballI)
    show "length ?ws = num" using lws by simp
    show "length (?ws ! l) = N" if "l < num" for l
      using that shapeD(2) [OF sh that] lws N len i by (cases "l = i") auto
    show "entry_ok l e" if "l < num" "k < N" "e \<in> set (?ws ! l ! k)" for l k e
      using that bucket [OF that(1,2)] shapeD(3) [OF sh] by (auto split: if_splits)
  qed
  have M: "0 < N ^ i" using N by simp
  note d = div_Suc_next [OF turn(1) M]
  have shift: "rel N c i (Suc k) = rel N (Suc c) i k" and front: "rel N c i 0 = Suc c" for k
    using d by (simp_all add: rel_def)
  show "deadlines N num f ws = deadlines N num (f(i := Suc c)) ?ws \<union>
       {(user_of e, expiry N (Suc c) e) | e. e \<in> set (hd (ws ! i))}" (is "?L = ?R1 \<union> ?R2")
  proof (intro equalityI subsetI)
    fix p assume "p \<in> ?L"
    then obtain l k e where p: "p = (user_of e, expiry N (rel N (f l) l k) e)" "l < num" "k < N"
      "e \<in> set (ws ! l ! k)" unfolding deadlines_def by blast
    show "p \<in> ?R1 \<union> ?R2"
    proof (cases "l = i")
      case False
      then have "e \<in> set (?ws ! l ! k)" using bucket [OF p(2,3)] p(4) by simp
      then have "p \<in> ?R1" unfolding deadlines_def using p False by fastforce
      then show ?thesis by blast
    next
      case True
      show ?thesis
      proof (cases k)
        case 0
        then show ?thesis using p True turn(2) front hd by auto
      next
        case (Suc k')
        then have "e \<in> set (?ws ! i ! k')" "k' < N" using bucket [OF i, of k'] p True by auto
        then have "p \<in> ?R1" unfolding deadlines_def using p True i Suc turn(2) shift by fastforce
        then show ?thesis by blast
      qed
    qed
  next
    fix p assume "p \<in> ?R1 \<union> ?R2"
    then show "p \<in> ?L"
    proof
      assume "p \<in> ?R2"
      then obtain e where e: "p = (user_of e, expiry N (Suc c) e)" "e \<in> set (ws ! i ! 0)" by (auto simp: hd)
      then have "p = (user_of e, expiry N (rel N (f i) i 0) e)" using turn(2) front by simp
      then show ?thesis unfolding deadlines_def using i N e(2) by blast
    next
      assume "p \<in> ?R1"
      then obtain l k e where p: "p = (user_of e, expiry N (rel N ((f(i := Suc c)) l) l k) e)" "l < num"
        "k < N" "e \<in> set (?ws ! l ! k)" unfolding deadlines_def by blast
      show ?thesis
      proof (cases "l = i")
        case False
        then show ?thesis unfolding deadlines_def using p bucket [OF p(2,3)] by auto
      next
        case True
        then have "Suc k < N" "e \<in> set (ws ! i ! Suc k)"
          using p bucket [OF p(2,3)] by (auto split: if_splits)
        then show ?thesis unfolding deadlines_def using p True i turn(2) shift [of k, symmetric]
          by (simp, blast)
      qed
    qed
  qed
qed

lemma tick_loop_result:
  assumes "shape N num ws" "0 < N" "i + r = num" "N ^ (num - 1) < sz_modulus"
    and f: "\<And>l. f l = (if l < i then Suc c else c)" and pow: "0 < r \<Longrightarrow> pow = N ^ i"
  shows "\<exists>ws' new R. tick_loop N (Suc c) pow i r ws fired = (ws', fired @ new) \<and> shape N num ws' \<and>
    deadlines N num f ws = deadlines N num (\<lambda>l. if l < num then Suc c else c) ws' \<union> R \<times> {Suc c} \<and>
    set new = {(n, Suc c) | n. n \<in> R \<and> n \<notin> fst ` deadlines N num (\<lambda>l. if l < num then Suc c else c) ws'}"
  using assms(1,3) f pow
proof (induction r arbitrary: i pow ws fired f)
  case 0
  then have "f = (\<lambda>l. if l < num then Suc c else c)" by (simp add: fun_eq_iff)
  then show ?case using 0(1) by (intro exI [of _ ws] exI [of _ "[]"] exI [of _ "{}"]) simp
next
  case (Suc r)
  let ?f = "f(i := Suc c)"
  have i: "i < num" and pow: "pow = N ^ i" using Suc.prems by auto
  have f': "?f l = (if l < Suc i then Suc c else c)" for l using Suc.prems(3) by auto
  have fi: "f i = c" using Suc.prems(3) by simp
  have pow': "sz_mul pow N = N ^ Suc i" if "0 < r"
  proof -
    have "N ^ Suc i \<le> N ^ (num - 1)" using that Suc.prems(2) assms(2) by (intro power_increasing) auto
    then show ?thesis using assms(4) pow by (simp add: sz_mul_exact mult.commute)
  qed
  define F where "F = (\<lambda>l. if l < num then Suc c else c)"
  have step: "Suc i + r = num" using Suc.prems(2) by simp
  show ?case
  proof (cases "Suc c mod pow = 0")
    case False
    obtain ws' new R where IH: "tick_loop N (Suc c) (sz_mul pow N) (Suc i) r ws fired = (ws', fired @ new)"
      "shape N num ws'" "deadlines N num ?f ws = deadlines N num F ws' \<union> R \<times> {Suc c}"
      "set new = {(n, Suc c) | n. n \<in> R \<and> n \<notin> fst ` deadlines N num F ws'}"
      using Suc.IH [where f = ?f and fired = fired, OF Suc.prems(1) step f' pow', folded F_def] by blast
    moreover have "deadlines N num ?f ws = deadlines N num f ws"
      using turn_deadlines_same [where f = f, OF _ fi] False pow by simp
    ultimately show ?thesis using False unfolding F_def [symmetric] by auto
  next
    case True
    let ?ws = "ws[i := tl (ws ! i) @ [[]]]" and ?es = "hd (ws ! i)"
    note turn = turn_deadlines [where f = f, OF Suc.prems(1) i assms(2) True [unfolded pow] fi]
    obtain ws1 new1 where rel: "release N (Suc c) ?es ?ws fired = (ws1, fired @ new1)" "shape N num ws1"
      "deadlines N num ?f ws1 = deadlines N num ?f ?ws \<union> cascaded N (Suc c) ?es"
      "set new1 = {(n, Suc c) | n. User n \<in> set ?es \<and> n \<notin> fst ` deadlines N num ?f ws1}"
      using release_result [OF turn(1,3) i assms(2), of ?f "Suc c" fired] Suc.prems(3) by auto
    obtain ws' new R where IH: "tick_loop N (Suc c) (sz_mul pow N) (Suc i) r ws1 (fired @ new1) =
        (ws', (fired @ new1) @ new)"
      "shape N num ws'" "deadlines N num ?f ws1 = deadlines N num F ws' \<union> R \<times> {Suc c}"
      "set new = {(n, Suc c) | n. n \<in> R \<and> n \<notin> fst ` deadlines N num F ws'}"
      using Suc.IH [where f = ?f and fired = "fired @ new1", OF rel(2) step f' pow', folded F_def] by blast
    define R1 where "R1 = {n. User n \<in> set ?es}"
    have split: "{(user_of e, expiry N (Suc c) e) | e. e \<in> set ?es} = R1 \<times> {Suc c} \<union> cascaded N (Suc c) ?es"
    proof (intro equalityI subsetI)
      fix p assume "p \<in> {(user_of e, expiry N (Suc c) e) | e. e \<in> set ?es}"
      then obtain e where e: "p = (user_of e, expiry N (Suc c) e)" "e \<in> set ?es" by blast
      show "p \<in> R1 \<times> {Suc c} \<union> cascaded N (Suc c) ?es"
      proof (cases e)
        case (User n)
        then show ?thesis using e by (simp add: R1_def)
      next
        case (Cascade d j t x)
        then have "p \<in> cascaded N (Suc c) ?es" unfolding cascaded_def using e by blast
        then show ?thesis by blast
      qed
    next
      fix p assume "p \<in> R1 \<times> {Suc c} \<union> cascaded N (Suc c) ?es"
      then consider n where "p = (n, Suc c)" "User n \<in> set ?es"
        | e where "p = (user_of e, expiry N (Suc c) e)" "e \<in> set ?es"
        unfolding R1_def cascaded_def by blast
      then show "p \<in> {(user_of e, expiry N (Suc c) e) | e. e \<in> set ?es}"
      proof cases
        case (1 n)
        then show ?thesis by (intro CollectI exI [of _ "User n"]) simp
      next
        case (2 e)
        then show ?thesis by (intro CollectI exI [of _ e]) simp
      qed
    qed
    have all: "deadlines N num f ws = deadlines N num F ws' \<union> (R1 \<union> R) \<times> {Suc c}"
      unfolding turn(2) split using rel(3) IH(3) by (simp only: Sigma_Un_distrib1) blast
    have "set (new1 @ new) = {(n, Suc c) | n. n \<in> R1 \<union> R \<and> n \<notin> fst ` deadlines N num F ws'}"
    proof -
      have "fst ` deadlines N num ?f ws1 = fst ` deadlines N num F ws' \<union> R"
        using IH(3) by (auto simp: image_Un)
      then show ?thesis using rel(4) IH(4) by (auto simp: R1_def)
    qed
    moreover have "tick_loop N (Suc c) pow i (Suc r) ws fired = (ws', fired @ new1 @ new)"
      using True rel(1) IH(1) by simp
    ultimately show ?thesis using IH(2) all unfolding F_def [symmetric] by blast
  qed
qed

section \<open>The schedule of a wheel\<close>

definition wheel_inv :: "TimingWheel \<Rightarrow> bool" where
  "wheel_inv w \<longleftrightarrow> 1 < tw_bucketsNum w \<and> 0 < tw_wheelsNum w \<and>
     tw_bucketsNum w ^ (tw_wheelsNum w - 1) < sz_modulus \<and>
     shape (tw_bucketsNum w) (tw_wheelsNum w) (tw_wheels w)"

definition schedule :: "TimingWheel \<Rightarrow> (nat \<times> nat) set" where
  "schedule w = deadlines (tw_bucketsNum w) (tw_wheelsNum w) (\<lambda>_. tw_ticksCounter w) (tw_wheels w)"

lemma deadlines_cong: "(\<And>i. i < num \<Longrightarrow> f i = g i) \<Longrightarrow> deadlines N num f ws = deadlines N num g ws"
proof -
  assume eq: "\<And>i. i < num \<Longrightarrow> f i = g i"
  have "deadlines N num f ws \<subseteq> deadlines N num g ws" if "\<And>i. i < num \<Longrightarrow> f i = g i" for f g :: "nat \<Rightarrow> nat"
    unfolding deadlines_def using that by fastforce
  from this [of f g] this [of g f] eq show ?thesis by simp
qed

lemma tick_result:
  assumes inv: "wheel_inv w" and c: "Suc (tw_ticksCounter w) < sz_modulus"
  shows "wheel_inv (TimingWheel_tick w) \<and>
    tw_bucketsNum (TimingWheel_tick w) = tw_bucketsNum w \<and> tw_wheelsNum (TimingWheel_tick w) = tw_wheelsNum w \<and>
    tw_ticksCounter (TimingWheel_tick w) = Suc (tw_ticksCounter w) \<and>
    schedule (TimingWheel_tick w) = {(n, T) \<in> schedule w. T \<noteq> Suc (tw_ticksCounter w)} \<and>
    set (tw_fired (TimingWheel_tick w)) = set (tw_fired w) \<union>
      {(n, Suc (tw_ticksCounter w)) | n. (n, Suc (tw_ticksCounter w)) \<in> schedule w \<and>
         (\<forall>T. (n, T) \<in> schedule w \<longrightarrow> T = Suc (tw_ticksCounter w))}"
proof -
  let ?N = "tw_bucketsNum w" and ?num = "tw_wheelsNum w" and ?c = "tw_ticksCounter w"
  let ?F = "\<lambda>l. if l < ?num then Suc ?c else ?c"
  have w: "1 < ?N" "0 < ?num" "?N ^ (?num - 1) < sz_modulus" "shape ?N ?num (tw_wheels w)"
    using inv by (auto simp: wheel_inv_def)
  have t: "sz_add ?c 1 = Suc ?c" using c by (simp add: sz_add_exact)
  have N0: "0 < ?N" using w(1) by simp
  obtain ws' new R where r: "tick_loop ?N (Suc ?c) 1 0 ?num (tw_wheels w) (tw_fired w) = (ws', tw_fired w @ new)"
    "shape ?N ?num ws'"
    "deadlines ?N ?num (\<lambda>_. ?c) (tw_wheels w) = deadlines ?N ?num ?F ws' \<union> R \<times> {Suc ?c}"
    "set new = {(n, Suc ?c) | n. n \<in> R \<and> n \<notin> fst ` deadlines ?N ?num ?F ws'}"
    using tick_loop_result [where i = 0 and f = "\<lambda>_. ?c" and pow = 1 and fired = "tw_fired w",
        OF w(4) N0 add_0 w(3)] by (auto simp del: tick_loop.simps)
  have eq: "TimingWheel_tick w = w\<lparr>tw_ticksCounter := Suc ?c, tw_wheels := ws', tw_fired := tw_fired w @ new\<rparr>"
    by (simp only: TimingWheel_tick_def t r(1) Let_def prod.case)
  have "deadlines ?N ?num ?F ws' = deadlines ?N ?num (\<lambda>_. Suc ?c) ws'" by (rule deadlines_cong) simp
  then have split: "schedule w = schedule (TimingWheel_tick w) \<union> R \<times> {Suc ?c}"
    and new: "set new = {(n, Suc ?c) | n. n \<in> R \<and> n \<notin> fst ` schedule (TimingWheel_tick w)}"
    using r(3,4) by (simp_all add: schedule_def eq)
  have later: "T \<noteq> Suc ?c" if "(n, T) \<in> schedule (TimingWheel_tick w)" for n T
    using deadlines_after [OF N0, of n T ?num "Suc ?c" ws'] that by (simp add: schedule_def eq)
  have sched: "schedule (TimingWheel_tick w) = {(n, T) \<in> schedule w. T \<noteq> Suc ?c}"
    using split later by auto
  have "n \<in> R \<and> n \<notin> fst ` schedule (TimingWheel_tick w) \<longleftrightarrow>
      (n, Suc ?c) \<in> schedule w \<and> (\<forall>T. (n, T) \<in> schedule w \<longrightarrow> T = Suc ?c)" for n
    unfolding split using later by force
  then have "set new = {(n, Suc ?c) | n. (n, Suc ?c) \<in> schedule w \<and> (\<forall>T. (n, T) \<in> schedule w \<longrightarrow> T = Suc ?c)}"
    unfolding new by simp
  moreover have "wheel_inv (TimingWheel_tick w)" using w r(2) by (simp add: wheel_inv_def eq)
  ultimately show ?thesis using sched by (simp add: eq)
qed

section \<open>Insertion\<close>

lemma insert_loop_result:
  assumes "shape N num ws" "1 < N" "i + r = num" "0 < r" "entry_ok i e" "t = c div N ^ i"
    "1 \<le> d" "d \<le> N ^ r"
  shows "shape N num (insert_loop N num r i d t e ws) \<and>
    deadlines N num (\<lambda>_. c) (insert_loop N num r i d t e ws) =
      insert (user_of e, expiry N ((c div N ^ i + d) * N ^ i) e) (deadlines N num (\<lambda>_. c) ws)"
  using assms
proof (induction r arbitrary: i d t e ws)
  case (Suc r)
  have i: "i < num" using Suc.prems(3) by simp
  show ?case
  proof (cases "d \<le> N")
    case True
    then have k: "d - 1 < N" using Suc.prems(2,7) by simp
    have "rel N c i (d - 1) = (c div N ^ i + d) * N ^ i" using Suc.prems(7) by (simp add: rel_def)
    then show ?thesis
      using wheel_insert_shape [OF Suc.prems(1) i k Suc.prems(5)]
        wheel_insert_deadlines [OF Suc.prems(1) i k, of "\<lambda>_. c" e] True by simp
  next
    case False
    have r: "0 < r"
    proof (rule ccontr)
      assume "\<not> 0 < r"
      then show False using Suc.prems(8) False by simp
    qed
    let ?e = "Cascade d i t e" and ?d = "(d + t mod N - 1) div N" and ?t = "t div N"
    have lt: "i < num - 1" using r Suc.prems(3) by simp
    have ge1: "1 \<le> ?d"
    proof -
      have "N \<le> d + t mod N - 1" using False by simp
      then show ?thesis using Suc.prems(2) by (simp add: div_greater_zero_iff Suc_leI)
    qed
    have le: "?d \<le> N ^ r"
    proof -
      have "t mod N < N" using Suc.prems(2) by simp
      then have "d + t mod N - 1 < N ^ r * N + N"
        using Suc.prems(8) by (simp add: mult.commute)
      then have "d + t mod N - 1 < (N ^ r + 1) * N" by (simp add: algebra_simps)
      then have "?d < N ^ r + 1" by (simp add: less_mult_imp_div_less)
      then show ?thesis by simp
    qed
    have t': "?t = c div N ^ Suc i"
      unfolding Suc.prems(6) power_Suc2 by (rule div_mult2_eq [symmetric])
    have ok: "entry_ok (Suc i) ?e" using Suc.prems(5,7) by simp
    have IH: "shape N num (insert_loop N num r (Suc i) ?d ?t ?e ws) \<and>
        deadlines N num (\<lambda>_. c) (insert_loop N num r (Suc i) ?d ?t ?e ws) =
        insert (user_of ?e, expiry N ((c div N ^ Suc i + ?d) * N ^ Suc i) ?e) (deadlines N num (\<lambda>_. c) ws)"
      by (rule Suc.IH [OF Suc.prems(1,2) _ r ok t' ge1 le]) (use Suc.prems(3) in simp)
    have "expiry N ((c div N ^ Suc i + ?d) * N ^ Suc i) ?e = expiry N ((c div N ^ i + d) * N ^ i) e"
    proof -
      let ?T = "(c div N ^ Suc i + ?d) * N ^ Suc i"
      have Np: "0 < N ^ i" using Suc.prems(2) by simp
      have "?T div N ^ i = (?t + ?d) * N" using Np t' by simp
      then have "rel N ?T i ((d + t mod N - 1) mod N) = ((?t + ?d) * N + (d + t mod N - 1) mod N + 1) * N ^ i"
        by (simp add: rel_def)
      also have "(?t + ?d) * N + (d + t mod N - 1) mod N + 1 = t + d"
      proof -
        have "?d * N + (d + t mod N - 1) mod N = d + t mod N - 1" by simp
        moreover have "?t * N + t mod N = t" by simp
        ultimately show ?thesis using Suc.prems(7) unfolding add_mult_distrib by linarith
      qed
      finally show ?thesis using Suc.prems(6) by simp
    qed
    moreover have "insert_loop N num (Suc r) i d t e ws = insert_loop N num r (Suc i) ?d ?t ?e ws"
      using False lt by simp
    ultimately show ?thesis using IH by simp
  qed
qed simp

lemma insert_result:
  assumes inv: "wheel_inv w" and d: "1 \<le> ticks delay" "ticks delay \<le> tw_bucketsNum w ^ tw_wheelsNum w"
  shows "wheel_inv (insertEntryInloop ticks delay n w) \<and>
    tw_bucketsNum (insertEntryInloop ticks delay n w) = tw_bucketsNum w \<and>
    tw_wheelsNum (insertEntryInloop ticks delay n w) = tw_wheelsNum w \<and>
    tw_ticksCounter (insertEntryInloop ticks delay n w) = tw_ticksCounter w \<and>
    tw_fired (insertEntryInloop ticks delay n w) = tw_fired w \<and>
    schedule (insertEntryInloop ticks delay n w) =
      insert (n, tw_ticksCounter w + ticks delay) (schedule w)"
  using insert_loop_result [where i = 0 and e = "User n", of "tw_bucketsNum w" "tw_wheelsNum w"
      "tw_wheels w" "tw_wheelsNum w" "tw_ticksCounter w" "tw_ticksCounter w" "ticks delay"] inv d
  by (simp add: wheel_inv_def insertEntryInloop_def schedule_def)

section \<open>Refinement\<close>

datatype wheel_op = Insert nat nat | Tick

fun wheel_run :: "(nat \<Rightarrow> nat) \<Rightarrow> wheel_op list \<Rightarrow> TimingWheel \<Rightarrow> TimingWheel" where
  "wheel_run ticks [] w = w"
| "wheel_run ticks (Insert delay n # ops) w = wheel_run ticks ops (insertEntry ticks delay (Some n) w)"
| "wheel_run ticks (Tick # ops) w = wheel_run ticks ops (TimingWheel_tick w)"

text \<open>
  The specification: the time, the deadlines and the entries destroyed with the time. An entry is
  destroyed when its last deadline passes.
\<close>

type_synonym schedule_state = "nat \<times> (nat \<times> nat) set \<times> (nat \<times> nat) set"

fun schedule_run :: "(nat \<Rightarrow> nat) \<Rightarrow> wheel_op list \<Rightarrow> schedule_state \<Rightarrow> schedule_state" where
  "schedule_run ticks [] s = s"
| "schedule_run ticks (Insert delay n # ops) (now, dl, fired) =
     schedule_run ticks ops (now, insert (n, now + ticks delay) dl, fired)"
| "schedule_run ticks (Tick # ops) (now, dl, fired) =
     schedule_run ticks ops (Suc now, {(n, T) \<in> dl. T \<noteq> Suc now},
       fired \<union> {(n, Suc now) | n. (n, Suc now) \<in> dl \<and> (\<forall>T. (n, T) \<in> dl \<longrightarrow> T = Suc now)})"

definition wheel_abs :: "TimingWheel \<Rightarrow> schedule_state" where
  "wheel_abs w = (tw_ticksCounter w, schedule w, set (tw_fired w))"

fun delays_ok :: "(nat \<Rightarrow> nat) \<Rightarrow> nat \<Rightarrow> wheel_op list \<Rightarrow> bool" where
  "delays_ok ticks cap [] = True"
| "delays_ok ticks cap (Insert delay n # ops) = (1 \<le> ticks delay \<and> ticks delay \<le> cap \<and> delays_ok ticks cap ops)"
| "delays_ok ticks cap (Tick # ops) = delays_ok ticks cap ops"

text \<open>
  C7. The wheels implement the schedule: through any sequence of insertions and ticks, with delays
  of at most \<open>buckets ^ wheels\<close> ticks, an entry inserted for \<open>d\<close> ticks is destroyed at exactly the
  \<open>d\<close>-th tick after, an entry inserted again lives until the last of its deadlines, and nothing
  else is destroyed. In particular the passage from a higher wheel to a lower one costs no tick.
\<close>

theorem wheel_refines_schedule:
  assumes "wheel_inv w" "delays_ok ticks (tw_bucketsNum w ^ tw_wheelsNum w) ops"
    "tw_ticksCounter w + length ops < sz_modulus"
  shows "wheel_inv (wheel_run ticks ops w) \<and>
    wheel_abs (wheel_run ticks ops w) = schedule_run ticks ops (wheel_abs w)"
  using assms
proof (induction ops arbitrary: w)
  case Nil
  then show ?case by simp
next
  case (Cons op ops)
  show ?case
  proof (cases op)
    case (Insert delay n)
    have d: "1 \<le> ticks delay" "ticks delay \<le> tw_bucketsNum w ^ tw_wheelsNum w"
      using Cons.prems(2) Insert by simp_all
    note r = insert_result [where ticks = ticks, OF Cons.prems(1) d, of n]
    show ?thesis using Cons.IH [of "insertEntryInloop ticks delay n w"] r Cons.prems(2,3) Insert
      by (simp add: insertEntry_def wheel_abs_def)
  next
    case Tick
    have "Suc (tw_ticksCounter w) < sz_modulus" using Cons.prems(3) by simp
    note r = tick_result [OF Cons.prems(1) this]
    show ?thesis using Cons.IH [of "TimingWheel_tick w"] r Cons.prems(2,3) Tick
      by (simp add: wheel_abs_def)
  qed
qed

section \<open>The number of wheels\<close>

lemma count_wheels_result:
  assumes "1 < N" "maxTick * N \<le> sz_modulus" "0 < num" "N ^ num < sz_modulus" "64 \<le> k + num" "0 < k"
    "num = 1 \<or> N ^ (num - 1) < maxTick"
  shows "\<exists>m. count_wheels k maxTick N (N ^ num) num = Inr m \<and> maxTick \<le> N ^ m \<and> 0 < m \<and>
    (m = 1 \<or> N ^ (m - 1) < maxTick)"
  using assms(3-)
proof (induction k arbitrary: num)
  case (Suc k)
  show ?case
  proof (cases "N ^ num < maxTick")
    case False
    then show ?thesis using Suc.prems by auto
  next
    case True
    have "N ^ num * N < maxTick * N" using True assms(1) by simp
    then have lt: "N ^ Suc num < sz_modulus" using assms(2) by (simp only: power_Suc2)
    have eq: "sz_mul (N ^ num) N = N ^ Suc num"
      using lt by (simp add: sz_mul_def mult.commute)
    have "(2::nat) ^ Suc num \<le> N ^ Suc num" using assms(1) by (intro power_mono) simp_all
    then have "(2::nat) ^ Suc num < 2 ^ 64" using lt sz_modulus_eq by (metis order_le_less_trans)
    then have "Suc num < 64" by (simp only: power_strict_increasing_iff)
    then have k: "0 < k" "64 \<le> k + Suc num" using Suc.prems by auto
    from Suc.IH [of "Suc num"] k lt True show ?thesis by (simp add: eq)
  qed
qed simp

text \<open>
  C33. The constructor chooses enough wheels and no more: for at least two buckets and a tick
  count whose product with the number of buckets is at most \<open>2\<^sup>6\<^sup>4\<close>, the loop ends within 64
  steps, the result is well-formed and empty, it takes every delay of \<open>maxTickNum\<close> ticks, and
  one wheel fewer would not.
\<close>

theorem wheels_enough:
  assumes "1 < maxTimeout" "1 < N" "N < sz_modulus" "maxTick * N \<le> sz_modulus"
  shows "\<exists>w. TimingWheel_new 64 maxTimeout maxTick True N = Inr w \<and> wheel_inv w \<and> schedule w = {} \<and>
    maxTick \<le> tw_bucketsNum w ^ tw_wheelsNum w \<and>
    (tw_wheelsNum w = 1 \<or> tw_bucketsNum w ^ (tw_wheelsNum w - 1) < maxTick)"
proof -
  obtain m where m: "count_wheels 64 maxTick N N 1 = Inr m" "maxTick \<le> N ^ m" "0 < m"
    "m = 1 \<or> N ^ (m - 1) < maxTick"
    using count_wheels_result [OF assms(2,4), of 1 64] assms(3) by auto
  let ?ws = "replicate m (replicate N ([] :: wheel_entry list))"
  have "maxTick \<le> maxTick * N" using assms(2) by simp
  then have "maxTick \<le> sz_modulus" using assms(4) by linarith
  then have "N ^ (m - 1) < sz_modulus" using m(4) by (elim disjE) simp_all
  moreover have "shape N m ?ws" by (simp add: shape_def)
  moreover have "deadlines N m f ?ws = {}" for f by (auto simp: deadlines_def)
  ultimately show ?thesis using assms m
    by (simp add: TimingWheel_new_def wheel_inv_def schedule_def)
qed

text \<open>
  The loop that counts the wheels need not end: with \<open>2\<^sup>3\<^sup>2\<close> buckets and more than \<open>2\<^sup>3\<^sup>2\<close>
  ticks the product wraps to zero and stays there, so no number of iterations is enough.
\<close>

theorem wheel_count_diverges:
  "TimingWheel_new k 5000000000 5000000000 True 4294967296 = Inl OutOfFuel"
proof -
  have zero: "count_wheels k 5000000000 4294967296 0 num = Inl OutOfFuel" for k num
    by (induction k arbitrary: num) (simp_all add: sz_mul_def)
  have "count_wheels k 5000000000 4294967296 4294967296 1 = Inl OutOfFuel"
    by (cases k) (simp_all add: sz_mul_def zero)
  then show ?thesis by (simp add: TimingWheel_new_def)
qed

section \<open>A concrete wheel\<close>

definition sample_wheel :: TimingWheel where
  "sample_wheel = \<lparr>tw_wheels = [[[], []], [[], []]], tw_ticksCounter = 0, tw_wheelsNum = 2,
     tw_bucketsNum = 2, tw_fired = []\<rparr>"

lemma sample_wheel_inv: "wheel_inv sample_wheel" "schedule sample_wheel = {}"
  by (auto simp: wheel_inv_def sample_wheel_def shape_def schedule_def deadlines_def less_2_cases_iff nth_Cons split: nat.splits)

theorem wheel_refines_schedule_witness:
  "wheel_abs (wheel_run Suc [Insert 2 7, Tick, Tick, Tick] sample_wheel) = (3, {}, {(7, 3)})"
proof -
  have "wheel_abs (wheel_run Suc [Insert 2 7, Tick, Tick, Tick] sample_wheel) =
      schedule_run Suc [Insert 2 7, Tick, Tick, Tick] (wheel_abs sample_wheel)"
    by (rule conjunct2 [OF wheel_refines_schedule [OF sample_wheel_inv(1)]])
       (simp_all add: sample_wheel_def)
  also have "wheel_abs sample_wheel = (0, {}, {})"
    unfolding wheel_abs_def sample_wheel_inv(2) by (simp add: sample_wheel_def)
  also have "schedule_run Suc [Insert 2 7, Tick, Tick, Tick] (0, {}, {}) = (3, {}, {(7, 3)})"
    by auto
  finally show ?thesis .
qed

theorem wheels_enough_witness:
  "\<exists>w. TimingWheel_new 64 500 500 True 100 = Inr w \<and> wheel_inv w \<and> schedule w = {} \<and>
    500 \<le> tw_bucketsNum w ^ tw_wheelsNum w"
  using wheels_enough [of 500 100 500] by auto

end
