(* ===== verification/IdleKickoff.thy ===== *)
theory IdleKickoff
  imports TcpConnection WheelProps
begin

text \<open>
  Idle connections: the connection of TcpConnectionImpl.cpp with the timing wheel that holds its
  kick-off entry (\<open>KickoffEntry\<close> in src/xiaoNet/net/inner/TcpConnectionImpl.h). The world of the
  connection is the wheel and the clock; what the connection inserts goes into the wheel, and the
  entries a tick destroys close the connection they belong to.
\<close>

section \<open>The composition\<close>

text \<open>The clock is in microseconds.\<close>

record idle_world =
  iw_wheel :: TimingWheel
  iw_now :: int

abbreviation idle_wheel :: "idle_world conn \<Rightarrow> TimingWheel" where
  "idle_wheel c \<equiv> iw_wheel (tc_world c)"

abbreviation idle_tick_no :: "idle_world conn \<Rightarrow> nat" where
  "idle_tick_no c \<equiv> tw_ticksCounter (idle_wheel c)"

text \<open>The weak pointers of a connection lead to the wheel and to the entries it holds.\<close>

definition wheel_env :: "idle_world env \<Rightarrow> bool" where
  "wheel_env e \<longleftrightarrow> env_now e = iw_now \<and> (\<forall>d. env_after1 e d = d + 1000000) \<and>
     (\<forall>k w. env_alive e k w \<longleftrightarrow> k \<in> users_of (tw_wheels (iw_wheel w))) \<and> (\<forall>w. env_wheel e w)"

definition wheel_effect :: "(nat \<Rightarrow> nat) \<Rightarrow> effect \<Rightarrow> TimingWheel \<Rightarrow> TimingWheel" where
  "wheel_effect ticks eff w =
     (case eff of EffWheelInsert delay k \<Rightarrow> insertEntry ticks delay (Some k) w | _ \<Rightarrow> w)"

text \<open>What an operation that led from \<open>c\<close> to \<open>c'\<close> inserted goes into the wheel.\<close>

definition hand_over :: "(nat \<Rightarrow> nat) \<Rightarrow> idle_world conn \<Rightarrow> idle_world conn \<Rightarrow> idle_world conn" where
  "hand_over ticks c c' = c'\<lparr>tc_world := (tc_world c')\<lparr>iw_wheel :=
     fold (wheel_effect ticks) (drop (length (tc_log c)) (tc_log c')) (idle_wheel c')\<rparr>\<rparr>"

text \<open>\<open>~KickoffEntry\<close>: the weak pointer of an entry that was reset is empty.\<close>

definition KickoffEntry_destroy :: "nat \<Rightarrow> 'w conn \<Rightarrow> 'w conn" where
  "KickoffEntry_destroy k c = (if k \<in> tc_entryReset c then c else TcpConnection_forceClose True c)"

definition destroy_own :: "nat \<Rightarrow> 'w conn \<Rightarrow> 'w conn" where
  "destroy_own k c = (if k < tc_nextEntry c then KickoffEntry_destroy k c else c)"

text \<open>
  What happens to the wheel: a second passes; the connection is active (every read and write calls
  \<open>extendLife\<close>) at some time; another connection inserts an entry of its own.
\<close>

datatype idle_op = IdleTick | IdleActive int | IdleOther nat nat

definition idle_tick :: "idle_world conn \<Rightarrow> idle_world conn" where
  "idle_tick c =
     (let w = TimingWheel_tick (idle_wheel c);
          gone = map fst (filter (\<lambda>(n, t). t = tw_ticksCounter w) (tw_fired w))
      in fold destroy_own gone (c\<lparr>tc_world := (tc_world c)\<lparr>iw_wheel := w\<rparr>\<rparr>))"

fun idle_do :: "(nat \<Rightarrow> nat) \<Rightarrow> idle_world env \<Rightarrow> idle_op \<Rightarrow> idle_world conn \<Rightarrow> idle_world conn" where
  "idle_do ticks e IdleTick c = idle_tick c"
| "idle_do ticks e (IdleActive now) c =
     (let c = c\<lparr>tc_world := (tc_world c)\<lparr>iw_now := now\<rparr>\<rparr> in hand_over ticks c (extendLife e c))"
| "idle_do ticks e (IdleOther delay n) c =
     c\<lparr>tc_world := (tc_world c)\<lparr>iw_wheel := insertEntry ticks delay (Some n) (idle_wheel c)\<rparr>\<rparr>"

definition idle_run :: "(nat \<Rightarrow> nat) \<Rightarrow> idle_world env \<Rightarrow> idle_op list \<Rightarrow> idle_world conn \<Rightarrow> idle_world conn" where
  "idle_run ticks e ops c = fold (idle_do ticks e) ops c"

text \<open>
  The clock agrees with the ticks: tick \<open>t\<close> comes at \<open>base\<close> plus \<open>t\<close> seconds. Entries of others
  have other numbers, and delays the wheel takes.
\<close>

fun idle_ok :: "(nat \<Rightarrow> nat) \<Rightarrow> nat \<Rightarrow> nat \<Rightarrow> int \<Rightarrow> nat \<Rightarrow> idle_op list \<Rightarrow> bool" where
  "idle_ok ticks cap own base t [] = True"
| "idle_ok ticks cap own base t (IdleTick # ops) = idle_ok ticks cap own base (Suc t) ops"
| "idle_ok ticks cap own base t (IdleActive now # ops) =
     (base + int t * 1000000 \<le> now \<and> now < base + int (Suc t) * 1000000 \<and> idle_ok ticks cap own base t ops)"
| "idle_ok ticks cap own base t (IdleOther delay n # ops) =
     (own \<le> n \<and> 1 \<le> ticks delay \<and> ticks delay \<le> cap \<and> idle_ok ticks cap own base t ops)"

text \<open>The tick after a run and the tick of the last activity before it.\<close>

fun last_active :: "nat \<Rightarrow> nat \<Rightarrow> idle_op list \<Rightarrow> nat \<times> nat" where
  "last_active t a [] = (t, a)"
| "last_active t a (IdleTick # ops) = last_active (Suc t) a ops"
| "last_active t a (IdleActive now # ops) = last_active t t ops"
| "last_active t a (IdleOther delay n # ops) = last_active t a ops"

text \<open>No two activities are \<open>T\<close> ticks apart.\<close>

fun prompt :: "nat \<Rightarrow> nat \<Rightarrow> nat \<Rightarrow> idle_op list \<Rightarrow> bool" where
  "prompt T t a [] = True"
| "prompt T t a (IdleTick # ops) = prompt T (Suc t) a ops"
| "prompt T t a (IdleActive now # ops) = (t < a + T \<and> prompt T t t ops)"
| "prompt T t a (IdleOther delay n # ops) = prompt T t a ops"

section \<open>A tick\<close>

lemma destroy_fields:
  "tc_status (destroy_own k c) =
     (if k < tc_nextEntry c \<and> k \<notin> tc_entryReset c \<and> (tc_status c = Connected \<or> tc_status c = Disconnecting)
      then Disconnected else tc_status c)"
  "tc_nextEntry (destroy_own k c) = tc_nextEntry c" "tc_entryReset (destroy_own k c) = tc_entryReset c"
  "tc_world (destroy_own k c) = tc_world c" "tc_kickoffEntry (destroy_own k c) = tc_kickoffEntry c"
  "tc_idleTimeout (destroy_own k c) = tc_idleTimeout c"
  "tc_lastWheelUpdate (destroy_own k c) = tc_lastWheelUpdate c"
  by (simp_all add: destroy_own_def KickoffEntry_destroy_def TcpConnection_forceClose_def forceCloseInLoop_def
      handleClose_def log_eff_def Let_def)

lemma destroy_all_fields:
  "tc_status (fold destroy_own ks c) =
     (if (\<exists>k\<in>set ks. k < tc_nextEntry c \<and> k \<notin> tc_entryReset c) \<and>
         (tc_status c = Connected \<or> tc_status c = Disconnecting)
      then Disconnected else tc_status c)"
  "tc_nextEntry (fold destroy_own ks c) = tc_nextEntry c"
  "tc_entryReset (fold destroy_own ks c) = tc_entryReset c"
  "tc_world (fold destroy_own ks c) = tc_world c" "tc_kickoffEntry (fold destroy_own ks c) = tc_kickoffEntry c"
  "tc_idleTimeout (fold destroy_own ks c) = tc_idleTimeout c"
  "tc_lastWheelUpdate (fold destroy_own ks c) = tc_lastWheelUpdate c"
  by (induction ks arbitrary: c) (auto simp: destroy_fields)

text \<open>The wheel of a connection, with delays of at most \<open>cap\<close> ticks; only entry \<open>k\<close> is the connection's.\<close>

definition wheel_ok :: "nat \<Rightarrow> nat \<Rightarrow> idle_world conn \<Rightarrow> bool" where
  "wheel_ok cap k c \<longleftrightarrow> wheel_inv (idle_wheel c) \<and> cap = tw_bucketsNum (idle_wheel c) ^ tw_wheelsNum (idle_wheel c) \<and>
     tc_nextEntry c = Suc k \<and> (\<forall>n t. (n, t) \<in> set (tw_fired (idle_wheel c)) \<longrightarrow> t \<le> idle_tick_no c) \<and>
     (\<forall>n t. (n, t) \<in> schedule (idle_wheel c) \<longrightarrow> n < tc_nextEntry c \<longrightarrow> n = k)"

lemma idle_tick_result:
  assumes "wheel_ok cap k c" "Suc (idle_tick_no c) < sz_modulus"
  shows "wheel_ok cap k (idle_tick c)"
    and "idle_tick_no (idle_tick c) = Suc (idle_tick_no c)"
    and "schedule (idle_wheel (idle_tick c)) = {(n, t) \<in> schedule (idle_wheel c). t \<noteq> Suc (idle_tick_no c)}"
    and "tc_nextEntry (idle_tick c) = tc_nextEntry c" "tc_entryReset (idle_tick c) = tc_entryReset c"
      "tc_kickoffEntry (idle_tick c) = tc_kickoffEntry c" "tc_idleTimeout (idle_tick c) = tc_idleTimeout c"
      "tc_lastWheelUpdate (idle_tick c) = tc_lastWheelUpdate c"
    and "tc_status (idle_tick c) =
      (if ((k, Suc (idle_tick_no c)) \<in> schedule (idle_wheel c) \<and>
           (\<forall>t. (k, t) \<in> schedule (idle_wheel c) \<longrightarrow> t = Suc (idle_tick_no c))) \<and> k \<notin> tc_entryReset c \<and>
          (tc_status c = Connected \<or> tc_status c = Disconnecting)
       then Disconnected else tc_status c)"
proof -
  let ?w = "idle_wheel c" and ?w' = "TimingWheel_tick (idle_wheel c)" and ?t = "Suc (idle_tick_no c)"
  let ?gone = "map fst (filter (\<lambda>(n, t). t = tw_ticksCounter ?w') (tw_fired ?w'))"
  have inv: "wheel_inv ?w" using assms(1) by (simp add: wheel_ok_def)
  note r = tick_result [OF inv assms(2)]
  have old: "(n, ?t) \<notin> set (tw_fired ?w)" for n
    using assms(1) unfolding wheel_ok_def by (meson Suc_n_not_le_n)
  have gone: "n \<in> set ?gone \<longleftrightarrow> (n, ?t) \<in> schedule ?w \<and> (\<forall>t. (n, t) \<in> schedule ?w \<longrightarrow> t = ?t)" for n
  proof -
    have "n \<in> set ?gone \<longleftrightarrow> (n, tw_ticksCounter ?w') \<in> set (tw_fired ?w')" by (auto simp: image_iff)
    also have "\<dots> \<longleftrightarrow> (n, ?t) \<in> schedule ?w \<and> (\<forall>t. (n, t) \<in> schedule ?w \<longrightarrow> t = ?t)"
      using r old [of n] by simp
    finally show ?thesis .
  qed
  have own: "n = k" if "(n, ?t) \<in> schedule ?w" "n < tc_nextEntry c" for n
    using assms(1) that by (auto simp: wheel_ok_def)
  have wheel: "idle_wheel (idle_tick c) = ?w'" by (simp add: idle_tick_def Let_def destroy_all_fields)
  have own_next: "tc_nextEntry c = Suc k" and k: "k < tc_nextEntry c" using assms(1) by (simp_all add: wheel_ok_def)
  have mine: "(\<exists>n\<in>set ?gone. n < tc_nextEntry c \<and> n \<notin> tc_entryReset c) \<longleftrightarrow>
      k \<in> set ?gone \<and> k \<notin> tc_entryReset c"
    using own k gone by blast
  have fields: "tc_nextEntry (idle_tick c) = tc_nextEntry c" "tc_entryReset (idle_tick c) = tc_entryReset c"
    "tc_kickoffEntry (idle_tick c) = tc_kickoffEntry c" "tc_idleTimeout (idle_tick c) = tc_idleTimeout c"
    "tc_lastWheelUpdate (idle_tick c) = tc_lastWheelUpdate c"
    by (simp_all add: idle_tick_def Let_def destroy_all_fields)
  have "tc_status (idle_tick c) =
      (if (\<exists>n\<in>set ?gone. n < tc_nextEntry c \<and> n \<notin> tc_entryReset c) \<and>
          (tc_status c = Connected \<or> tc_status c = Disconnecting)
       then Disconnected else tc_status c)"
    unfolding idle_tick_def Let_def destroy_all_fields by auto
  then have status: "tc_status (idle_tick c) =
      (if (k \<in> set ?gone \<and> k \<notin> tc_entryReset c) \<and> (tc_status c = Connected \<or> tc_status c = Disconnecting)
       then Disconnected else tc_status c)"
    by (simp only: mine)
  have "cap = tw_bucketsNum ?w ^ tw_wheelsNum ?w" using assms(1) by (simp add: wheel_ok_def)
  then have cap: "cap = tw_bucketsNum ?w' ^ tw_wheelsNum ?w'" using r by simp
  have past: "t \<le> tw_ticksCounter ?w'" if "(n, t) \<in> set (tw_fired ?w')" for n t
  proof (cases "(n, t) \<in> set (tw_fired ?w)")
    case True
    then have "t \<le> idle_tick_no c" using assms(1) unfolding wheel_ok_def by blast
    with r show ?thesis by simp
  next
    case False
    with that r show ?thesis by auto
  qed
  have kept: "n = k" if "(n, t) \<in> schedule ?w'" "n < tc_nextEntry c" for n t
  proof -
    from that r have "(n, t) \<in> schedule ?w" by simp
    with that(2) assms(1) show ?thesis unfolding wheel_ok_def by blast
  qed
  show "wheel_ok cap k (idle_tick c)"
    unfolding wheel_ok_def wheel fields using conjunct1 [OF r] cap own_next past kept by blast
  show "idle_tick_no (idle_tick c) = ?t"
    "schedule (idle_wheel (idle_tick c)) = {(n, t) \<in> schedule ?w. t \<noteq> ?t}"
    using r by (simp_all only: wheel simp_thms)
  show "tc_nextEntry (idle_tick c) = tc_nextEntry c" "tc_entryReset (idle_tick c) = tc_entryReset c"
    "tc_kickoffEntry (idle_tick c) = tc_kickoffEntry c" "tc_idleTimeout (idle_tick c) = tc_idleTimeout c"
    "tc_lastWheelUpdate (idle_tick c) = tc_lastWheelUpdate c"
    by (rule fields)+
  show "tc_status (idle_tick c) = (if ((k, ?t) \<in> schedule ?w \<and> (\<forall>t. (k, t) \<in> schedule ?w \<longrightarrow> t = ?t)) \<and>
      k \<notin> tc_entryReset c \<and> (tc_status c = Connected \<or> tc_status c = Disconnecting)
    then Disconnected else tc_status c)"
    unfolding status gone by (simp only: conj_assoc)
qed

section \<open>Activity and other connections\<close>

lemma insert_ok:
  assumes "wheel_ok cap k c" "1 \<le> ticks delay" "ticks delay \<le> cap" "n < tc_nextEntry c \<longrightarrow> n = k"
  shows "wheel_ok cap k (c\<lparr>tc_world := (tc_world c)\<lparr>iw_wheel := insertEntry ticks delay (Some n) (idle_wheel c)\<rparr>\<rparr>)"
    (is ?ok) and "schedule (insertEntry ticks delay (Some n) (idle_wheel c)) =
      insert (n, idle_tick_no c + ticks delay) (schedule (idle_wheel c))"
    and "tw_ticksCounter (insertEntry ticks delay (Some n) (idle_wheel c)) = idle_tick_no c"
proof -
  have inv: "wheel_inv (idle_wheel c)" and
    cap: "ticks delay \<le> tw_bucketsNum (idle_wheel c) ^ tw_wheelsNum (idle_wheel c)"
    using assms(1,3) by (simp_all add: wheel_ok_def)
  note r = insert_result [where ticks = ticks, OF inv assms(2) cap, of n]
  then show "schedule (insertEntry ticks delay (Some n) (idle_wheel c)) =
      insert (n, idle_tick_no c + ticks delay) (schedule (idle_wheel c))"
    "tw_ticksCounter (insertEntry ticks delay (Some n) (idle_wheel c)) = idle_tick_no c"
    by (simp_all add: insertEntry_def)
  from r assms(1,4) show ?ok unfolding wheel_ok_def by (auto simp: insertEntry_def)
qed

text \<open>\<open>extendLife\<close> inserts the entry again, unless it did within the last second or the entry is gone.\<close>

lemma extendLife_wheel:
  assumes "wheel_env e" "tc_kickoffEntry c = Some k" "0 < tc_idleTimeout c"
  shows "hand_over ticks c (extendLife e c) =
     (if iw_now (tc_world c) < tc_lastWheelUpdate c + 1000000 then c
      else if k \<in> users_of (tw_wheels (idle_wheel c))
      then c\<lparr>tc_lastWheelUpdate := iw_now (tc_world c), tc_log := tc_log c @ [EffWheelInsert (tc_idleTimeout c) k],
             tc_world := (tc_world c)\<lparr>iw_wheel := insertEntry ticks (tc_idleTimeout c) (Some k) (idle_wheel c)\<rparr>\<rparr>
      else c\<lparr>tc_lastWheelUpdate := iw_now (tc_world c)\<rparr>)"
  using assms by (auto simp: hand_over_def extendLife_def wheel_env_def Let_def log_eff_def wheel_effect_def)

lemma extendLife_kept:
  "tc_idleTimeout c = 0 \<Longrightarrow> hand_over ticks c (extendLife e c) = c"
  by (simp add: hand_over_def extendLife_def)

section \<open>The invariant\<close>

text \<open>
  \<open>a\<close> is the tick of the last activity. An open connection has a last deadline \<open>d\<close>, at most a tick
  from the ideal one, and an activity that inserts nothing comes early enough before it.
\<close>

definition deadline_ok :: "nat \<Rightarrow> int \<Rightarrow> nat \<Rightarrow> nat \<Rightarrow> nat \<Rightarrow> idle_world conn \<Rightarrow> bool" where
  "deadline_ok T base k a d c \<longleftrightarrow> (k, d) \<in> schedule (idle_wheel c) \<and>
     (\<forall>t. (k, t) \<in> schedule (idle_wheel c) \<longrightarrow> t \<le> d) \<and> a + T \<le> d \<and> d \<le> a + T + 1 \<and>
     (\<forall>t\<ge>idle_tick_no c. base + int t * 1000000 < tc_lastWheelUpdate c + 1000000 \<longrightarrow> t + T \<le> d)"

definition idle_inv :: "nat \<Rightarrow> nat \<Rightarrow> int \<Rightarrow> nat \<Rightarrow> nat \<Rightarrow> idle_world conn \<Rightarrow> bool" where
  "idle_inv cap T base k a c \<longleftrightarrow> wheel_ok cap k c \<and> tc_kickoffEntry c = Some k \<and> tc_idleTimeout c = T \<and>
     tc_entryReset c = {} \<and> a \<le> idle_tick_no c \<and>
     (tc_status c = Connected \<and> (\<exists>d. deadline_ok T base k a d c) \<or>
      tc_status c = Disconnected \<and> (\<forall>t. (k, t) \<notin> schedule (idle_wheel c)))"

lemma deadline_future: "wheel_ok cap k c \<Longrightarrow> (n, d) \<in> schedule (idle_wheel c) \<Longrightarrow> idle_tick_no c < d"
  using deadlines_after [of "tw_bucketsNum (idle_wheel c)" n d "tw_wheelsNum (idle_wheel c)" "idle_tick_no c"]
  by (auto simp: wheel_ok_def wheel_inv_def schedule_def)

lemma idle_tick_inv:
  assumes "idle_inv cap T base k a c" "Suc (idle_tick_no c) < sz_modulus"
  shows "idle_inv cap T base k a (idle_tick c)"
    and "Suc (idle_tick_no c) < a + T \<Longrightarrow> tc_status (idle_tick c) = tc_status c"
proof -
  have ok: "wheel_ok cap k c" using assms(1) by (simp add: idle_inv_def)
  note r = idle_tick_result [OF ok assms(2)]
  let ?t = "Suc (idle_tick_no c)"
  note sched = r(3) and status = r(9)
  show "tc_status (idle_tick c) = tc_status c" if "?t < a + T"
  proof (cases "tc_status c = Connected")
    case True
    then obtain d where "(k, d) \<in> schedule (idle_wheel c)" "a + T \<le> d"
      using assms(1) by (auto simp: idle_inv_def deadline_ok_def)
    with that have "\<not> (\<forall>t. (k, t) \<in> schedule (idle_wheel c) \<longrightarrow> t = ?t)" by force
    then show ?thesis by (simp only: status simp_thms if_False)
  next
    case False
    with assms(1) have "(k, ?t) \<notin> schedule (idle_wheel c)" by (auto simp: idle_inv_def)
    then show ?thesis by (simp only: status simp_thms if_False)
  qed
  have deadline: "tc_status c = Connected \<and> (\<exists>d. deadline_ok T base k a d c) \<Longrightarrow>
      (tc_status (idle_tick c) = Connected \<and> (\<exists>d. deadline_ok T base k a d (idle_tick c)) \<or>
       tc_status (idle_tick c) = Disconnected \<and> (\<forall>t. (k, t) \<notin> schedule (idle_wheel (idle_tick c))))"
  proof (elim conjE exE)
    fix d assume st: "tc_status c = Connected" and d: "deadline_ok T base k a d c"
    have mem: "(k, d) \<in> schedule (idle_wheel c)" and le: "\<And>t. (k, t) \<in> schedule (idle_wheel c) \<Longrightarrow> t \<le> d"
      using d by (simp_all add: deadline_ok_def)
    have after: "\<And>t. (k, t) \<in> schedule (idle_wheel c) \<Longrightarrow> ?t \<le> t"
      using deadline_future [OF ok] by (simp add: Suc_leI)
    show ?thesis
    proof (cases "d = ?t")
      case True
      have only: "(k, t) \<in> schedule (idle_wheel c) \<Longrightarrow> t = ?t" for t
        using le [of t] after [of t] True by simp
      have "k \<notin> tc_entryReset c" using assms(1) by (simp add: idle_inv_def)
      moreover have "(k, ?t) \<in> schedule (idle_wheel c)" using mem True by simp
      moreover have "\<forall>t. (k, t) \<in> schedule (idle_wheel c) \<longrightarrow> t = ?t" using only by blast
      ultimately have "tc_status (idle_tick c) = Disconnected" 
        unfolding status using st by (intro if_P) blast
      moreover have "(k, t) \<notin> schedule (idle_wheel (idle_tick c))" for t
        using only [of t] by (auto simp: sched)
      ultimately show ?thesis by blast
    next
      case False
      with mem have "\<not> (\<forall>t. (k, t) \<in> schedule (idle_wheel c) \<longrightarrow> t = ?t)" by blast
      with st have "tc_status (idle_tick c) = Connected" by (simp only: status simp_thms if_False)
      moreover have "deadline_ok T base k a d (idle_tick c)"
        using d False by (auto simp: deadline_ok_def sched r(2,8))
      ultimately show ?thesis by blast
    qed
  qed
  have closed: "tc_status (idle_tick c) = Disconnected \<and> (\<forall>t. (k, t) \<notin> schedule (idle_wheel (idle_tick c)))"
    if "tc_status c = Disconnected" "\<forall>t. (k, t) \<notin> schedule (idle_wheel c)"
    using that by (simp add: sched status)
  have "wheel_ok cap k (idle_tick c)" "idle_tick_no (idle_tick c) = ?t" "tc_kickoffEntry (idle_tick c) = Some k"
    "tc_idleTimeout (idle_tick c) = T" "tc_entryReset (idle_tick c) = {}" "a \<le> ?t"
    using assms(1) by (simp_all add: idle_inv_def r(1,2,5,6,7))
  moreover have "(tc_status (idle_tick c) = Connected \<and> (\<exists>d. deadline_ok T base k a d (idle_tick c)) \<or>
       tc_status (idle_tick c) = Disconnected \<and> (\<forall>t. (k, t) \<notin> schedule (idle_wheel (idle_tick c))))"
    using assms(1) deadline closed unfolding idle_inv_def by blast
  ultimately show "idle_inv cap T base k a (idle_tick c)" unfolding idle_inv_def by simp
qed

lemma idle_active_inv:
  assumes inv: "idle_inv cap T base k a c" and e: "wheel_env e" and T: "0 < T" "ticks T = T + 1" "T + 1 \<le> cap"
    and now: "base + int (idle_tick_no c) * 1000000 \<le> now" "now < base + int (Suc (idle_tick_no c)) * 1000000"
  shows "idle_inv cap T base k (idle_tick_no c) (idle_do ticks e (IdleActive now) c)"
    and "tc_status (idle_do ticks e (IdleActive now) c) = tc_status c"
    and "idle_tick_no (idle_do ticks e (IdleActive now) c) = idle_tick_no c"
proof -
  let ?c = "c\<lparr>tc_world := (tc_world c)\<lparr>iw_now := now\<rparr>\<rparr>" and ?t = "idle_tick_no c"
  have ok: "wheel_ok cap k ?c" "tc_kickoffEntry ?c = Some k" "0 < tc_idleTimeout ?c"
    using inv T(1) by (simp_all add: idle_inv_def wheel_ok_def)
  have w: "wheel_ok cap k c" and idle: "tc_idleTimeout c = T" using inv by (simp_all add: idle_inv_def)
  note run = extendLife_wheel [OF e ok(2,3), of ticks]
  have ins: "wheel_ok cap k (?c\<lparr>tc_world := (tc_world ?c)\<lparr>iw_wheel := insertEntry ticks T (Some k) (idle_wheel ?c)\<rparr>\<rparr>)"
    "schedule (insertEntry ticks T (Some k) (idle_wheel c)) = insert (k, ?t + T + 1) (schedule (idle_wheel c))"
    "tw_ticksCounter (insertEntry ticks T (Some k) (idle_wheel c)) = ?t"
    using insert_ok [OF ok(1), where ticks = ticks and delay = T and n = k] T by simp_all
  have users: "k \<in> users_of (tw_wheels (idle_wheel c)) \<longleftrightarrow> (\<exists>t. (k, t) \<in> schedule (idle_wheel c))"
    using users_deadlines [of "tw_bucketsNum (idle_wheel c)" "tw_wheelsNum (idle_wheel c)"
        "tw_wheels (idle_wheel c)" "\<lambda>_. ?t"] w
    by (force simp: wheel_ok_def wheel_inv_def schedule_def)
  consider (recent) "now < tc_lastWheelUpdate c + 1000000"
    | (held) "\<not> now < tc_lastWheelUpdate c + 1000000" "\<exists>t. (k, t) \<in> schedule (idle_wheel c)"
    | (gone) "\<not> now < tc_lastWheelUpdate c + 1000000" "\<forall>t. (k, t) \<notin> schedule (idle_wheel c)" by blast
  then have "idle_inv cap T base k ?t (idle_do ticks e (IdleActive now) c) \<and>
    tc_status (idle_do ticks e (IdleActive now) c) = tc_status c \<and>
    idle_tick_no (idle_do ticks e (IdleActive now) c) = ?t"
  proof cases
    case recent
    then have eq: "idle_do ticks e (IdleActive now) c = ?c" by (simp add: run)
    have "deadline_ok T base k ?t d ?c" if "deadline_ok T base k a d c" for d
      using that recent now(1) inv by (auto simp: deadline_ok_def idle_inv_def)
    with inv ok(1) show ?thesis unfolding eq by (auto simp: idle_inv_def)
  next
    case held
    let ?c' = "?c\<lparr>tc_lastWheelUpdate := now, tc_log := tc_log c @ [EffWheelInsert T k],
      tc_world := (tc_world ?c)\<lparr>iw_wheel := insertEntry ticks T (Some k) (idle_wheel c)\<rparr>\<rparr>"
    have eq: "idle_do ticks e (IdleActive now) c = ?c'" using held by (simp add: run users idle)
    have late: "t + T \<le> ?t + T + 1" if "base + int t * 1000000 < now + 1000000" for t
    proof -
      from that now(2) have "int t * 1000000 < int (?t + 2) * 1000000" by simp
      then show ?thesis by simp
    qed
    have conn: "tc_status c = Connected" using inv held(2) by (auto simp: idle_inv_def)
    then obtain d where d: "deadline_ok T base k a d c" using inv by (auto simp: idle_inv_def)
    then have "t \<le> ?t + T + 1" if "(k, t) \<in> schedule (idle_wheel c)" for t
      using that inv by (fastforce simp: deadline_ok_def idle_inv_def)
    then have "deadline_ok T base k ?t (?t + T + 1) ?c'"
      using late by (auto simp: deadline_ok_def ins(2,3))
    moreover have "wheel_ok cap k ?c'" using ins(1) by (simp add: wheel_ok_def)
    ultimately show ?thesis using inv conn unfolding eq by (auto simp: idle_inv_def ins(3))
  next
    case gone
    then have eq: "idle_do ticks e (IdleActive now) c = ?c\<lparr>tc_lastWheelUpdate := now\<rparr>" by (simp add: run users)
    have "wheel_ok cap k (?c\<lparr>tc_lastWheelUpdate := now\<rparr>)" using ok(1) by (simp add: wheel_ok_def)
    moreover have "tc_status c = Disconnected" using inv gone(2) by (auto simp: idle_inv_def deadline_ok_def)
    ultimately show ?thesis using inv gone unfolding eq by (auto simp: idle_inv_def)
  qed
  then show "idle_inv cap T base k ?t (idle_do ticks e (IdleActive now) c)"
    "tc_status (idle_do ticks e (IdleActive now) c) = tc_status c"
    "idle_tick_no (idle_do ticks e (IdleActive now) c) = ?t" by blast+
qed

lemma idle_other_inv:
  assumes "idle_inv cap T base k a c" "Suc k \<le> n" "1 \<le> ticks delay" "ticks delay \<le> cap"
  shows "idle_inv cap T base k a (idle_do ticks e (IdleOther delay n) c)"
    and "tc_status (idle_do ticks e (IdleOther delay n) c) = tc_status c"
    and "idle_tick_no (idle_do ticks e (IdleOther delay n) c) = idle_tick_no c"
proof -
  have ok: "wheel_ok cap k c" using assms(1) by (simp add: idle_inv_def)
  then have n: "n < tc_nextEntry c \<longrightarrow> n = k" "n \<noteq> k" using assms(2) by (simp_all add: wheel_ok_def)
  note r = insert_ok [where ticks = ticks and delay = delay, OF ok assms(3,4) n(1)]
  show "idle_inv cap T base k a (idle_do ticks e (IdleOther delay n) c)"
    using assms(1) n(2) r(1) by (auto simp: idle_inv_def deadline_ok_def r(2,3))
  show "tc_status (idle_do ticks e (IdleOther delay n) c) = tc_status c"
    "idle_tick_no (idle_do ticks e (IdleOther delay n) c) = idle_tick_no c" by (simp_all add: r(3))
qed

section \<open>Runs\<close>

lemma prompt_now:
  "prompt T t a ops \<Longrightarrow> last_active t a ops = (t', a') \<Longrightarrow> t' < a' + T \<Longrightarrow> t < a + T"
proof (induction ops arbitrary: t a)
  case (Cons op ops)
  then show ?case by (cases op) (auto dest: Suc_lessD)
qed simp

lemma idle_run_inv:
  assumes "idle_inv cap T base k a c" "wheel_env e" "0 < T" "ticks T = T + 1" "T + 1 \<le> cap"
    "idle_ok ticks cap (Suc k) base (idle_tick_no c) ops" "idle_tick_no c + length ops < sz_modulus"
    "last_active (idle_tick_no c) a ops = (t', a')"
  shows "idle_inv cap T base k a' (idle_run ticks e ops c) \<and> idle_tick_no (idle_run ticks e ops c) = t' \<and>
    (prompt T (idle_tick_no c) a ops \<and> t' < a' + T \<longrightarrow> tc_status (idle_run ticks e ops c) = tc_status c)"
  using assms(1,6-)
proof (induction ops arbitrary: a c)
  case Nil
  then show ?case by (simp add: idle_run_def)
next
  case (Cons op ops)
  have step: "idle_run ticks e (op # ops) c = idle_run ticks e ops (idle_do ticks e op c)"
    by (simp add: idle_run_def)
  show ?case
  proof (cases op)
    case IdleTick
    have "Suc (idle_tick_no c) < sz_modulus" using Cons.prems(3) by simp
    note r = idle_tick_inv [OF Cons.prems(1) this]
    have no: "idle_tick_no (idle_tick c) = Suc (idle_tick_no c)"
      using idle_tick_result(2) [of cap k c] Cons.prems(1,3) by (simp add: idle_inv_def)
    have "tc_status (idle_tick c) = tc_status c"
      if "prompt T (idle_tick_no c) a (op # ops)" "t' < a' + T"
      using r(2) prompt_now [of T "Suc (idle_tick_no c)" a ops t' a'] that Cons.prems(4) IdleTick by simp
    with Cons.IH [OF r(1)] Cons.prems(2-4) IdleTick no show ?thesis unfolding step by simp
  next
    case (IdleActive now)
    note r = idle_active_inv [where ticks = ticks and now = now, OF Cons.prems(1) assms(2-5)]
      have r: "idle_inv cap T base k (idle_tick_no c) (idle_do ticks e op c)"
      "tc_status (idle_do ticks e op c) = tc_status c" "idle_tick_no (idle_do ticks e op c) = idle_tick_no c"
      unfolding IdleActive by (rule r; use Cons.prems(2) IdleActive in simp)+
    have ops: "idle_ok ticks cap (Suc k) base (idle_tick_no (idle_do ticks e op c)) ops"
      "idle_tick_no (idle_do ticks e op c) + length ops < sz_modulus"
      "last_active (idle_tick_no (idle_do ticks e op c)) (idle_tick_no c) ops = (t', a')"
      using Cons.prems(2-4) unfolding IdleActive r(3) [unfolded IdleActive] by simp_all
    from Cons.IH [OF r(1) ops] r(2) show ?thesis unfolding step r(3) by (simp add: IdleActive)
  next
    case (IdleOther delay n)
    have "Suc k \<le> n" "1 \<le> ticks delay" "ticks delay \<le> cap" using Cons.prems(2) IdleOther by simp_all
    note r = idle_other_inv [where ticks = ticks and e = e, OF Cons.prems(1) this]
    from Cons.IH [OF r(1)] Cons.prems(2-4) r(2,3) IdleOther show ?thesis unfolding step by simp
  qed
qed

text \<open>A connected connection whose own entries the wheel has never held.\<close>

definition idle_fresh :: "nat \<Rightarrow> int \<Rightarrow> idle_world conn \<Rightarrow> bool" where
  "idle_fresh cap base c \<longleftrightarrow> tc_status c = Connected \<and> tc_entryReset c = {} \<and> wheel_inv (idle_wheel c) \<and>
     cap = tw_bucketsNum (idle_wheel c) ^ tw_wheelsNum (idle_wheel c) \<and>
     (\<forall>n t. (n, t) \<in> set (tw_fired (idle_wheel c)) \<longrightarrow> t \<le> idle_tick_no c) \<and>
     (\<forall>n t. (n, t) \<in> schedule (idle_wheel c) \<longrightarrow> tc_nextEntry c < n) \<and>
     tc_lastWheelUpdate c + 1000000 \<le> base + int (idle_tick_no c) * 1000000"

lemma enable_inv:
  assumes fresh: "idle_fresh cap base c" and T: "ticks T = T + 1" "T + 1 \<le> cap"
    and en: "enableKickingOff T c = Inr c0"
  shows "idle_inv cap T base (tc_nextEntry c) (idle_tick_no c) (hand_over ticks c c0)"
    and "idle_tick_no (hand_over ticks c c0) = idle_tick_no c" "tc_status (hand_over ticks c c0) = Connected"
proof -
  let ?k = "tc_nextEntry c" and ?t = "idle_tick_no c"
  let ?c = "(new_entry c)\<lparr>tc_idleTimeout := T\<rparr>"
  have eq: "hand_over ticks c c0 = ?c\<lparr>tc_log := tc_log c @ [EffWheelInsert T ?k],
      tc_world := (tc_world c)\<lparr>iw_wheel := insertEntry ticks T (Some ?k) (idle_wheel c)\<rparr>\<rparr>"
    using en by (auto simp: enableKickingOff_def hand_over_def log_eff_def new_entry_def wheel_effect_def
        assert_then_def split: if_splits)
  have ok: "wheel_ok cap ?k ?c"
    using fresh by (fastforce simp: idle_fresh_def wheel_ok_def new_entry_def)
  note r = insert_ok [where ticks = ticks, OF ok, of T ?k]
  have ins: "wheel_ok cap ?k (?c\<lparr>tc_world := (tc_world c)\<lparr>iw_wheel := insertEntry ticks T (Some ?k) (idle_wheel c)\<rparr>\<rparr>)"
    "schedule (insertEntry ticks T (Some ?k) (idle_wheel c)) = insert (?k, ?t + T + 1) (schedule (idle_wheel c))"
    "tw_ticksCounter (insertEntry ticks T (Some ?k) (idle_wheel c)) = ?t"
    using r T by (simp_all add: new_entry_def)
  have none: "(?k, t) \<notin> schedule (idle_wheel c)" for t using fresh by (auto simp: idle_fresh_def)
  have "wheel_ok cap ?k (hand_over ticks c c0)" using ins(1) by (simp add: eq wheel_ok_def)
  moreover have "deadline_ok T base ?k ?t (?t + T + 1) (hand_over ticks c c0)"
    using fresh none by (auto simp: eq deadline_ok_def ins(2,3) idle_fresh_def new_entry_def)
  ultimately show "idle_inv cap T base ?k ?t (hand_over ticks c c0)"
    using fresh by (auto simp: idle_inv_def eq ins(3) idle_fresh_def new_entry_def)
  show "idle_tick_no (hand_over ticks c c0) = ?t" "tc_status (hand_over ticks c c0) = Connected"
    using fresh by (simp_all add: eq ins(3) idle_fresh_def new_entry_def)
qed

section \<open>The property\<close>

text \<open>
  C8. A connection with an idle timeout of \<open>T\<close> seconds, active at any times: the wheel closes it at
  the latest \<open>T + 1\<close> ticks after its last activity, and never while less than \<open>T\<close> ticks separate each
  activity from the next and from the present, although \<open>extendLife\<close> ignores an activity
  within a second of the one before and other connections use the same wheel.
\<close>

theorem idle_connection_closed:
  assumes "wheel_env e" "idle_fresh cap base c" "ticks T = T + 1" "T + 1 \<le> cap"
    and "enableKickingOff T c = Inr c0"
    and "idle_ok ticks cap (Suc (tc_nextEntry c)) base (idle_tick_no c) ops"
    and "idle_tick_no c + length ops < sz_modulus"
    and "last_active (idle_tick_no c) (idle_tick_no c) ops = (t, a)"
  shows "(a + T < t \<longrightarrow> tc_status (idle_run ticks e ops (hand_over ticks c c0)) = Disconnected) \<and>
    (prompt T (idle_tick_no c) (idle_tick_no c) ops \<and> t < a + T \<longrightarrow>
       tc_status (idle_run ticks e ops (hand_over ticks c c0)) = Connected)"
proof -
  let ?c = "hand_over ticks c c0" and ?k = "tc_nextEntry c"
  note start = enable_inv [where ticks = ticks, OF assms(2-5)]
  have T: "0 < T" using assms(5) by (auto simp: enableKickingOff_def assert_then_def split: if_splits)
  let ?c' = "idle_run ticks e ops ?c"
  have run: "idle_inv cap T base ?k a ?c'" "idle_tick_no ?c' = t"
    "prompt T (idle_tick_no c) (idle_tick_no c) ops \<and> t < a + T \<longrightarrow> tc_status ?c' = Connected"
    using idle_run_inv [where ticks = ticks and ops = ops and t' = t and a' = a, OF start(1) assms(1) T assms(3,4)] assms(6-8) start(2,3) by auto
  have "tc_status ?c' = Disconnected" if "a + T < t"
  proof (rule ccontr)
    assume "tc_status ?c' \<noteq> Disconnected"
    then obtain d where "(?k, d) \<in> schedule (idle_wheel ?c')" "d \<le> a + T + 1"
      using run(1) by (auto simp: idle_inv_def deadline_ok_def)
    with deadline_future [of cap ?k ?c'] run(1,2) that show False by (force simp: idle_inv_def)
  qed
  with run(3) show ?thesis by blast
qed

definition idle_env :: "idle_world os \<Rightarrow> (MsgBuffer \<Rightarrow> idle_world \<Rightarrow> MsgBuffer \<times> idle_world) \<Rightarrow> idle_world env" where
  "idle_env os recv = \<lparr>env_os = os, env_now = iw_now, env_after1 = (\<lambda>d. d + 1000000),
     env_alive = (\<lambda>k w. k \<in> users_of (tw_wheels (iw_wheel w))), env_wheel = (\<lambda>_. True), env_recv = recv\<rparr>"

definition one_touch :: "idle_op list" where
  "one_touch = [IdleTick, IdleActive 2500000, IdleTick, IdleTick, IdleTick, IdleTick]"

theorem idle_connection_closed_witness:
  "\<exists>c c0. tc_status c = Connected \<and> enableKickingOff 3 c = Inr c0 \<and>
     (\<forall>os recv. tc_status (idle_run Suc (idle_env os recv) one_touch (hand_over Suc c c0)) = Disconnected)"
proof -
  let ?w = "\<lparr>iw_wheel = sample_wheel, iw_now = 0\<rparr>"
  obtain b where "MsgBuffer_new kBufferDefaultLength = Inr b" using default_buffer by blast
  then obtain c1 where c1: "TcpConnectionImpl_new False 5 ?w = Inr c1" "tc_world c1 = ?w"
    "tc_entryReset c1 = {}" "tc_lastWheelUpdate c1 = 0" "tc_nextEntry c1 = 0"
    by (simp add: TcpConnectionImpl_new_def)
  let ?c = "c1\<lparr>tc_status := Connected\<rparr>"
  obtain c0 where en: "enableKickingOff 3 ?c = Inr c0" by (simp add: enableKickingOff_def assert_then_def)
  have fresh: "idle_fresh 4 1000000 ?c"
    using sample_wheel_inv by (simp add: idle_fresh_def c1 sample_wheel_def)
  have run: "tc_status (idle_run Suc (idle_env os recv) one_touch (hand_over Suc ?c c0)) = Disconnected" for os recv
  proof -
    have "wheel_env (idle_env os recv)" by (simp add: wheel_env_def idle_env_def)
    from idle_connection_closed [OF this fresh _ _ en, of Suc one_touch 5 1]
    show ?thesis by (simp add: one_touch_def c1 sample_wheel_def)
  qed
  show ?thesis by (intro exI [of _ ?c] exI [of _ c0] conjI allI run en) simp
qed

section \<open>Kept connections\<close>

definition keep_inv :: "nat \<Rightarrow> nat \<Rightarrow> idle_world conn \<Rightarrow> bool" where
  "keep_inv cap k c \<longleftrightarrow> wheel_ok cap k c \<and> tc_idleTimeout c = 0 \<and>
     (k \<in> tc_entryReset c \<or> (\<forall>t. (k, t) \<notin> schedule (idle_wheel c)))"

lemma wheel_ok_cong:
  "tc_world c' = tc_world c \<Longrightarrow> tc_nextEntry c' = tc_nextEntry c \<Longrightarrow> wheel_ok cap k c' \<longleftrightarrow> wheel_ok cap k c"
  by (simp add: wheel_ok_def)

lemma keepAlive_inv:
  assumes "idle_inv cap T base k a c" "wheel_env e"
  shows "keep_inv cap k (keepAlive e c)" "idle_tick_no (keepAlive e c) = idle_tick_no c"
    "tc_status (keepAlive e c) = tc_status c"
proof -
  have w: "wheel_ok cap k c" "tc_kickoffEntry c = Some k" using assms(1) by (simp_all add: idle_inv_def)
  have users: "k \<in> users_of (tw_wheels (idle_wheel c)) \<longleftrightarrow> (\<exists>t. (k, t) \<in> schedule (idle_wheel c))"
    using users_deadlines [of "tw_bucketsNum (idle_wheel c)" "tw_wheelsNum (idle_wheel c)"
        "tw_wheels (idle_wheel c)" "\<lambda>_. idle_tick_no c"] w(1)
    by (force simp: wheel_ok_def wheel_inv_def schedule_def)
  have eq: "keepAlive e c =
      (if k \<in> users_of (tw_wheels (idle_wheel c))
       then c\<lparr>tc_idleTimeout := 0, tc_entryReset := insert k (tc_entryReset c)\<rparr> else c\<lparr>tc_idleTimeout := 0\<rparr>)"
    using assms(2) w(2) by (simp add: keepAlive_def reset_entry_def wheel_env_def)
  have "wheel_ok cap k (keepAlive e c)"
    using w(1) wheel_ok_cong [of "keepAlive e c" c cap k] by (simp add: eq)
  moreover have "k \<in> tc_entryReset (keepAlive e c) \<or> (\<forall>t. (k, t) \<notin> schedule (idle_wheel (keepAlive e c)))"
    using users by (simp add: eq)
  ultimately show "keep_inv cap k (keepAlive e c)" by (simp add: keep_inv_def eq)
  show "idle_tick_no (keepAlive e c) = idle_tick_no c" "tc_status (keepAlive e c) = tc_status c"
    by (simp_all add: eq)
qed

text \<open>After \<open>keepAlive\<close> the wheel never closes the connection.\<close>

lemma kept_run:
  assumes "keep_inv cap k c" "idle_ok ticks cap (Suc k) base (idle_tick_no c) ops"
    "idle_tick_no c + length ops < sz_modulus"
  shows "tc_status (idle_run ticks e ops c) = tc_status c"
  using assms
proof (induction ops arbitrary: c)
  case (Cons op ops)
  have step: "idle_run ticks e (op # ops) c = idle_run ticks e ops (idle_do ticks e op c)" by (simp add: idle_run_def)
  have ok: "wheel_ok cap k c" using Cons.prems(1) by (simp add: keep_inv_def)
  show ?case
  proof (cases op)
    case IdleTick
    have t: "Suc (idle_tick_no c) < sz_modulus" using Cons.prems(3) by simp
    note r = idle_tick_result [OF ok t]
    have "keep_inv cap k (idle_tick c)" using Cons.prems(1) r(1,3,5,7) by (auto simp: keep_inv_def)
    moreover have "tc_status (idle_tick c) = tc_status c"
      using Cons.prems(1) by (auto simp: keep_inv_def r(9))
    ultimately show ?thesis using Cons.IH [of "idle_tick c"] Cons.prems(2,3) r(2) unfolding step
      by (simp add: IdleTick)
  next
    case (IdleActive now)
    let ?c = "c\<lparr>tc_world := (tc_world c)\<lparr>iw_now := now\<rparr>\<rparr>"
    have "keep_inv cap k ?c" using Cons.prems(1) by (simp add: keep_inv_def wheel_ok_def)
    moreover from this have "idle_do ticks e op c = ?c" by (simp add: IdleActive extendLife_kept keep_inv_def)
    ultimately show ?thesis using Cons.IH [of ?c] Cons.prems(2,3) unfolding step
      by (simp add: IdleActive)
  next
    case (IdleOther delay n)
    let ?c = "idle_do ticks e op c"
    have d: "1 \<le> ticks delay" "ticks delay \<le> cap" "n < tc_nextEntry c \<longrightarrow> n = k" "n \<noteq> k"
      using Cons.prems(2) ok by (simp_all add: IdleOther wheel_ok_def)
    note r = insert_ok [where ticks = ticks and delay = delay, OF ok d(1-3)]
    have "keep_inv cap k ?c" using Cons.prems(1) r(1) d(4) by (auto simp: keep_inv_def IdleOther r(2))
    with Cons.IH [of ?c] Cons.prems(2,3) r(3) show ?thesis unfolding step by (simp add: IdleOther)
  qed
qed (simp add: idle_run_def)

lemma kept_connection:
  assumes "idle_inv cap T base k a c" "wheel_env e" "idle_ok ticks cap (Suc k) base (idle_tick_no c) ops"
    "idle_tick_no c + length ops < sz_modulus"
  shows "tc_status (idle_run ticks e ops (keepAlive e c)) = tc_status c"
  using keepAlive_inv [OF assms(1,2)] kept_run [of cap k "keepAlive e c" ticks base ops e] assms(3,4) by simp

end
