(* ===== verification/PrioQueue.thy ===== *)
theory PrioQueue
  imports Prelude "HOL-Library.Multiset"
begin

text \<open>
  The contract of \<open>std::priority_queue\<close> as the timer queue uses it (the C++ standard leaves the
  order of equal elements open), and the loop that pops the elements that are due, proved once
  for every implementation of the contract.
\<close>

fun drain :: "('q \<Rightarrow> bool) \<Rightarrow> ('q \<Rightarrow> 'e) \<Rightarrow> ('q \<Rightarrow> 'q) \<Rightarrow> ('e \<Rightarrow> bool) \<Rightarrow> nat \<Rightarrow> 'q \<Rightarrow> 'e list \<times> 'q" where
  "drain emp topq popq due 0 q = ([], q)"
| "drain emp topq popq due (Suc n) q =
     (if \<not> emp q \<and> due (topq q)
      then let (xs, q') = drain emp topq popq due n (popq q) in (topq q # xs, q')
      else ([], q))"

locale prio_queue =
  fixes invar :: "'q \<Rightarrow> bool"
    and elems :: "'q \<Rightarrow> 'e multiset"
    and key :: "'e \<Rightarrow> 'k :: linorder"
    and emp :: "'q \<Rightarrow> bool"
    and topq :: "'q \<Rightarrow> 'e"
    and popq :: "'q \<Rightarrow> 'q"
    and pushq :: "'e \<Rightarrow> 'q \<Rightarrow> 'q"
  assumes emp_law: "invar q \<Longrightarrow> emp q \<longleftrightarrow> elems q = {#}"
    and top_law: "invar q \<Longrightarrow> \<not> emp q \<Longrightarrow> topq q \<in># elems q \<and> (\<forall>e\<in>#elems q. key (topq q) \<le> key e)"
    and pop_law: "invar q \<Longrightarrow> \<not> emp q \<Longrightarrow> invar (popq q) \<and> elems (popq q) = elems q - {#topq q#}"
    and push_law: "invar q \<Longrightarrow> invar (pushq e q) \<and> elems (pushq e q) = add_mset e (elems q)"
begin

lemma filter_none:
  assumes "invar q" "emp q \<or> \<not> key (topq q) < now"
  shows "filter_mset (\<lambda>e. key e < now) (elems q) = {#} \<and>
    filter_mset (\<lambda>e. \<not> key e < now) (elems q) = elems q"
proof -
  have "\<forall>e\<in>#elems q. \<not> key e < now"
    using assms emp_law top_law by (metis empty_iff not_le order_trans set_mset_empty)
  then show ?thesis by (auto simp: filter_mset_eq_conv filter_mset_False)
qed

lemma drain_due:
  assumes "invar q" "size (elems q) \<le> n"
  shows "\<exists>xs q'. drain emp topq popq (\<lambda>e. key e < now) n q = (xs, q') \<and> invar q' \<and>
    mset xs = filter_mset (\<lambda>e. key e < now) (elems q) \<and>
    elems q' = filter_mset (\<lambda>e. \<not> key e < now) (elems q) \<and> sorted (map key xs)"
  using assms
proof (induction n arbitrary: q)
  case 0
  then show ?case by simp
next
  case (Suc n)
  show ?case
  proof (cases "\<not> emp q \<and> key (topq q) < now")
    case False
    with filter_none [OF Suc.prems(1)] Suc.prems(1) show ?thesis by auto
  next
    case True
    note t = top_law [OF Suc.prems(1)] and p = pop_law [OF Suc.prems(1)]
    have split: "elems q = add_mset (topq q) (elems (popq q))" using True t p by simp
    have "size (elems (popq q)) \<le> n" using Suc.prems(2) by (simp add: split)
    then obtain xs q' where r: "drain emp topq popq (\<lambda>e. key e < now) n (popq q) = (xs, q')" "invar q'"
      "mset xs = filter_mset (\<lambda>e. key e < now) (elems (popq q))"
      "elems q' = filter_mset (\<lambda>e. \<not> key e < now) (elems (popq q))" "sorted (map key xs)"
      using Suc.IH [of "popq q"] p True by blast
    have "key (topq q) \<le> key e" if "e \<in> set xs" for e
    proof -
      have "e \<in># mset xs" using that by simp
      then have "e \<in># elems q" unfolding r(3) split by simp
      then show ?thesis using t True by blast
    qed
    then show ?thesis using r True by (auto simp: split)
  qed
qed

end

end
