(* ===== verification/TimerQueue.thy ===== *)
theory TimerQueue
  imports PrioQueue
begin

text \<open>
  Timers and the timer queue: src/xiaoNet/net/inner/Timer.h, Timer.cpp, TimerQueue.h and
  TimerQueue.cpp. Times are nanoseconds of the steady clock, intervals microseconds, both
  unbounded here. A clock is a function from the number of the reading to its value. The timerfd
  is represented by the time it is set to fire. User callbacks run in the loop thread and act
  on the queue through \<open>addTimer\<close> and \<open>invalidateTimer\<close>; a callback is the list of its
  operations, a parameter.
\<close>

section \<open>Timers\<close>

record Timer =
  tm_callback :: nat
  tm_when :: int
  tm_interval :: int
  tm_repeat :: bool
  tm_id :: nat

text \<open>
  The constructor. \<open>created\<close> is the number of timers made so far in the process; the atomic
  counter holds it modulo \<open>2\<^sup>6\<^sup>4\<close>.
\<close>

definition Timer_new :: "nat \<Rightarrow> nat \<Rightarrow> int \<Rightarrow> int \<Rightarrow> Timer" where
  "Timer_new created cb when interval =
     \<lparr>tm_callback = cb, tm_when = when, tm_interval = interval, tm_repeat = (0 < interval),
      tm_id = Suc created mod sz_modulus\<rparr>"

lemma Timer_new_fields [simp]:
  "tm_when (Timer_new c cb w iv) = w" "tm_callback (Timer_new c cb w iv) = cb"
  "tm_repeat (Timer_new c cb w iv) = (0 < iv)" "tm_interval (Timer_new c cb w iv) = iv"
  "Suc c < sz_modulus \<Longrightarrow> tm_id (Timer_new c cb w iv) = Suc c"
  by (simp_all add: Timer_new_def)

definition Timer_restart :: "int \<Rightarrow> int \<Rightarrow> Timer \<Rightarrow> Timer" where
  "Timer_restart clock_now now t =
     (if tm_repeat t then t\<lparr>tm_when := now + 1000 * tm_interval t\<rparr> else t\<lparr>tm_when := clock_now\<rparr>)"

definition Timer_less :: "Timer \<Rightarrow> Timer \<Rightarrow> bool" where
  "Timer_less s t \<longleftrightarrow> tm_when s < tm_when t"

definition Timer_greater :: "Timer \<Rightarrow> Timer \<Rightarrow> bool" where
  "Timer_greater s t \<longleftrightarrow> tm_when t < tm_when s"

section \<open>The queue\<close>

text \<open>
  The priority queue is kept as a list in the order of the due times. \<open>tq_armed\<close> is the time
  the timerfd fires, \<open>tq_log\<close> the timers whose callbacks ran.
\<close>

record TimerQueue =
  tq_timers :: "Timer list"
  tq_ids :: "nat set"
  tq_calling :: bool
  tq_armed :: "int option"
  tq_created :: nat
  tq_reads :: nat
  tq_log :: "Timer list"

definition TimerQueue_new :: "nat \<Rightarrow> TimerQueue" where
  "TimerQueue_new created = \<lparr>tq_timers = [], tq_ids = {}, tq_calling = False, tq_armed = None,
     tq_created = created, tq_reads = 0, tq_log = []\<rparr>"

type_synonym clock = "nat \<Rightarrow> int"

definition read_clock :: "clock \<Rightarrow> TimerQueue \<Rightarrow> int \<times> TimerQueue" where
  "read_clock clk q = (clk (tq_reads q), q\<lparr>tq_reads := Suc (tq_reads q)\<rparr>)"

text \<open>
  \<open>howMuchTimeFromNow\<close>: seconds and nanoseconds of a \<open>timespec\<close>, at least 100 microseconds.
  (Below that bound the direction of the rounding does not matter.)
\<close>

definition howMuchTimeFromNow :: "int \<Rightarrow> int \<Rightarrow> int \<times> int" where
  "howMuchTimeFromNow when now =
     (let microSeconds = (when - now) div 1000;
          microSeconds = (if microSeconds < 100 then 100 else microSeconds)
      in (microSeconds div 1000000, (microSeconds mod 1000000) * 1000))"

definition resetTimerfd :: "clock \<Rightarrow> int \<Rightarrow> TimerQueue \<Rightarrow> TimerQueue" where
  "resetTimerfd clk expiration q =
     (let (now, q) = read_clock clk q; (sec, nsec) = howMuchTimeFromNow expiration now
      in q\<lparr>tq_armed := Some (now + sec * 1000000000 + nsec)\<rparr>)"

text \<open>Reading the timerfd consumes its expiration; it was set to fire once.\<close>

definition readTimerfd :: "int \<Rightarrow> TimerQueue \<Rightarrow> TimerQueue" where
  "readTimerfd now q =
     (case tq_armed q of
        None \<Rightarrow> q
      | Some t \<Rightarrow> if t \<le> now then q\<lparr>tq_armed := None\<rparr> else q)"

definition TimerQueue_insert :: "Timer \<Rightarrow> TimerQueue \<Rightarrow> bool \<times> TimerQueue" where
  "TimerQueue_insert t q =
     (tq_timers q = [] \<or> Timer_less t (hd (tq_timers q)),
      q\<lparr>tq_timers := insort_key tm_when t (tq_timers q)\<rparr>)"

definition addTimerInLoop :: "clock \<Rightarrow> Timer \<Rightarrow> TimerQueue \<Rightarrow> TimerQueue" where
  "addTimerInLoop clk t q =
     (let q = q\<lparr>tq_ids := insert (tm_id t) (tq_ids q)\<rparr>;
          (earliestChanged, q) = TimerQueue_insert t q
      in if earliestChanged then resetTimerfd clk (tm_when t) q else q)"

text \<open>
  \<open>addTimer\<close> makes the timer in the calling thread; in the loop thread the second half runs at
  once, otherwise it is queued and the caller goes on with the identifier.
\<close>

definition create_timer :: "nat \<Rightarrow> int \<Rightarrow> int \<Rightarrow> TimerQueue \<Rightarrow> Timer \<times> TimerQueue" where
  "create_timer cb when interval q =
     (Timer_new (tq_created q) cb when interval, q\<lparr>tq_created := Suc (tq_created q)\<rparr>)"

definition addTimer :: "clock \<Rightarrow> nat \<Rightarrow> int \<Rightarrow> int \<Rightarrow> TimerQueue \<Rightarrow> nat \<times> TimerQueue" where
  "addTimer clk cb when interval q =
     (let (t, q) = create_timer cb when interval q in (tm_id t, addTimerInLoop clk t q))"

definition invalidateTimer :: "nat \<Rightarrow> TimerQueue \<Rightarrow> TimerQueue" where
  "invalidateTimer i q = q\<lparr>tq_ids := tq_ids q - {i}\<rparr>"

definition getExpired :: "int \<Rightarrow> TimerQueue \<Rightarrow> Timer list \<times> TimerQueue" where
  "getExpired now q =
     (let (expired, ts) = drain (\<lambda>ts. ts = []) hd tl (\<lambda>t. tm_when t < now)
                            (length (tq_timers q)) (tq_timers q)
      in (expired, q\<lparr>tq_timers := ts\<rparr>))"

text \<open>What a callback does to the queue.\<close>

datatype tq_op = AddTimer nat int int | InvalidateTimer nat

fun run_op :: "clock \<Rightarrow> tq_op \<Rightarrow> TimerQueue \<Rightarrow> TimerQueue" where
  "run_op clk (AddTimer cb when interval) q = snd (addTimer clk cb when interval q)"
| "run_op clk (InvalidateTimer i) q = invalidateTimer i q"

fun run_ops :: "clock \<Rightarrow> tq_op list \<Rightarrow> TimerQueue \<Rightarrow> TimerQueue" where
  "run_ops clk [] q = q"
| "run_ops clk (op # ops) q = run_ops clk ops (run_op clk op q)"

definition Timer_run :: "clock \<Rightarrow> (nat \<Rightarrow> tq_op list) \<Rightarrow> Timer \<Rightarrow> TimerQueue \<Rightarrow> TimerQueue" where
  "Timer_run clk cbs t q = run_ops clk (cbs (tm_callback t)) (q\<lparr>tq_log := tq_log q @ [t]\<rparr>)"

fun run_expired :: "clock \<Rightarrow> (nat \<Rightarrow> tq_op list) \<Rightarrow> Timer list \<Rightarrow> TimerQueue \<Rightarrow> TimerQueue" where
  "run_expired clk cbs [] q = q"
| "run_expired clk cbs (t # ts) q =
     run_expired clk cbs ts (if tm_id t \<in> tq_ids q then Timer_run clk cbs t q else q)"

text \<open>\<open>reset(expired, now)\<close>; \<open>restart\<close> is only called on a repeating timer here.\<close>

fun reset_expired :: "int \<Rightarrow> Timer list \<Rightarrow> TimerQueue \<Rightarrow> TimerQueue" where
  "reset_expired now [] q = q"
| "reset_expired now (t # ts) q =
     reset_expired now ts
       (if tm_id t \<in> tq_ids q then
          (if tm_repeat t then snd (TimerQueue_insert (Timer_restart now now t) q)
           else q\<lparr>tq_ids := tq_ids q - {tm_id t}\<rparr>)
        else q)"

definition rearm :: "clock \<Rightarrow> TimerQueue \<Rightarrow> TimerQueue" where
  "rearm clk q = (if tq_timers q \<noteq> [] then resetTimerfd clk (tm_when (hd (tq_timers q))) q else q)"

definition handleRead :: "clock \<Rightarrow> (nat \<Rightarrow> tq_op list) \<Rightarrow> TimerQueue \<Rightarrow> TimerQueue" where
  "handleRead clk cbs q =
     (let (now, q) = read_clock clk q;
          q = readTimerfd now q;
          (expired, q) = getExpired now q;
          q = run_expired clk cbs expired (q\<lparr>tq_calling := True\<rparr>);
          q = q\<lparr>tq_calling := False\<rparr>
      in rearm clk (reset_expired now expired q))"

text \<open>\<open>reset()\<close>, called after a fork: a new timerfd, not yet set.\<close>

definition TimerQueue_reset :: "clock \<Rightarrow> TimerQueue \<Rightarrow> TimerQueue" where
  "TimerQueue_reset clk q = rearm clk (q\<lparr>tq_armed := None\<rparr>)"

section \<open>The list of timers is a priority queue\<close>

definition timers_sorted :: "Timer list \<Rightarrow> bool" where
  "timers_sorted ts \<longleftrightarrow> sorted (map tm_when ts)"

interpretation timer_heap: prio_queue timers_sorted mset tm_when "\<lambda>ts. ts = []" hd tl
  "insort_key tm_when"
proof unfold_locales
  show "hd ts \<in># mset ts \<and> (\<forall>t\<in>#mset ts. tm_when (hd ts) \<le> tm_when t)"
    if "timers_sorted ts" "ts \<noteq> []" for ts
    using that by (cases ts) (auto simp: timers_sorted_def)
  show "timers_sorted (tl ts) \<and> mset (tl ts) = mset ts - {#hd ts#}"
    if "timers_sorted ts" "ts \<noteq> []" for ts
    using that by (cases ts) (auto simp: timers_sorted_def)
qed (auto simp: timers_sorted_def sorted_insort_key)

lemma getExpired_result:
  assumes "timers_sorted (tq_timers q)"
  obtains expired ts where "getExpired now q = (expired, q\<lparr>tq_timers := ts\<rparr>)" "timers_sorted ts"
    "mset expired = filter_mset (\<lambda>t. tm_when t < now) (mset (tq_timers q))"
    "mset ts = filter_mset (\<lambda>t. \<not> tm_when t < now) (mset (tq_timers q))"
    "sorted (map tm_when expired)"
proof -
  obtain xs ts where r: "drain (\<lambda>ts. ts = []) hd tl (\<lambda>t. tm_when t < now) (length (tq_timers q))
      (tq_timers q) = (xs, ts)" "timers_sorted ts"
    "mset xs = filter_mset (\<lambda>t. tm_when t < now) (mset (tq_timers q))"
    "mset ts = filter_mset (\<lambda>t. \<not> tm_when t < now) (mset (tq_timers q))"
    "sorted (map tm_when xs)"
    using timer_heap.drain_due [OF assms, of "length (tq_timers q)" now] by auto
  show thesis by (rule that [of xs ts]) (use r in \<open>simp_all add: getExpired_def\<close>)
qed

end
