(* ===== verification/TimerProps.thy ===== *)
theory TimerProps
  imports TimerQueue "HOL-Library.Sublist"
begin

text \<open>
  The timer queue as a transition system and its properties: which callbacks run, that a
  single-shot timer runs at most once and an invalidated one not at all, that every valid timer
  is in the heap, and that the timerfd is set whenever a timer waits.
\<close>

section \<open>Steps and invariant\<close>

inductive tq_step :: "clock \<Rightarrow> (nat \<Rightarrow> tq_op list) \<Rightarrow> TimerQueue \<Rightarrow> TimerQueue \<Rightarrow> bool" for clk cbs where
  tq_add: "tq_step clk cbs q (snd (addTimer clk cb when interval q))"
| tq_invalidate: "tq_step clk cbs q (invalidateTimer i q)"
| tq_handleRead: "tq_step clk cbs q (handleRead clk cbs q)"
| tq_reset: "tq_step clk cbs q (TimerQueue_reset clk q)"
| tq_other: "tq_step clk cbs q (q\<lparr>tq_created := Suc (tq_created q)\<rparr>)"

inductive tq_steps :: "clock \<Rightarrow> (nat \<Rightarrow> tq_op list) \<Rightarrow> TimerQueue \<Rightarrow> TimerQueue \<Rightarrow> bool" for clk cbs where
  tq_refl: "tq_steps clk cbs q q"
| tq_trans: "tq_steps clk cbs q q' \<Longrightarrow> tq_step clk cbs q' q'' \<Longrightarrow> tq_steps clk cbs q q''"

inductive_cases tq_stepE: "tq_step clk cbs q q'"

text \<open>
  The invariant, with the timers popped from the heap while their callbacks run: those already
  passed and those to come.
\<close>

definition ids_ok :: "Timer list \<Rightarrow> Timer set \<Rightarrow> nat set \<Rightarrow> nat \<Rightarrow> Timer list \<Rightarrow> bool" where
  "ids_ok held rest ids created log \<longleftrightarrow>
     distinct (map tm_id held) \<and> (\<forall>t\<in>set held. tm_id t \<le> created) \<and> ids \<subseteq> tm_id ` set held \<and>
     (\<forall>t\<in>set log. tm_id t \<le> created) \<and>
     (\<forall>t\<in>set log. \<forall>s\<in>set held. tm_id s = tm_id t \<longrightarrow> tm_repeat s = tm_repeat t) \<and>
     (\<forall>t\<in>set log. \<not> tm_repeat t \<longrightarrow> tm_id t \<notin> tm_id ` rest) \<and>
     distinct (map tm_id (filter (\<lambda>t. \<not> tm_repeat t) log))"

definition tq_inv :: "Timer list \<Rightarrow> Timer list \<Rightarrow> TimerQueue \<Rightarrow> bool" where
  "tq_inv past todo q \<longleftrightarrow> timers_sorted (tq_timers q) \<and>
     ids_ok (past @ todo @ tq_timers q) (set (todo @ tq_timers q)) (tq_ids q) (tq_created q) (tq_log q)"

lemma ids_okI:
  assumes "distinct (map tm_id held)" "\<And>t. t \<in> set held \<Longrightarrow> tm_id t \<le> created"
    "ids \<subseteq> tm_id ` set held" "\<And>t. t \<in> set log \<Longrightarrow> tm_id t \<le> created"
    "\<And>t s. t \<in> set log \<Longrightarrow> s \<in> set held \<Longrightarrow> tm_id s = tm_id t \<Longrightarrow> tm_repeat s = tm_repeat t"
    "\<And>t s. t \<in> set log \<Longrightarrow> \<not> tm_repeat t \<Longrightarrow> s \<in> rest \<Longrightarrow> tm_id t \<noteq> tm_id s"
    "distinct (map tm_id (filter (\<lambda>t. \<not> tm_repeat t) log))"
  shows "ids_ok held rest ids created log"
  using assms unfolding ids_ok_def by (auto 0 3)

lemma ids_okD:
  assumes "ids_ok held rest ids created log"
  shows "distinct (map tm_id held)" "t \<in> set held \<Longrightarrow> tm_id t \<le> created" "ids \<subseteq> tm_id ` set held"
    "t \<in> set log \<Longrightarrow> tm_id t \<le> created"
    "t \<in> set log \<Longrightarrow> s \<in> set held \<Longrightarrow> tm_id s = tm_id t \<Longrightarrow> tm_repeat s = tm_repeat t"
    "t \<in> set log \<Longrightarrow> \<not> tm_repeat t \<Longrightarrow> s \<in> rest \<Longrightarrow> tm_id t \<noteq> tm_id s"
    "distinct (map tm_id (filter (\<lambda>t. \<not> tm_repeat t) log))"
  using assms unfolding ids_ok_def by blast+

text \<open>A timer with a new identifier, one whose identifier is erased, one that runs.\<close>

lemma ids_ok_add:
  assumes ok: "ids_ok held rest ids created log" and t: "tm_id t = Suc created"
    and held': "mset held' = add_mset t (mset held)"
  shows "ids_ok held' (insert t rest) (insert (Suc created) ids) (Suc created) log"
proof (rule ids_okI)
  have set': "set held' = insert t (set held)"
    using arg_cong [OF held', of set_mset] by simp
  have "mset (map tm_id held') = mset (map tm_id (t # held))" using held' by simp
  then have "distinct (map tm_id held') = distinct (map tm_id (t # held))"
    by (rule mset_eq_imp_distinct_iff)
  then show "distinct (map tm_id held')"
    using ids_okD(1,2) [OF ok] t by fastforce
  show "tm_id s \<le> Suc created" if "s \<in> set held'" for s
    using that ids_okD(2) [OF ok, of s] t by (auto simp: set')
  show "insert (Suc created) ids \<subseteq> tm_id ` set held'"
    using ids_okD(3) [OF ok] by (auto simp: set' t)
  show "tm_id s \<le> Suc created" if "s \<in> set log" for s
    using ids_okD(4) [OF ok that] by simp
  show "tm_repeat s = tm_repeat u" if "u \<in> set log" "s \<in> set held'" "tm_id s = tm_id u" for u s
    using that ids_okD(4) [OF ok that(1)] ids_okD(5) [OF ok that(1)] t by (auto simp: set')
  show "tm_id u \<noteq> tm_id s" if "u \<in> set log" "\<not> tm_repeat u" "s \<in> insert t rest" for u s
    using that ids_okD(4) [OF ok that(1)] ids_okD(6) [OF ok that(1,2)] t by auto
  show "distinct (map tm_id (filter (\<lambda>t. \<not> tm_repeat t) log))" by (rule ids_okD(7) [OF ok])
qed

lemma ids_ok_less:
  "ids_ok held rest ids created log \<Longrightarrow> ids' \<subseteq> ids \<Longrightarrow> rest' \<subseteq> rest \<Longrightarrow>
   ids_ok held rest' ids' created log"
  unfolding ids_ok_def by blast

lemma ids_ok_run:
  assumes ok: "ids_ok held rest ids created log" and t: "t \<in> set held" "t \<in> rest"
    and rest': "rest' \<subseteq> rest" "tm_id t \<notin> tm_id ` rest'"
  shows "ids_ok held rest' ids created (log @ [t])"
proof (rule ids_okI)
  note D = ids_okD [OF ok]
  have inj: "s = t" if "s \<in> set held" "tm_id s = tm_id t" for s
    using D(1) t(1) that by (meson distinct_map inj_onD)
  show "tm_repeat s = tm_repeat u"
    if "u \<in> set (log @ [t])" "s \<in> set held" "tm_id s = tm_id u" for u s
    using that D(5) [of u s] inj [of s] by auto
  show "tm_id u \<noteq> tm_id s" if "u \<in> set (log @ [t])" "\<not> tm_repeat u" "s \<in> rest'" for u s
    using that D(6) [of u s] rest' by auto
  have "tm_id u \<noteq> tm_id t" if "u \<in> set log" "\<not> tm_repeat u" for u
    using D(6) [OF that t(2)] .
  then show "distinct (map tm_id (filter (\<lambda>t. \<not> tm_repeat t) (log @ [t])))"
    using D(7) by fastforce
  show "tm_id u \<le> created" if "u \<in> set (log @ [t])" for u using that D(4) [of u] D(2) [OF t(1)] by auto
qed (use ids_okD [OF ok] in auto)

lemma tq_invD:
  assumes "tq_inv past todo q"
  shows "timers_sorted (tq_timers q)"
    "ids_ok (past @ todo @ tq_timers q) (set (todo @ tq_timers q)) (tq_ids q) (tq_created q) (tq_log q)"
    "t \<in> set (past @ todo @ tq_timers q) \<Longrightarrow> tm_id t \<le> tq_created q"
    "i \<in> tq_ids q \<Longrightarrow> i \<le> tq_created q"
proof -
  show "timers_sorted (tq_timers q)" and ok: "ids_ok (past @ todo @ tq_timers q)
      (set (todo @ tq_timers q)) (tq_ids q) (tq_created q) (tq_log q)"
    using assms unfolding tq_inv_def by blast+
  show "t \<in> set (past @ todo @ tq_timers q) \<Longrightarrow> tm_id t \<le> tq_created q" by (rule ids_okD(2) [OF ok])
  show "i \<in> tq_ids q \<Longrightarrow> i \<le> tq_created q" using ids_okD(2,3) [OF ok] by blast
qed

section \<open>Operations inside a handler\<close>

lemma resetTimerfd_fields [simp]:
  "tq_timers (resetTimerfd clk x q) = tq_timers q" "tq_ids (resetTimerfd clk x q) = tq_ids q"
  "tq_created (resetTimerfd clk x q) = tq_created q" "tq_log (resetTimerfd clk x q) = tq_log q"
  by (simp_all add: resetTimerfd_def read_clock_def howMuchTimeFromNow_def Let_def)

lemma addTimer_fields:
  assumes "Suc (tq_created q) < sz_modulus"
  shows "tq_timers (snd (addTimer clk cb when iv q)) =
      insort_key tm_when (Timer_new (tq_created q) cb when iv) (tq_timers q)"
    "tq_ids (snd (addTimer clk cb when iv q)) = insert (Suc (tq_created q)) (tq_ids q)"
    "tm_id (Timer_new (tq_created q) cb when iv) = Suc (tq_created q)"
    "tq_log (snd (addTimer clk cb when iv q)) = tq_log q"
  using assms
  by (simp_all add: addTimer_def create_timer_def addTimerInLoop_def TimerQueue_insert_def
      Timer_new_def Let_def)

lemma addTimer_created [simp]: "tq_created (snd (addTimer clk cb when iv q)) = Suc (tq_created q)"
  by (simp add: addTimer_def create_timer_def addTimerInLoop_def TimerQueue_insert_def Let_def)

lemma invalidateTimer_fields [simp]:
  "tq_timers (invalidateTimer i q) = tq_timers q" "tq_ids (invalidateTimer i q) = tq_ids q - {i}"
  "tq_created (invalidateTimer i q) = tq_created q" "tq_log (invalidateTimer i q) = tq_log q"
  by (simp_all add: invalidateTimer_def)

lemma insort_set [simp]: "set (insort_key f x xs) = insert x (set xs)"
  by (simp add: set_insort_key)

lemma inv_addTimer:
  assumes "tq_inv past todo q" "Suc (tq_created q) < sz_modulus"
  shows "tq_inv past todo (snd (addTimer clk cb when iv q))"
proof -
  let ?t = "Timer_new (tq_created q) cb when iv"
  note f = addTimer_fields [OF assms(2)]
  have "mset (past @ todo @ insort_key tm_when ?t (tq_timers q)) =
      add_mset ?t (mset (past @ todo @ tq_timers q))" by simp
  from ids_ok_add [OF tq_invD(2) [OF assms(1)] f(3) this]
  have "ids_ok (past @ todo @ insort_key tm_when ?t (tq_timers q))
      (set (todo @ insort_key tm_when ?t (tq_timers q))) (insert (Suc (tq_created q)) (tq_ids q))
      (Suc (tq_created q)) (tq_log q)"
    by (rule ids_ok_less) auto
  moreover have "timers_sorted (insort_key tm_when ?t (tq_timers q))"
    using timer_heap.push_law tq_invD(1) [OF assms(1)] by blast
  ultimately show ?thesis unfolding tq_inv_def f addTimer_created by blast
qed

lemma inv_invalidate: "tq_inv past todo q \<Longrightarrow> tq_inv past todo (invalidateTimer i q)"
  unfolding tq_inv_def by (auto intro: ids_ok_less)

lemma run_op_created: "tq_created q \<le> tq_created (run_op clk op q)"
  by (cases op) simp_all

lemma run_ops_created: "tq_created q \<le> tq_created (run_ops clk ops q)"
  by (induction ops arbitrary: q) (auto intro: order_trans run_op_created)

lemma inv_run_ops:
  assumes "tq_inv past todo q" "tq_created (run_ops clk ops q) < sz_modulus"
  shows "tq_inv past todo (run_ops clk ops q) \<and> tq_log (run_ops clk ops q) = tq_log q \<and>
    (\<forall>i. i \<le> tq_created q \<longrightarrow> (i \<in> tq_ids (run_ops clk ops q) \<longleftrightarrow>
       i \<in> tq_ids q \<and> InvalidateTimer i \<notin> set ops))"
  using assms
proof (induction ops arbitrary: q)
  case (Cons op ops)
  have small: "tq_created (run_op clk op q) < sz_modulus"
    using run_ops_created [of "run_op clk op q" clk ops] Cons.prems(2) by simp
  have step: "tq_inv past todo (run_op clk op q) \<and> tq_log (run_op clk op q) = tq_log q \<and>
      (\<forall>i. i \<le> tq_created q \<longrightarrow> (i \<in> tq_ids (run_op clk op q) \<longleftrightarrow>
         i \<in> tq_ids q \<and> op \<noteq> InvalidateTimer i))"
  proof (cases op)
    case (AddTimer cb w iv)
    then have s: "Suc (tq_created q) < sz_modulus" using small by simp
    show ?thesis using inv_addTimer [OF Cons.prems(1) s] addTimer_fields [OF s] AddTimer by auto
  next
    case (InvalidateTimer i)
    then show ?thesis using inv_invalidate [OF Cons.prems(1)] by auto
  qed
  have "tq_created (run_ops clk ops (run_op clk op q)) < sz_modulus" using Cons.prems(2) by simp
  from Cons.IH [OF conjunct1 [OF step] this] step run_op_created [of q clk op] show ?case
    by (auto dest: order_trans)
qed simp

lemma inv_run:
  assumes inv: "tq_inv past (t # todo) q" and small: "tq_created (Timer_run clk cbs t q) < sz_modulus"
  shows "tq_inv (past @ [t]) todo (Timer_run clk cbs t q) \<and> tq_log (Timer_run clk cbs t q) = tq_log q @ [t] \<and>
    (\<forall>i. i \<le> tq_created q \<longrightarrow> (i \<in> tq_ids (Timer_run clk cbs t q) \<longleftrightarrow>
       i \<in> tq_ids q \<and> InvalidateTimer i \<notin> set (cbs (tm_callback t))))"
proof -
  have "tq_inv (past @ [t]) todo (q\<lparr>tq_log := tq_log q @ [t]\<rparr>)"
  proof -
    let ?held = "past @ (t # todo) @ tq_timers q"
    have "distinct (map tm_id ?held)" using ids_okD(1) [OF tq_invD(2) [OF inv]] .
    then have "tm_id t \<notin> tm_id ` set (todo @ tq_timers q)" by auto
    with ids_ok_run [OF tq_invD(2) [OF inv], of t "set (todo @ tq_timers q)"] tq_invD(1) [OF inv]
    show ?thesis unfolding tq_inv_def by auto
  qed
  from inv_run_ops [OF this, of clk "cbs (tm_callback t)"] small show ?thesis
    by (simp add: Timer_run_def)
qed

lemma inv_skip:
  "tq_inv past (t # todo) q \<Longrightarrow> tq_inv (past @ [t]) todo q"
  unfolding tq_inv_def by (auto intro: ids_ok_less)

lemma run_created: "tq_created q \<le> tq_created (Timer_run clk cbs t q)"
  using run_ops_created [of "q\<lparr>tq_log := tq_log q @ [t]\<rparr>"] by (simp add: Timer_run_def)

lemma run_expired_created: "tq_created q \<le> tq_created (run_expired clk cbs ts q)"
  by (induction ts arbitrary: q) (auto intro: order_trans run_created)

lemma subseq_subset: "subseq xs ys \<Longrightarrow> set xs \<subseteq> set ys"
  by (auto elim!: list_emb_set)

text \<open>The callbacks that one expiration runs.\<close>

lemma inv_run_expired:
  assumes "tq_inv past todo q" "tq_created (run_expired clk cbs todo q) < sz_modulus"
  shows "tq_inv (past @ todo) [] (run_expired clk cbs todo q) \<and>
    (\<exists>runs. tq_log (run_expired clk cbs todo q) = tq_log q @ runs \<and> subseq runs todo \<and>
       tm_id ` set runs \<subseteq> tq_ids q \<and>
       (\<forall>t\<in>set todo. tm_id t \<in> tq_ids q \<longrightarrow>
          t \<in> set runs \<or> (\<exists>s\<in>set runs. InvalidateTimer (tm_id t) \<in> set (cbs (tm_callback s)))) \<and>
       (\<forall>i\<le>tq_created q. i \<in> tq_ids (run_expired clk cbs todo q) \<longleftrightarrow>
          i \<in> tq_ids q \<and> (\<forall>s\<in>set runs. InvalidateTimer i \<notin> set (cbs (tm_callback s)))))"
  using assms
proof (induction todo arbitrary: past q)
  case (Cons t todo)
  define q1 where "q1 = (if tm_id t \<in> tq_ids q then Timer_run clk cbs t q else q)"
  have eq: "run_expired clk cbs (t # todo) q = run_expired clk cbs todo q1" by (simp add: q1_def)
  have le: "tq_created q \<le> tq_created q1" by (simp add: q1_def run_created)
  have small: "tq_created q1 < sz_modulus"
    using run_expired_created [of q1 clk cbs todo] Cons.prems(2) unfolding eq by simp
  have bound: "tm_id s \<le> tq_created q" if "s \<in> set (t # todo)" for s
    using tq_invD(3) [OF Cons.prems(1), of s] that by auto
  show ?case
  proof (cases "tm_id t \<in> tq_ids q")
    case False
    then have "q1 = q" by (simp add: q1_def)
    then obtain runs where "tq_inv (past @ t # todo) [] (run_expired clk cbs todo q)"
      "tq_log (run_expired clk cbs todo q) = tq_log q @ runs" "subseq runs todo"
      "tm_id ` set runs \<subseteq> tq_ids q"
      "\<forall>t\<in>set todo. tm_id t \<in> tq_ids q \<longrightarrow>
          t \<in> set runs \<or> (\<exists>s\<in>set runs. InvalidateTimer (tm_id t) \<in> set (cbs (tm_callback s)))"
      "\<forall>i\<le>tq_created q. i \<in> tq_ids (run_expired clk cbs todo q) \<longleftrightarrow>
          i \<in> tq_ids q \<and> (\<forall>s\<in>set runs. InvalidateTimer i \<notin> set (cbs (tm_callback s)))"
      using Cons.IH [OF inv_skip [OF Cons.prems(1)]] Cons.prems(2) eq by auto
    then show ?thesis using False \<open>q1 = q\<close> unfolding eq
      by (intro conjI exI [of _ runs]) auto
  next
    case True
    then have q1: "q1 = Timer_run clk cbs t q" by (simp add: q1_def)
    note r = inv_run [OF Cons.prems(1) small [unfolded q1]]
    obtain runs where runs: "tq_inv (past @ t # todo) [] (run_expired clk cbs todo q1)"
      "tq_log (run_expired clk cbs todo q1) = tq_log q1 @ runs" "subseq runs todo"
      "tm_id ` set runs \<subseteq> tq_ids q1"
      "\<forall>t\<in>set todo. tm_id t \<in> tq_ids q1 \<longrightarrow>
          t \<in> set runs \<or> (\<exists>s\<in>set runs. InvalidateTimer (tm_id t) \<in> set (cbs (tm_callback s)))"
      "\<forall>i\<le>tq_created q1. i \<in> tq_ids (run_expired clk cbs todo q1) \<longleftrightarrow>
          i \<in> tq_ids q1 \<and> (\<forall>s\<in>set runs. InvalidateTimer i \<notin> set (cbs (tm_callback s)))"
      using Cons.IH [of "past @ [t]" q1] r Cons.prems(2) eq q1 by auto
    have ids1: "i \<in> tq_ids q1 \<longleftrightarrow> i \<in> tq_ids q \<and> InvalidateTimer i \<notin> set (cbs (tm_callback t))"
      if "i \<le> tq_created q" for i
      using r that unfolding q1 by blast
    have "tm_id s \<in> tq_ids q" if "s \<in> set runs" for s
    proof -
      have "s \<in> set todo" using that subseq_subset [OF runs(3)] by blast
      then show ?thesis using runs(4) that ids1 [OF bound [of s]] by auto
    qed
    then show ?thesis using runs r True ids1 bound le unfolding eq q1 [symmetric]
      by (intro conjI exI [of _ "t # runs"]) (auto simp: q1)
  qed
qed simp

section \<open>Rescheduling\<close>

lemma insert_fields [simp]:
  "tq_timers (snd (TimerQueue_insert t q)) = insort_key tm_when t (tq_timers q)"
  "tq_ids (snd (TimerQueue_insert t q)) = tq_ids q"
  "tq_created (snd (TimerQueue_insert t q)) = tq_created q"
  "tq_log (snd (TimerQueue_insert t q)) = tq_log q"
  by (simp_all add: TimerQueue_insert_def)

lemma reset_expired_created [simp]: "tq_created (reset_expired now ts q) = tq_created q"
  by (induction ts arbitrary: q) simp_all

lemma reset_expired_log [simp]: "tq_log (reset_expired now ts q) = tq_log q"
  by (induction ts arbitrary: q) simp_all

lemma reset_expired_keeps: "set (tq_timers q) \<subseteq> set (tq_timers (reset_expired now ts q))"
proof (induction ts arbitrary: q)
  case (Cons t ts)
  let ?q = "if tm_id t \<in> tq_ids q then
      (if tm_repeat t then snd (TimerQueue_insert (Timer_restart now now t) q)
       else q\<lparr>tq_ids := tq_ids q - {tm_id t}\<rparr>) else q"
  have "set (tq_timers q) \<subseteq> set (tq_timers ?q)" by auto
  with Cons.IH [of ?q] show ?case by simp
qed simp

lemma reset_expired_ids:
  "i \<in> tq_ids (reset_expired now ts q) \<longleftrightarrow>
   i \<in> tq_ids q \<and> (\<forall>t\<in>set ts. tm_id t = i \<longrightarrow> tm_repeat t)"
proof (induction ts arbitrary: q)
  case (Cons t ts)
  show ?case by (auto simp: Cons.IH)
qed simp

text \<open>A repeating timer moves from the popped ones back to the heap, with the same identifier.\<close>

lemma ids_ok_restart:
  assumes ok: "ids_ok held rest ids created log" and t: "t \<in> set held" "tm_repeat t"
    and r: "tm_id r = tm_id t" "tm_repeat r = tm_repeat t"
    and held': "add_mset t (mset held') = add_mset r (mset held)" and rest': "rest' \<subseteq> insert r rest"
  shows "ids_ok held' rest' ids created log"
proof (rule ids_okI)
  note D = ids_okD [OF ok]
  have sub: "s = r \<or> s \<in> set held" if "s \<in> set held'" for s
  proof -
    have "s \<in># add_mset t (mset held')" using that by simp
    then show ?thesis unfolding held' by auto
  qed
  have "add_mset (tm_id t) (mset (map tm_id held')) = add_mset (tm_id t) (mset (map tm_id held))"
    using arg_cong [OF held', of "image_mset tm_id"] r by simp
  then have same: "mset (map tm_id held') = mset (map tm_id held)" by simp
  then show "distinct (map tm_id held')" using D(1) mset_eq_imp_distinct_iff by blast
  have img: "tm_id ` set held' = tm_id ` set held"
    using arg_cong [OF same, of set_mset] by simp
  show "ids \<subseteq> tm_id ` set held'" using D(3) img by simp
  show "tm_id s \<le> created" if "s \<in> set held'" for s using sub [OF that] D(2) t(1) r by auto
  show "tm_repeat s = tm_repeat u" if "u \<in> set log" "s \<in> set held'" "tm_id s = tm_id u" for u s
    using sub [OF that(2)] D(5) [OF that(1)] t(1) r that(3) by auto
  show "tm_id u \<noteq> tm_id s" if "u \<in> set log" "\<not> tm_repeat u" "s \<in> rest'" for u s
  proof -
    from that(3) rest' consider "s = r" | "s \<in> rest" by blast
    then show ?thesis
      using D(6) [OF that(1,2)] D(5) [OF that(1) t(1)] t(2) r that(2) by cases auto
  qed
qed (use ids_okD [OF ok] in auto)

lemma ids_ok_drop:
  assumes ok: "ids_ok (t # held) rest ids created log" and "ids' \<subseteq> ids" "tm_id t \<notin> ids'"
  shows "ids_ok held rest ids' created log"
  using assms unfolding ids_ok_def by auto

lemma restart_id [simp]: "tm_id (Timer_restart c now t) = tm_id t"
  "tm_repeat (Timer_restart c now t) = tm_repeat t"
  by (simp_all add: Timer_restart_def)

lemma inv_reset_expired:
  assumes "tq_inv ts [] q"
  shows "tq_inv [] [] (reset_expired now ts q) \<and>
    (\<forall>t\<in>set ts. tm_id t \<in> tq_ids q \<and> tm_repeat t \<longrightarrow>
       Timer_restart now now t \<in> set (tq_timers (reset_expired now ts q)))"
  using assms
proof (induction ts arbitrary: q)
  case (Cons t ts)
  note ok = tq_invD(2) [OF Cons.prems]
  have apart: "tm_id s \<noteq> tm_id t" if "s \<in> set ts" for s
    using ids_okD(1) [OF ok] that by (fastforce simp: image_iff)
  consider (repeat) "tm_id t \<in> tq_ids q" "tm_repeat t" | (once) "tm_id t \<in> tq_ids q" "\<not> tm_repeat t"
    | (gone) "tm_id t \<notin> tq_ids q" by blast
  then show ?case
  proof cases
    case repeat
    let ?r = "Timer_restart now now t"
    let ?q = "snd (TimerQueue_insert ?r q)"
    have "ids_ok (ts @ [] @ tq_timers ?q) (set ([] @ tq_timers ?q)) (tq_ids q) (tq_created q) (tq_log q)"
      by (rule ids_ok_restart [OF ok, of t ?r]) (use repeat in auto)
    then have "tq_inv ts [] ?q"
      using timer_heap.push_law tq_invD(1) [OF Cons.prems] by (simp add: tq_inv_def)
    from Cons.IH [OF this] reset_expired_keeps [of ?q now ts] repeat show ?thesis
      by (auto dest: subsetD [of _ _ ?r])
  next
    case once
    let ?q = "q\<lparr>tq_ids := tq_ids q - {tm_id t}\<rparr>"
    have "tq_inv ts [] ?q"
      using ids_ok_drop [of t "ts @ tq_timers q" _ "tq_ids q"] ok tq_invD(1) [OF Cons.prems]
      by (simp add: tq_inv_def)
    from Cons.IH [OF this] once apart show ?thesis by auto
  next
    case gone
    have "tq_inv ts [] q"
      using ids_ok_drop [of t "ts @ tq_timers q" _ "tq_ids q"] ok tq_invD(1) [OF Cons.prems] gone
      by (simp add: tq_inv_def)
    from Cons.IH [OF this] gone show ?thesis by auto
  qed
qed simp

section \<open>One expiration\<close>

lemma ids_ok_perm:
  assumes ok: "ids_ok held rest ids created log" and held': "mset held' = mset held"
  shows "ids_ok held' rest ids created log"
proof -
  have "set held' = set held" using held' by (rule mset_eq_setD)
  moreover have "distinct (map tm_id held') = distinct (map tm_id held)"
    by (rule mset_eq_imp_distinct_iff) (simp add: held')
  ultimately show ?thesis using ok unfolding ids_ok_def by simp
qed

lemma readTimerfd_fields [simp]:
  "tq_timers (readTimerfd now q) = tq_timers q" "tq_ids (readTimerfd now q) = tq_ids q"
  "tq_created (readTimerfd now q) = tq_created q" "tq_log (readTimerfd now q) = tq_log q"
  "tq_reads (readTimerfd now q) = tq_reads q"
  by (simp_all add: readTimerfd_def split: option.split)

lemma rearm_fields [simp]:
  "tq_timers (rearm clk q) = tq_timers q" "tq_ids (rearm clk q) = tq_ids q"
  "tq_created (rearm clk q) = tq_created q" "tq_log (rearm clk q) = tq_log q"
  by (simp_all add: rearm_def)

lemma inv_rearm: "tq_inv past todo q \<Longrightarrow> tq_inv past todo (rearm clk q)"
  by (simp add: tq_inv_def)

definition due :: "clock \<Rightarrow> TimerQueue \<Rightarrow> Timer set" where
  "due clk q = {t \<in> set (tq_timers q). tm_when t < clk (tq_reads q) \<and> tm_id t \<in> tq_ids q}"

lemma handleRead_result:
  assumes inv: "tq_inv [] [] q" and small: "tq_created (handleRead clk cbs q) < sz_modulus"
  shows "tq_inv [] [] (handleRead clk cbs q) \<and>
    (\<exists>runs. tq_log (handleRead clk cbs q) = tq_log q @ runs \<and> sorted (map tm_when runs) \<and>
       distinct (map tm_id runs) \<and> set runs \<subseteq> due clk q \<and>
       (\<forall>t\<in>due clk q. t \<in> set runs \<or> (\<exists>s\<in>set runs. InvalidateTimer (tm_id t) \<in> set (cbs (tm_callback s)))) \<and>
       (\<forall>t\<in>set runs. tm_repeat t \<and> tm_id t \<in> tq_ids (handleRead clk cbs q) \<longrightarrow>
          t\<lparr>tm_when := clk (tq_reads q) + 1000 * tm_interval t\<rparr> \<in> set (tq_timers (handleRead clk cbs q))) \<and>
       (\<forall>i\<le>tq_created q. i \<in> tq_ids (handleRead clk cbs q) \<longrightarrow> i \<in> tq_ids q))"
proof -
  let ?now = "clk (tq_reads q)"
  define q0 where "q0 = readTimerfd ?now (q\<lparr>tq_reads := Suc (tq_reads q)\<rparr>)"
  have q0: "tq_timers q0 = tq_timers q" "tq_ids q0 = tq_ids q" "tq_created q0 = tq_created q"
    "tq_log q0 = tq_log q" by (simp_all add: q0_def)
  have "timers_sorted (tq_timers q0)" using tq_invD(1) [OF inv] by (simp add: q0)
  then obtain ex ts where ex: "getExpired ?now q0 = (ex, q0\<lparr>tq_timers := ts\<rparr>)" "timers_sorted ts"
    "mset ex = filter_mset (\<lambda>t. tm_when t < ?now) (mset (tq_timers q))"
    "mset ts = filter_mset (\<lambda>t. \<not> tm_when t < ?now) (mset (tq_timers q))" "sorted (map tm_when ex)"
    using getExpired_result [of q0 ?now thesis] unfolding q0 by blast
  define q1 where "q1 = q0\<lparr>tq_timers := ts, tq_calling := True\<rparr>"
  define q2 where "q2 = (run_expired clk cbs ex q1)\<lparr>tq_calling := False\<rparr>"
  have eq: "handleRead clk cbs q = rearm clk (reset_expired ?now ex q2)"
    by (simp add: handleRead_def read_clock_def ex(1) q1_def q2_def flip: q0_def)
  have ex_set: "t \<in> set ex \<longleftrightarrow> t \<in> set (tq_timers q) \<and> tm_when t < ?now" for t
    using arg_cong [OF ex(3), of "\<lambda>m. t \<in># m"] by simp
  have "mset (ex @ ts) = mset (tq_timers q)"
    using ex(3,4) by (simp add: multiset_partition [of "mset (tq_timers q)" "\<lambda>t. tm_when t < ?now", symmetric])
  then have "ids_ok (ex @ ts) (set (tq_timers q)) (tq_ids q) (tq_created q) (tq_log q)"
    using ids_ok_perm [of "tq_timers q"] tq_invD(2) [OF inv] by simp
  moreover have "set (ex @ ts) \<subseteq> set (tq_timers q)"
    using mset_eq_setD [OF \<open>mset (ex @ ts) = mset (tq_timers q)\<close>] by simp
  ultimately have inv1: "tq_inv [] ex q1"
    using ex(2) by (auto simp: tq_inv_def q1_def q0 intro: ids_ok_less)
  have small1: "tq_created (run_expired clk cbs ex q1) < sz_modulus"
    using small by (simp add: eq q2_def)
  have q1: "tq_ids q1 = tq_ids q" "tq_log q1 = tq_log q" "tq_created q1 = tq_created q"
    by (simp_all add: q1_def q0)
  obtain runs where runs: "tq_inv ex [] (run_expired clk cbs ex q1)"
    "tq_log (run_expired clk cbs ex q1) = tq_log q @ runs" "subseq runs ex"
    "tm_id ` set runs \<subseteq> tq_ids q"
    "\<forall>t\<in>set ex. tm_id t \<in> tq_ids q \<longrightarrow>
          t \<in> set runs \<or> (\<exists>s\<in>set runs. InvalidateTimer (tm_id t) \<in> set (cbs (tm_callback s)))"
    "\<forall>i\<le>tq_created q. i \<in> tq_ids (run_expired clk cbs ex q1) \<longleftrightarrow>
          i \<in> tq_ids q \<and> (\<forall>s\<in>set runs. InvalidateTimer i \<notin> set (cbs (tm_callback s)))"
    using inv_run_expired [OF inv1 small1] unfolding q1 by auto
  have inv2: "tq_inv ex [] q2" using runs(1) by (simp add: q2_def tq_inv_def)
  note r = inv_reset_expired [OF inv2, of ?now]
  have sub: "set runs \<subseteq> set ex" by (rule subseq_subset [OF runs(3)])
  have "sorted (map tm_when runs)" "distinct (map tm_id runs)"
    using ex(5) ids_okD(1) [OF tq_invD(2) [OF inv1]] runs(3)
    by (auto simp: subseq_conv_nths nths_map [symmetric] intro: sorted_nths distinct_nthsI)
  moreover have "set runs \<subseteq> due clk q" using sub runs(4) ex_set by (auto simp: due_def)
  moreover have "\<forall>t\<in>due clk q. t \<in> set runs \<or>
      (\<exists>s\<in>set runs. InvalidateTimer (tm_id t) \<in> set (cbs (tm_callback s)))"
    using runs(5) ex_set by (auto simp: due_def)
  moreover have "t\<lparr>tm_when := ?now + 1000 * tm_interval t\<rparr> \<in> set (tq_timers (handleRead clk cbs q))"
    if "t \<in> set runs" "tm_repeat t" "tm_id t \<in> tq_ids (handleRead clk cbs q)" for t
  proof -
    have "tm_id t \<in> tq_ids q2" using that(3) by (simp add: eq reset_expired_ids)
    then have "Timer_restart ?now ?now t \<in> set (tq_timers (reset_expired ?now ex q2))"
      using r that sub by blast
    then show ?thesis using that(2) by (simp add: eq Timer_restart_def)
  qed
  moreover have "\<forall>i\<le>tq_created q. i \<in> tq_ids (handleRead clk cbs q) \<longrightarrow> i \<in> tq_ids q"
    using runs(6) by (auto simp: eq reset_expired_ids q2_def)
  moreover have "tq_log (handleRead clk cbs q) = tq_log q @ runs"
    by (simp add: eq q2_def runs(2))
  ultimately show ?thesis using inv_rearm r unfolding eq by blast
qed

section \<open>Reachable queues\<close>

lemma handleRead_created: "tq_created q \<le> tq_created (handleRead clk cbs q)"
proof -
  obtain ex q1 where g: "getExpired (clk (tq_reads q))
      (readTimerfd (clk (tq_reads q)) (q\<lparr>tq_reads := Suc (tq_reads q)\<rparr>)) = (ex, q1)" by fastforce
  then have "tq_created q1 = tq_created q"
    by (auto simp: getExpired_def split: prod.splits)
  then show ?thesis
    using run_expired_created [of "q1\<lparr>tq_calling := True\<rparr>" clk cbs ex]
    by (simp add: handleRead_def read_clock_def g)
qed

lemma TimerQueue_reset_fields [simp]:
  "tq_timers (TimerQueue_reset clk q) = tq_timers q" "tq_ids (TimerQueue_reset clk q) = tq_ids q"
  "tq_created (TimerQueue_reset clk q) = tq_created q" "tq_log (TimerQueue_reset clk q) = tq_log q"
  by (simp_all add: TimerQueue_reset_def)

lemma step_created: "tq_step clk cbs q q' \<Longrightarrow> tq_created q \<le> tq_created q'"
  by (erule tq_stepE) (simp_all add: handleRead_created)

lemma inv_step:
  assumes "tq_step clk cbs q q'" "tq_inv [] [] q" "tq_created q' < sz_modulus"
  shows "tq_inv [] [] q' \<and> (\<forall>i\<le>tq_created q. i \<in> tq_ids q' \<longrightarrow> i \<in> tq_ids q) \<and>
    (\<exists>new. tq_log q' = tq_log q @ new \<and> tm_id ` set new \<subseteq> tq_ids q)"
  using assms
proof (induction rule: tq_step.induct)
  case (tq_add q cb w iv)
  then have s: "Suc (tq_created q) < sz_modulus" by simp
  show ?case using inv_addTimer [OF tq_add(1) s] addTimer_fields [OF s] by auto
next
  case (tq_handleRead q)
  from handleRead_result [OF this] show ?case by (fastforce simp: due_def)
next
  case (tq_other q)
  then have "ids_ok (tq_timers q) (set (tq_timers q)) (tq_ids q) (tq_created q) (tq_log q)"
    by (simp add: tq_inv_def)
  then have "ids_ok (tq_timers q) (set (tq_timers q)) (tq_ids q) (Suc (tq_created q)) (tq_log q)"
    unfolding ids_ok_def by (auto intro: le_SucI)
  with tq_other show ?case by (simp add: tq_inv_def)
qed (auto simp: tq_inv_def intro: ids_ok_less)

lemma steps_created: "tq_steps clk cbs q q' \<Longrightarrow> tq_created q \<le> tq_created q'"
  by (induction rule: tq_steps.induct) (auto dest: step_created)

lemma inv_steps:
  assumes "tq_steps clk cbs q q'" "tq_inv [] [] q" "tq_created q' < sz_modulus"
  shows "tq_inv [] [] q' \<and> (\<forall>i\<le>tq_created q. i \<in> tq_ids q' \<longrightarrow> i \<in> tq_ids q) \<and>
    (\<exists>new. tq_log q' = tq_log q @ new \<and> (\<forall>t\<in>set new. tm_id t \<le> tq_created q \<longrightarrow> tm_id t \<in> tq_ids q))"
  using assms
proof (induction rule: tq_steps.induct)
  case (tq_refl q)
  then show ?case by simp
next
  case (tq_trans q q' q'')
  have "tq_created q' < sz_modulus" using step_created [OF tq_trans.hyps(2)] tq_trans.prems(2) by simp
  note IH = tq_trans.IH [OF tq_trans.prems(1) this]
  have le: "tq_created q \<le> tq_created q'" by (rule steps_created [OF tq_trans.hyps(1)])
  note st = inv_step [OF tq_trans.hyps(2) _ tq_trans.prems(2)]
  obtain n1 n2 where n: "tq_log q' = tq_log q @ n1" "tq_log q'' = tq_log q' @ n2"
    "\<forall>t\<in>set n1. tm_id t \<le> tq_created q \<longrightarrow> tm_id t \<in> tq_ids q" "tm_id ` set n2 \<subseteq> tq_ids q'"
    using IH st by blast
  have "\<forall>t\<in>set (n1 @ n2). tm_id t \<le> tq_created q \<longrightarrow> tm_id t \<in> tq_ids q"
    using n(3,4) IH by auto
  moreover have "tq_log q'' = tq_log q @ n1 @ n2" using n by simp
  ultimately show ?case using IH st le by (meson order_trans)
qed

lemma inv_new: "tq_inv [] [] (TimerQueue_new c)"
  by (simp add: tq_inv_def ids_ok_def TimerQueue_new_def timers_sorted_def)

section \<open>Properties\<close>

text \<open>
  C6. One expiration, in any reachable queue: the callbacks run are those of timers that are due
  and valid, in the order of their due times, each at most once; a due and valid timer is left
  out only when a callback that ran before the end invalidated it; and a repeating timer that
  ran and is still valid waits again, one interval after the time the handler started.
\<close>

theorem expiration_runs_due:
  assumes "tq_steps clk cbs (TimerQueue_new c) q" "tq_created (handleRead clk cbs q) < sz_modulus"
  shows "\<exists>runs. tq_log (handleRead clk cbs q) = tq_log q @ runs \<and> sorted (map tm_when runs) \<and>
       distinct (map tm_id runs) \<and> set runs \<subseteq> due clk q \<and>
       (\<forall>t\<in>due clk q. t \<in> set runs \<or> (\<exists>s\<in>set runs. InvalidateTimer (tm_id t) \<in> set (cbs (tm_callback s)))) \<and>
       (\<forall>t\<in>set runs. tm_repeat t \<and> tm_id t \<in> tq_ids (handleRead clk cbs q) \<longrightarrow>
          t\<lparr>tm_when := clk (tq_reads q) + 1000 * tm_interval t\<rparr> \<in> set (tq_timers (handleRead clk cbs q)))"
proof -
  have "tq_created q < sz_modulus" using handleRead_created [of q clk cbs] assms(2) by simp
  from conjunct1 [OF inv_steps [OF assms(1) inv_new this]] have "tq_inv [] [] q" .
  from conjunct2 [OF handleRead_result [OF this assms(2)]] show ?thesis
    by (elim exE conjE, intro exI conjI) assumption+
qed

text \<open>
  C30. Through any sequence of additions, invalidations, expirations, resets and timers made
  elsewhere, fewer than \<open>2\<^sup>6\<^sup>4\<close> timers in all: a single-shot timer runs at most once, every valid
  timer waits in the heap, the heap is in the order of the due times, and no two waiting timers
  share an identifier.
\<close>

theorem timers_run_once:
  assumes "tq_steps clk cbs (TimerQueue_new c) q" "tq_created q < sz_modulus"
  shows "distinct (map tm_id (filter (\<lambda>t. \<not> tm_repeat t) (tq_log q))) \<and>
    tq_ids q \<subseteq> tm_id ` set (tq_timers q) \<and> sorted (map tm_when (tq_timers q)) \<and>
    distinct (map tm_id (tq_timers q))"
  using inv_steps [OF assms(1) inv_new assms(2)] by (simp add: tq_inv_def ids_ok_def timers_sorted_def)


section \<open>The timerfd\<close>

definition armed_ok :: "clock \<Rightarrow> TimerQueue \<Rightarrow> bool" where
  "armed_ok clk q \<longleftrightarrow> (tq_timers q \<noteq> [] \<longrightarrow>
     (\<exists>t r. tq_armed q = Some t \<and> r < tq_reads q \<and>
        t \<le> max (tm_when (hd (tq_timers q))) (clk r + 100000)))"

lemma howMuch_bound:
  assumes "howMuchTimeFromNow w now = (sec, nsec)"
  shows "now + sec * 1000000000 + nsec \<le> max w (now + 100000)" "100000 \<le> sec * 1000000000 + nsec"
    "0 \<le> nsec" "nsec < 1000000000"
proof -
  define us where "us = (if (w - now) div 1000 < 100 then 100 else (w - now) div 1000)"
  have s: "sec = us div 1000000" "nsec = us mod 1000000 * 1000"
    using assms by (auto simp: howMuchTimeFromNow_def us_def Let_def split: if_splits)
  have "sec * 1000000000 + nsec = 1000 * us"
    unfolding s using div_mult_mod_eq [of us 1000000] by linarith
  moreover have "us = 100 \<or> 1000 * us \<le> w - now" "100 \<le> us" by (auto simp: us_def)
  ultimately show "now + sec * 1000000000 + nsec \<le> max w (now + 100000)"
    "100000 \<le> sec * 1000000000 + nsec" by linarith+
  show "0 \<le> nsec" "nsec < 1000000000" unfolding s by auto
qed

lemma resetTimerfd_armed:
  "\<exists>t. tq_armed (resetTimerfd clk w q) = Some t \<and> t \<le> max w (clk (tq_reads q) + 100000) \<and>
       tq_reads (resetTimerfd clk w q) = Suc (tq_reads q)"
proof -
  obtain sec nsec where h: "howMuchTimeFromNow w (clk (tq_reads q)) = (sec, nsec)" by fastforce
  from howMuch_bound(1) [OF h] show ?thesis by (simp add: resetTimerfd_def read_clock_def h)
qed

lemma rearm_ok: "armed_ok clk (rearm clk q)"
proof (cases "tq_timers q = []")
  case False
  then have "rearm clk q = resetTimerfd clk (tm_when (hd (tq_timers q))) q" by (simp add: rearm_def)
  with resetTimerfd_armed [of clk "tm_when (hd (tq_timers q))" q] show ?thesis
    by (auto simp: armed_ok_def)
qed (simp add: armed_ok_def)

lemma addTimerInLoop_ok:
  assumes "armed_ok clk q"
  shows "armed_ok clk (addTimerInLoop clk t q)"
proof -
  let ?q = "q\<lparr>tq_ids := insert (tm_id t) (tq_ids q), tq_timers := insort_key tm_when t (tq_timers q)\<rparr>"
  show ?thesis
  proof (cases "tq_timers q = [] \<or> Timer_less t (hd (tq_timers q))")
    case True
    then have "hd (insort_key tm_when t (tq_timers q)) = t"
      by (cases "tq_timers q") (auto simp: Timer_less_def)
    moreover have "addTimerInLoop clk t q = resetTimerfd clk (tm_when t) ?q"
      using True by (simp add: addTimerInLoop_def TimerQueue_insert_def)
    ultimately show ?thesis using resetTimerfd_armed [of clk "tm_when t" ?q]
      by (auto simp: armed_ok_def)
  next
    case False
    then have "tm_when (hd (insort_key tm_when t (tq_timers q))) = tm_when (hd (tq_timers q))"
      by (cases "tq_timers q") (auto simp: Timer_less_def)
    moreover have "addTimerInLoop clk t q = ?q"
      using False by (simp add: addTimerInLoop_def TimerQueue_insert_def)
    ultimately show ?thesis using assms False by (simp add: armed_ok_def)
  qed
qed

lemma step_armed: "tq_step clk cbs q q' \<Longrightarrow> armed_ok clk q \<Longrightarrow> armed_ok clk q'"
proof (induction rule: tq_step.induct)
  case (tq_add q cb w iv)
  then have "armed_ok clk (q\<lparr>tq_created := Suc (tq_created q)\<rparr>)" by (simp add: armed_ok_def)
  from addTimerInLoop_ok [OF this] show ?case
    by (simp add: addTimer_def create_timer_def)
next
  case (tq_handleRead q)
  show ?case by (simp add: handleRead_def read_clock_def rearm_ok split: prod.split)
next
  case (tq_reset q)
  show ?case by (simp add: TimerQueue_reset_def rearm_ok)
qed (simp_all add: armed_ok_def invalidateTimer_def)

text \<open>
  C32. Whenever a timer waits, the timerfd is set, and to fire no later than the due time of the
  earliest timer or 100 microseconds after a reading of the clock, whichever is later: no
  sequence of operations leaves a timer waiting with nothing to wake the loop.
\<close>

theorem timerfd_armed:
  assumes "tq_steps clk cbs (TimerQueue_new c) q" "tq_timers q \<noteq> []"
  shows "\<exists>t r. tq_armed q = Some t \<and> r < tq_reads q \<and>
    t \<le> max (tm_when (hd (tq_timers q))) (clk r + 100000)"
proof -
  have "tq_steps clk cbs q0 q \<Longrightarrow> armed_ok clk q0 \<Longrightarrow> armed_ok clk q" for q0
    by (induction rule: tq_steps.induct) (auto dest: step_armed)
  from this [OF assms(1)] assms(2) show ?thesis by (simp add: armed_ok_def TimerQueue_new_def)
qed

section \<open>A concrete queue\<close>

text \<open>
  Timer 1 is due at time 5 and invalidates timer 2, due at time 7; the clock shows 10 at the
  expiration.
\<close>

definition sample_cbs :: "nat \<Rightarrow> tq_op list" where
  "sample_cbs cb = (if cb = 1 then [InvalidateTimer 2] else [])"

definition sample_clock :: clock where
  "sample_clock r = 10 * int r"

definition sample_queue :: TimerQueue where
  "sample_queue = snd (addTimer sample_clock 2 7 0 (snd (addTimer sample_clock 1 5 0 (TimerQueue_new 0))))"

lemma sample_queue_steps: "tq_steps sample_clock sample_cbs (TimerQueue_new 0) sample_queue"
  unfolding sample_queue_def by (rule tq_trans [OF tq_trans [OF tq_refl tq_add] tq_add])

lemma sample_queue_first:
  "snd (addTimer sample_clock 1 5 0 (TimerQueue_new 0)) = \<lparr>tq_timers = [Timer_new 0 1 5 0], tq_ids = {1},
     tq_calling = False, tq_armed = Some 100000, tq_created = 1, tq_reads = 1, tq_log = []\<rparr>"
  by (simp add: addTimer_def create_timer_def addTimerInLoop_def TimerQueue_insert_def
      TimerQueue_new_def resetTimerfd_def read_clock_def sample_clock_def howMuchTimeFromNow_def)

lemma sample_queue_eval:
  "sample_queue = \<lparr>tq_timers = [Timer_new 0 1 5 0, Timer_new 1 2 7 0], tq_ids = {1, 2},
     tq_calling = False, tq_armed = Some 100000, tq_created = 2, tq_reads = 1, tq_log = []\<rparr>"
  unfolding sample_queue_def sample_queue_first
  by (simp add: addTimer_def create_timer_def addTimerInLoop_def TimerQueue_insert_def
      Timer_less_def insert_commute numeral_2_eq_2)

lemmas handle_eval = sample_queue_eval handleRead_def read_clock_def sample_clock_def readTimerfd_def
  getExpired_def Timer_run_def sample_cbs_def invalidateTimer_def rearm_def insert_Diff_if

lemma sample_queue_handle:
  "handleRead sample_clock sample_cbs sample_queue = \<lparr>tq_timers = [], tq_ids = {},
     tq_calling = False, tq_armed = Some 100000, tq_created = 2, tq_reads = 2,
     tq_log = [Timer_new 0 1 5 0]\<rparr>"
  by (simp add: handle_eval)

theorem expiration_runs_due_witness:
  "\<exists>runs. tq_log (handleRead sample_clock sample_cbs sample_queue) = tq_log sample_queue @ runs \<and>
     sorted (map tm_when runs) \<and> set runs \<subseteq> due sample_clock sample_queue"
  using expiration_runs_due [OF sample_queue_steps] by (auto simp: sample_queue_handle)

theorem timers_run_once_witness:
  "distinct (map tm_id (filter (\<lambda>t. \<not> tm_repeat t) (tq_log sample_queue))) \<and>
    tq_ids sample_queue \<subseteq> tm_id ` set (tq_timers sample_queue) \<and>
    sorted (map tm_when (tq_timers sample_queue)) \<and> distinct (map tm_id (tq_timers sample_queue))"
  by (rule timers_run_once [OF sample_queue_steps]) (simp add: sample_queue_eval)


theorem timerfd_armed_witness:
  "\<exists>t r. tq_armed sample_queue = Some t \<and> r < tq_reads sample_queue \<and>
    t \<le> max (tm_when (hd (tq_timers sample_queue))) (sample_clock r + 100000)"
  by (rule timerfd_armed [OF sample_queue_steps]) (simp add: sample_queue_eval)

end
