(* ===== verification/MpscQueue.thy ===== *)
theory MpscQueue
  imports Prelude "HOL-Library.Sublist"
begin

text \<open>
  The multiple-producer single-consumer queue of src/xiaoNet/utils/LockFreeQueue.h: a linked list
  with one node more than elements, producers that exchange the head and then store the link,
  a consumer that follows the link of the tail. The atomic operations interleave; the orderings
  the code asks for (acquire and release on the link and the head) make that the right model.
  Accesses to freed memory are failures.
\<close>

section \<open>State\<close>

text \<open>
  Nodes are numbers, never reused here; a node's link and data are read through the maps while
  it is live. \<open>mq_pending p\<close> is the pair of locals of producer \<open>p\<close> between its two atomic steps.
\<close>

record 'a mpsc =
  mq_next :: "nat \<Rightarrow> nat option"
  mq_data :: "nat \<Rightarrow> 'a option"
  mq_live :: "nat set"
  mq_fresh :: nat
  mq_head :: nat
  mq_tail :: nat
  mq_pending :: "nat \<Rightarrow> (nat \<times> nat) option"

definition MpscQueue_new :: "'a mpsc" where
  "MpscQueue_new = \<lparr>mq_next = (\<lambda>_. None), mq_data = (\<lambda>_. None), mq_live = {0}, mq_fresh = 1,
     mq_head = 0, mq_tail = 0, mq_pending = (\<lambda>_. None)\<rparr>"

section \<open>Operations\<close>

text \<open>\<open>enqueue\<close>: the new node and the exchange of the head, then the store of the link.\<close>

definition enqueue_exchange :: "nat \<Rightarrow> 'a \<Rightarrow> 'a mpsc \<Rightarrow> 'a mpsc" where
  "enqueue_exchange p v q =
     (let node = mq_fresh q; prevhead = mq_head q in
      q\<lparr>mq_next := (mq_next q)(node := None), mq_data := (mq_data q)(node := Some v),
        mq_live := insert node (mq_live q), mq_fresh := Suc node, mq_head := node,
        mq_pending := (mq_pending q)(p := Some (prevhead, node))\<rparr>)"

definition enqueue_store :: "nat \<Rightarrow> 'a mpsc \<Rightarrow> 'a mpsc res" where
  "enqueue_store p q =
     (case mq_pending q p of
        None \<Rightarrow> Inr q
      | Some (prevhead, node) \<Rightarrow>
          if prevhead \<in> mq_live q
          then Inr (q\<lparr>mq_next := (mq_next q)(prevhead := Some node),
                      mq_pending := (mq_pending q)(p := None)\<rparr>)
          else Inl OutOfBounds)"

definition MpscQueue_enqueue :: "nat \<Rightarrow> 'a \<Rightarrow> 'a mpsc \<Rightarrow> 'a mpsc res" where
  "MpscQueue_enqueue p v q = enqueue_store p (enqueue_exchange p v q)"

text \<open>\<open>dequeue\<close>: the output, if any, and the queue. The consumer is alone on the tail.\<close>

definition MpscQueue_dequeue :: "'a mpsc \<Rightarrow> ('a option \<times> 'a mpsc) res" where
  "MpscQueue_dequeue q =
     (let tail = mq_tail q in
      if tail \<notin> mq_live q then Inl OutOfBounds
      else case mq_next q tail of
        None \<Rightarrow> Inr (None, q)
      | Some next \<Rightarrow>
          (if next \<notin> mq_live q then Inl OutOfBounds
           else case mq_data q next of
             None \<Rightarrow> Inl OutOfBounds
           | Some v \<Rightarrow> Inr (Some v, q\<lparr>mq_data := (mq_data q)(next := None), mq_tail := next,
                                    mq_live := mq_live q - {tail}\<rparr>)))"

definition MpscQueue_empty :: "'a mpsc \<Rightarrow> bool" where
  "MpscQueue_empty q \<longleftrightarrow> mq_next q (mq_tail q) = None"

text \<open>The destructor: a loop of \<open>dequeue\<close>, bounded here, then the node that is left.\<close>

fun drain_queue :: "nat \<Rightarrow> 'a mpsc \<Rightarrow> 'a mpsc res" where
  "drain_queue 0 q = Inl OutOfFuel"
| "drain_queue (Suc k) q = bind_res (MpscQueue_dequeue q)
     (\<lambda>(r, q). case r of None \<Rightarrow> Inr q | Some v \<Rightarrow> drain_queue k q)"

definition MpscQueue_destroy :: "nat \<Rightarrow> 'a mpsc \<Rightarrow> 'a mpsc res" where
  "MpscQueue_destroy k q = bind_res (drain_queue k q)
     (\<lambda>q. if mq_head q \<in> mq_live q then Inr (q\<lparr>mq_live := mq_live q - {mq_head q}\<rparr>) else Inl OutOfBounds)"

section \<open>Interleavings\<close>

text \<open>
  A state with the values enqueued so far, in the order of the exchanges, and those dequeued.
\<close>

inductive mpsc_reach :: "'a mpsc \<Rightarrow> 'a list \<Rightarrow> 'a list \<Rightarrow> bool" where
  mpsc_new: "mpsc_reach MpscQueue_new [] []"
| mpsc_exchange: "mpsc_reach q enq deq \<Longrightarrow> mq_pending q p = None \<Longrightarrow>
    mpsc_reach (enqueue_exchange p v q) (enq @ [v]) deq"
| mpsc_store: "mpsc_reach q enq deq \<Longrightarrow> mq_pending q p \<noteq> None \<Longrightarrow> enqueue_store p q = Inr q' \<Longrightarrow>
    mpsc_reach q' enq deq"
| mpsc_dequeue: "mpsc_reach q enq deq \<Longrightarrow> MpscQueue_dequeue q = Inr (Some v, q') \<Longrightarrow>
    mpsc_reach q' enq (deq @ [v])"

section \<open>The chain of nodes\<close>

abbreviation links :: "nat list \<Rightarrow> (nat \<times> nat) set" where
  "links ns \<equiv> set (zip ns (tl ns))"

definition mpsc_inv :: "'a mpsc \<Rightarrow> nat list \<Rightarrow> 'a list \<Rightarrow> bool" where
  "mpsc_inv q ns vs \<longleftrightarrow>
     ns \<noteq> [] \<and> distinct ns \<and> hd ns = mq_tail q \<and> last ns = mq_head q \<and> mq_live q = set ns \<and>
     (\<forall>n\<in>set ns. n < mq_fresh q) \<and> mq_next q (last ns) = None \<and>
     (\<forall>(a, b)\<in>links ns. mq_next q a = Some b \<or>
        (mq_next q a = None \<and> (\<exists>p. mq_pending q p = Some (a, b)))) \<and>
     (\<forall>p a b. mq_pending q p = Some (a, b) \<longrightarrow> (a, b) \<in> links ns \<and> mq_next q a = None) \<and>
     (\<forall>p p' a b. mq_pending q p = Some (a, b) \<and> mq_pending q p' = Some (a, b) \<longrightarrow> p = p') \<and>
     map (mq_data q) (tl ns) = map Some vs"

lemma mpsc_invD:
  assumes "mpsc_inv q ns vs"
  shows "ns \<noteq> []" "distinct ns" "hd ns = mq_tail q" "last ns = mq_head q" "mq_live q = set ns"
    "mq_next q (last ns) = None" "map (mq_data q) (tl ns) = map Some vs"
  using assms unfolding mpsc_inv_def by blast+

lemma links_snoc: "ns \<noteq> [] \<Longrightarrow> links (ns @ [n]) = insert (last ns, n) (links ns)"
proof (induction ns)
  case (Cons a ns)
  then show ?case by (cases ns) auto
qed simp

lemma links_sub: "(a, b) \<in> links ns \<Longrightarrow> a \<in> set ns \<and> b \<in> set ns"
  by (auto dest: set_zip_leftD set_zip_rightD intro: list.set_sel(2))

lemma links_fun: "distinct ns \<Longrightarrow> (a, b) \<in> links ns \<Longrightarrow> (a, b') \<in> links ns \<Longrightarrow> b = b'"
  by (fastforce simp: in_set_zip nth_eq_iff_index_eq)

lemma links_last: "distinct ns \<Longrightarrow> ns \<noteq> [] \<Longrightarrow> (last ns, b) \<notin> links ns"
  by (auto simp: in_set_zip last_conv_nth nth_eq_iff_index_eq)

lemma mpsc_inv_new: "mpsc_inv MpscQueue_new [0] []"
  by (simp add: mpsc_inv_def MpscQueue_new_def)

lemma mpsc_inv_exchange:
  assumes inv: "mpsc_inv q ns vs" and p: "mq_pending q p = None"
  shows "mpsc_inv (enqueue_exchange p v q) (ns @ [mq_fresh q]) (vs @ [v])"
proof -
  have fresh: "mq_fresh q \<notin> set ns" and ne: "ns \<noteq> []" and dist: "distinct ns"
    using inv by (auto simp: mpsc_inv_def)
  have tl: "tl (ns @ [mq_fresh q]) = tl ns @ [mq_fresh q]" using ne by simp
  have "map (mq_data (enqueue_exchange p v q)) (tl ns) = map (mq_data q) (tl ns)"
    using fresh ne by (intro map_cong) (auto simp: enqueue_exchange_def Let_def dest: list.set_sel(2))
  then have data: "map (mq_data (enqueue_exchange p v q)) (tl (ns @ [mq_fresh q])) = map Some (vs @ [v])"
  proof -
    have "mq_data (enqueue_exchange p v q) (mq_fresh q) = Some v"
      by (simp add: enqueue_exchange_def Let_def)
    moreover have "map (mq_data q) (tl ns) = map Some vs" using inv by (simp add: mpsc_inv_def)
    ultimately show ?thesis
      unfolding tl using \<open>map (mq_data (enqueue_exchange p v q)) (tl ns) = map (mq_data q) (tl ns)\<close>
      by simp
  qed
  have apart: "a \<noteq> mq_fresh q \<and> b \<noteq> mq_fresh q \<and> a \<noteq> last ns" if "(a, b) \<in> links ns" for a b
    using links_sub [OF that] fresh links_last [OF dist ne, of b] that by auto
  show ?thesis
    unfolding mpsc_inv_def
  proof (intro conjI)
    show "\<forall>(a, b)\<in>links (ns @ [mq_fresh q]). mq_next (enqueue_exchange p v q) a = Some b \<or>
        (mq_next (enqueue_exchange p v q) a = None \<and>
         (\<exists>p'. mq_pending (enqueue_exchange p v q) p' = Some (a, b)))"
    proof (intro ballI, clarify)
      fix a b assume ab: "(a, b) \<in> links (ns @ [mq_fresh q])"
        and none: "\<not> (mq_next (enqueue_exchange p v q) a = None \<and>
          (\<exists>p'. mq_pending (enqueue_exchange p v q) p' = Some (a, b)))"
      from ab consider "(a, b) = (last ns, mq_fresh q)" | "(a, b) \<in> links ns"
        unfolding links_snoc [OF ne] by blast
      then show "mq_next (enqueue_exchange p v q) a = Some b"
      proof cases
        case 1
        have "last ns \<noteq> mq_fresh q" using fresh ne last_in_set by metis
        then have "mq_next (enqueue_exchange p v q) (last ns) = None"
          "mq_pending (enqueue_exchange p v q) p = Some (last ns, mq_fresh q)"
          using mpsc_invD(4,6) [OF inv] by (simp_all add: enqueue_exchange_def Let_def)
        then show ?thesis using none 1 by blast
      next
        case 2
        then consider "mq_next q a = Some b" | p' where "mq_next q a = None" "mq_pending q p' = Some (a, b)"
          using inv unfolding mpsc_inv_def by blast
        then show ?thesis
        proof cases
          case 2
          then have "p' \<noteq> p" using p by auto
          then have "mq_pending (enqueue_exchange p v q) p' = Some (a, b)"
            "mq_next (enqueue_exchange p v q) a = None"
            using 2 apart [OF \<open>(a, b) \<in> links ns\<close>] by (simp_all add: enqueue_exchange_def Let_def)
          then show ?thesis using none by blast
        qed (use apart [OF 2] in \<open>simp add: enqueue_exchange_def Let_def\<close>)
      qed
    qed
    show "\<forall>p' a b. mq_pending (enqueue_exchange p v q) p' = Some (a, b) \<longrightarrow>
        (a, b) \<in> links (ns @ [mq_fresh q]) \<and> mq_next (enqueue_exchange p v q) a = None"
      using inv fresh ne unfolding links_snoc [OF ne]
      by (auto simp: mpsc_inv_def enqueue_exchange_def Let_def)
    show "\<forall>p1 p2 a b. mq_pending (enqueue_exchange p v q) p1 = Some (a, b) \<and>
        mq_pending (enqueue_exchange p v q) p2 = Some (a, b) \<longrightarrow> p1 = p2"
    proof (intro allI impI)
      fix p1 p2 a b
      assume eq: "mq_pending (enqueue_exchange p v q) p1 = Some (a, b) \<and>
        mq_pending (enqueue_exchange p v q) p2 = Some (a, b)"
      have "b \<noteq> mq_fresh q" if "mq_pending q p' = Some (a, b)" for p'
        using inv that apart unfolding mpsc_inv_def by blast
      then show "p1 = p2" using eq inv
        by (auto simp: enqueue_exchange_def Let_def mpsc_inv_def split: if_splits)
    qed
  qed (use inv fresh ne dist data in \<open>auto simp: mpsc_inv_def enqueue_exchange_def Let_def\<close>)
qed

lemma mpsc_inv_store:
  assumes inv: "mpsc_inv q ns vs" and p: "mq_pending q p = Some (a, b)"
  shows "\<exists>q'. enqueue_store p q = Inr q' \<and> mpsc_inv q' ns vs"
proof -
  let ?q = "q\<lparr>mq_next := (mq_next q)(a := Some b), mq_pending := (mq_pending q)(p := None)\<rparr>"
  have ab: "(a, b) \<in> links ns" and dist: "distinct ns" and ne: "ns \<noteq> []"
    using inv p by (auto simp: mpsc_inv_def)
  have "a \<in> mq_live q" using links_sub [OF ab] inv by (simp add: mpsc_inv_def)
  then have "enqueue_store p q = Inr ?q" by (simp add: enqueue_store_def p)
  moreover have "mpsc_inv ?q ns vs"
    unfolding mpsc_inv_def
  proof (intro conjI)
    show "\<forall>(x, y)\<in>links ns. mq_next ?q x = Some y \<or>
        (mq_next ?q x = None \<and> (\<exists>p'. mq_pending ?q p' = Some (x, y)))"
    proof (intro ballI, clarify)
      fix x y assume xy: "(x, y) \<in> links ns"
        and none: "\<not> (mq_next ?q x = None \<and> (\<exists>p'. mq_pending ?q p' = Some (x, y)))"
      show "mq_next ?q x = Some y"
      proof (cases "x = a")
        case True
        then show ?thesis using links_fun [OF dist ab] xy by simp
      next
        case False
        have "mq_next q x = Some y \<or> (mq_next q x = None \<and> (\<exists>p'. mq_pending q p' = Some (x, y)))"
          using inv xy unfolding mpsc_inv_def by blast
        then consider "mq_next q x = Some y" | p' where "mq_next q x = None" "mq_pending q p' = Some (x, y)"
          by blast
        then show ?thesis
        proof cases
          case 2
          then have "mq_pending ?q p' = Some (x, y)" using p False by auto
          then show ?thesis using 2 False none by auto
        qed (use False in simp)
      qed
    qed
    show "\<forall>p' x y. mq_pending ?q p' = Some (x, y) \<longrightarrow> (x, y) \<in> links ns \<and> mq_next ?q x = None"
    proof (intro allI impI)
      fix p' x y assume "mq_pending ?q p' = Some (x, y)"
      then have p': "mq_pending q p' = Some (x, y)" "p' \<noteq> p" by (auto split: if_splits)
      then have xy: "(x, y) \<in> links ns" "mq_next q x = None" using inv by (auto simp: mpsc_inv_def)
      have "x \<noteq> a"
      proof
        assume "x = a"
        then have "y = b" using links_fun [OF dist _ ab] xy(1) by blast
        then show False using inv p p' \<open>x = a\<close> unfolding mpsc_inv_def by blast
      qed
      then show "(x, y) \<in> links ns \<and> mq_next ?q x = None" using xy by simp
    qed
    show "\<forall>p1 p2 x y. mq_pending ?q p1 = Some (x, y) \<and> mq_pending ?q p2 = Some (x, y) \<longrightarrow> p1 = p2"
      using inv by (auto simp: mpsc_inv_def)
    have "a \<noteq> last ns" using links_last [OF dist ne] ab by blast
    then show "mq_next ?q (last ns) = None" using mpsc_invD(6) [OF inv] by simp
  qed (use inv in \<open>auto simp: mpsc_inv_def\<close>)
  ultimately show ?thesis by blast
qed

lemma dequeue_result:
  assumes inv: "mpsc_inv q ns vs"
  shows "if mq_next q (mq_tail q) = None then MpscQueue_dequeue q = Inr (None, q)
    else \<exists>v vs' q'. MpscQueue_dequeue q = Inr (Some v, q') \<and> vs = v # vs' \<and> mpsc_inv q' (tl ns) vs'"
proof (cases "mq_next q (mq_tail q)")
  case None
  have "mq_tail q \<in> mq_live q" using mpsc_invD(1,3,5) [OF inv] by (metis hd_in_set)
  then show ?thesis using None by (simp add: MpscQueue_dequeue_def)
next
  case (Some b)
  have ne: "ns \<noteq> []" and dist: "distinct ns" and hd: "hd ns = mq_tail q" and live: "mq_live q = set ns"
    using inv by (auto simp: mpsc_inv_def)
  have "tl ns \<noteq> []"
  proof
    assume "tl ns = []"
    then have "ns = [mq_tail q]" using ne hd by (cases ns) auto
    then show False using inv Some by (simp add: mpsc_inv_def)
  qed
  then obtain c rest where ns: "ns = mq_tail q # c # rest" using ne hd
    by (cases ns; cases "tl ns") auto
  have cb: "c = b"
  proof -
    have "(mq_tail q, c) \<in> links ns" using ns by simp
    then show ?thesis using inv Some unfolding mpsc_inv_def by fastforce
  qed
  obtain v vs' where vs: "vs = v # vs'" "mq_data q b = Some v"
    "map (mq_data q) rest = map Some vs'"
  proof -
    have "map (mq_data q) (b # rest) = map Some vs" using inv ns cb by (simp add: mpsc_inv_def)
    then show thesis using that by (cases vs) auto
  qed
  let ?q = "q\<lparr>mq_data := (mq_data q)(b := None), mq_tail := b, mq_live := mq_live q - {mq_tail q}\<rparr>"
  have "MpscQueue_dequeue q = Inr (Some v, ?q)"
    using Some ns cb live vs(2) by (simp add: MpscQueue_dequeue_def)
  moreover have "mpsc_inv ?q (tl ns) vs'"
    unfolding mpsc_inv_def
  proof (intro conjI)
    have sub: "links (tl ns) \<subseteq> links ns" using ns by auto
    show "\<forall>(x, y)\<in>links (tl ns). mq_next ?q x = Some y \<or>
        (mq_next ?q x = None \<and> (\<exists>p'. mq_pending ?q p' = Some (x, y)))"
    proof -
      have "\<forall>(x, y)\<in>links ns. mq_next q x = Some y \<or>
          (mq_next q x = None \<and> (\<exists>p'. mq_pending q p' = Some (x, y)))"
        using inv unfolding mpsc_inv_def by blast
      then show ?thesis using sub by auto
    qed
    show "\<forall>p' x y. mq_pending ?q p' = Some (x, y) \<longrightarrow> (x, y) \<in> links (tl ns) \<and> mq_next ?q x = None"
    proof (intro allI impI)
      fix p' x y assume "mq_pending ?q p' = Some (x, y)"
      then have xy: "(x, y) \<in> links ns" "mq_next q x = None" using inv by (auto simp: mpsc_inv_def)
      then have "x \<noteq> mq_tail q" using Some by auto
      then show "(x, y) \<in> links (tl ns) \<and> mq_next ?q x = None" using xy ns by auto
    qed
    show "map (mq_data ?q) (tl (tl ns)) = map Some vs'"
    proof -
      have "b \<notin> set rest" using dist ns cb by simp
      then have "map (mq_data ?q) rest = map (mq_data q) rest" by simp
      then show ?thesis using ns vs(3) by simp
    qed
    show "\<forall>p1 p2 x y. mq_pending ?q p1 = Some (x, y) \<and> mq_pending ?q p2 = Some (x, y) \<longrightarrow> p1 = p2"
      using inv by (auto simp: mpsc_inv_def)
    show "last (tl ns) = mq_head ?q" "mq_next ?q (last (tl ns)) = None"
      using inv ns by (auto simp: mpsc_inv_def)
    show "mq_live ?q = set (tl ns)" using live ns dist by auto
  qed (use inv ns dist cb in \<open>auto simp: mpsc_inv_def\<close>)
  ultimately show ?thesis using Some vs(1) by simp
qed

lemma mpsc_reach_inv: "mpsc_reach q enq deq \<Longrightarrow> \<exists>ns vs. mpsc_inv q ns vs \<and> enq = deq @ vs"
proof (induction rule: mpsc_reach.induct)
  case mpsc_new
  then show ?case using mpsc_inv_new by fastforce
next
  case (mpsc_exchange q enq deq p v)
  then obtain ns vs where "mpsc_inv q ns vs" "enq = deq @ vs" by blast
  with mpsc_inv_exchange [OF _ mpsc_exchange.hyps(2)] show ?case by (metis append_assoc)
next
  case (mpsc_store q enq deq p q')
  then obtain a b where "mq_pending q p = Some (a, b)" by auto
  moreover obtain ns vs where "mpsc_inv q ns vs" "enq = deq @ vs" using mpsc_store.IH by blast
  ultimately show ?case using mpsc_inv_store [of q ns vs p a b] mpsc_store.hyps(3) by auto
next
  case (mpsc_dequeue q enq deq v q')
  then obtain ns vs where inv: "mpsc_inv q ns vs" "enq = deq @ vs" by blast
  from dequeue_result [OF inv(1)] mpsc_dequeue.hyps(2) inv(2) show ?case
    by (auto split: if_splits)
qed

section \<open>Properties\<close>

text \<open>
  C10. In every interleaving of any number of producers with the consumer: the values come out in
  the order of the exchanges, each once; the next value out is the oldest one not yet taken; no
  step reads, writes or frees memory that was freed, the store of a slow producer included.
\<close>

theorem mpsc_fifo:
  assumes "mpsc_reach q enq deq"
  shows "prefix deq enq \<and>
    (\<forall>p. \<exists>q'. enqueue_store p q = Inr q') \<and>
    (\<exists>r q'. MpscQueue_dequeue q = Inr (r, q') \<and>
       (case r of None \<Rightarrow> q' = q | Some v \<Rightarrow> length deq < length enq \<and> v = enq ! length deq))"
proof -
  obtain ns vs where inv: "mpsc_inv q ns vs" "enq = deq @ vs" using mpsc_reach_inv [OF assms] by blast
  have "\<exists>q'. enqueue_store p q = Inr q'" for p
  proof (cases "mq_pending q p")
    case (Some ab)
    then show ?thesis using mpsc_inv_store [OF inv(1), of p] by (cases ab) auto
  qed (simp add: enqueue_store_def)
  moreover have "\<exists>r q'. MpscQueue_dequeue q = Inr (r, q') \<and>
       (case r of None \<Rightarrow> q' = q | Some v \<Rightarrow> length deq < length enq \<and> v = enq ! length deq)"
    using dequeue_result [OF inv(1)] inv(2) by (cases "mq_next q (mq_tail q)") (auto simp: nth_append)
  ultimately show ?thesis using inv(2) by simp
qed

lemma mpsc_empty_pending:
  assumes "mpsc_reach q enq deq"
  shows "MpscQueue_empty q \<longleftrightarrow> deq = enq \<or> (\<exists>p node. mq_pending q p = Some (mq_tail q, node))"
proof -
  obtain ns vs where inv: "mpsc_inv q ns vs" "enq = deq @ vs" using mpsc_reach_inv [OF assms] by blast
  have head: "ns = mq_tail q # tl ns" using inv(1) by (cases ns) (auto simp: mpsc_inv_def)
  have len: "length (tl ns) = length vs"
    using inv(1) unfolding mpsc_inv_def by (metis length_map)
  show ?thesis
  proof (cases "tl ns")
    case Nil
    then have "ns = [mq_tail q]" "vs = []" using head len by auto
    then show ?thesis using inv by (auto simp: MpscQueue_empty_def mpsc_inv_def)
  next
    case (Cons b rest)
    then have link: "(mq_tail q, b) \<in> links ns" using head by (cases ns) auto
    have "vs \<noteq> []" using len Cons by auto
    moreover have "mq_next q (mq_tail q) = None \<longleftrightarrow> (\<exists>p node. mq_pending q p = Some (mq_tail q, node))"
      using inv(1) link unfolding mpsc_inv_def by fastforce
    ultimately show ?thesis using inv(2) by (simp add: MpscQueue_empty_def)
  qed
qed

text \<open>Without a producer between its steps the destructor frees every node and every value, once.\<close>

lemma drain_empties:
  assumes "mpsc_inv q ns vs" "\<forall>p. mq_pending q p = None" "length vs < k"
  shows "\<exists>q' n. drain_queue k q = Inr q' \<and> mpsc_inv q' [n] []"
  using assms
proof (induction k arbitrary: q ns vs)
  case (Suc k)
  show ?case
  proof (cases "mq_next q (mq_tail q)")
    case None
    have ns: "ns \<noteq> []" "hd ns = mq_tail q" using Suc.prems(1) by (auto simp: mpsc_inv_def)
    have "tl ns = []"
    proof (rule ccontr)
      assume "tl ns \<noteq> []"
      with ns obtain b rest where "ns = mq_tail q # b # rest" by (metis list.collapse)
      then have "(mq_tail q, b) \<in> links ns" by simp
      then have "mq_next q (mq_tail q) = Some b \<or> (\<exists>p. mq_pending q p = Some (mq_tail q, b))"
        using Suc.prems(1) unfolding mpsc_inv_def by blast
      with Suc.prems(2) None show False by simp
    qed
    with ns have "ns = [mq_tail q]" by (metis list.collapse)
    moreover have "vs = []" using mpsc_invD(7) [OF Suc.prems(1)] \<open>tl ns = []\<close> by simp
    moreover have "MpscQueue_dequeue q = Inr (None, q)" using dequeue_result [OF Suc.prems(1)] None by simp
    ultimately show ?thesis using Suc.prems(1) by auto
  next
    case (Some b)
    with dequeue_result [OF Suc.prems(1)] obtain v vs' q' where
      q': "MpscQueue_dequeue q = Inr (Some v, q')" "vs = v # vs'" "mpsc_inv q' (tl ns) vs'" by auto
    have "mq_pending q' = mq_pending q"
      using q'(1) by (auto simp: MpscQueue_dequeue_def Let_def split: if_splits option.splits)
    with Suc.IH [OF q'(3)] Suc.prems(2,3) q'(1,2) show ?thesis by auto
  qed
qed simp

lemma destroy_frees:
  assumes "mpsc_reach q enq deq" "\<forall>p. mq_pending q p = None" "length enq - length deq < k"
  shows "\<exists>q'. MpscQueue_destroy k q = Inr q' \<and> mq_live q' = {}"
proof -
  obtain ns vs where inv: "mpsc_inv q ns vs" "enq = deq @ vs" using mpsc_reach_inv [OF assms(1)] by blast
  with assms(3) have "length vs < k" by simp
  from drain_empties [OF inv(1) assms(2) this] obtain q' n where
    "drain_queue k q = Inr q'" "mpsc_inv q' [n] []" by blast
  then show ?thesis by (auto simp: MpscQueue_destroy_def mpsc_inv_def)
qed

text \<open>
  The consumer finds the queue empty exactly when every value has been taken or the producer
  of the oldest one is between its exchange and its store; with no producer in between, a queue
  that holds a value yields it.
\<close>

theorem mpsc_empty:
  assumes "mpsc_reach q enq deq"
  shows "MpscQueue_empty q \<longleftrightarrow> deq = enq \<or> (\<exists>p node. mq_pending q p = Some (mq_tail q, node))"
  by (rule mpsc_empty_pending [OF assms])

text \<open>Two producers: the second completes while the first is between its two steps.\<close>

definition two_producers :: "nat mpsc" where
  "two_producers = projr (enqueue_store 2 (enqueue_exchange 2 20 (enqueue_exchange 1 10 MpscQueue_new)))"

lemma two_producers_reach: "mpsc_reach two_producers [10, 20] []"
proof -
  let ?q = "enqueue_exchange 2 20 (enqueue_exchange 1 10 MpscQueue_new) :: nat mpsc"
  have "mpsc_reach ?q (([] @ [10]) @ [20]) []"
    by (rule mpsc_exchange [OF mpsc_exchange [OF mpsc_new]])
       (simp_all add: MpscQueue_new_def enqueue_exchange_def Let_def)
  then have "mpsc_reach ?q [10, 20] []" by simp
  then show ?thesis
    unfolding two_producers_def
    by (rule mpsc_store [of ?q _ _ 2])
       (simp_all add: MpscQueue_new_def enqueue_exchange_def enqueue_store_def Let_def)
qed

theorem mpsc_fifo_witness:
  "\<exists>r q'. MpscQueue_dequeue two_producers = Inr (r, q') \<and>
     (case r of None \<Rightarrow> q' = two_producers | Some v \<Rightarrow> v = 10)"
proof -
  obtain r q' where "MpscQueue_dequeue two_producers = Inr (r, q')"
    "case r of None \<Rightarrow> q' = two_producers
       | Some v \<Rightarrow> length ([] :: nat list) < length [10, 20 :: nat] \<and> v = [10, 20] ! length ([] :: nat list)"
    using mpsc_fifo [OF two_producers_reach] by blast
  then show ?thesis by (intro exI [of _ r] exI [of _ q']) (simp split: option.splits)
qed

theorem mpsc_empty_witness: "MpscQueue_empty two_producers"
  using mpsc_empty [OF two_producers_reach]
  by (auto simp: two_producers_def MpscQueue_new_def enqueue_exchange_def enqueue_store_def Let_def)

end
