(* ===== verification/LoopWakeup.thy ===== *)
theory LoopWakeup
  imports MpscQueue
begin

text \<open>
  The event loop of src/xiaoNet/net/EventLoop.cpp against other threads, on the lock-free queue
  itself: every atomic step of \<open>queueInLoop\<close>, \<open>quit\<close> and \<open>loop\<close> is a step of its own, and the
  steps of all threads interleave. Thread 0 is the thread of the loop.
\<close>

section \<open>State\<close>

text \<open>
  Where thread 0 is: outside \<open>loop()\<close>; at the test of \<open>quit_\<close>; in \<open>poll\<close>; handling the active
  channels, the flag telling whether the wake-up channel is still to be handled; at the test of
  the outer loop of \<open>doRunInLoopFuncs\<close>; at the \<open>dequeue\<close> of the inner one; in a function.
\<close>

datatype loop_pc = PcOut | PcTest | PcPoll | PcHandle bool | PcOuter | PcInner | PcFunc

text \<open>
  \<open>wl_waking\<close> are the threads past their store, to the queue or to \<open>quit_\<close>, and before the
  decision to wake the loop. \<open>wl_enq\<close> and \<open>wl_deq\<close> record what was queued and taken, \<open>wl_threw\<close>
  whether an exception has left the loop.
\<close>

record wloop =
  wl_pc :: loop_pc
  wl_looping :: bool
  wl_quit :: bool
  wl_funcs :: "nat mpsc"
  wl_wakeupFd :: nat
  wl_waking :: "nat set"
  wl_enq :: "nat list"
  wl_deq :: "nat list"
  wl_threw :: bool

definition wl_new :: wloop where
  "wl_new = \<lparr>wl_pc = PcOut, wl_looping = False, wl_quit = False, wl_funcs = MpscQueue_new,
     wl_wakeupFd = 0, wl_waking = {}, wl_enq = [], wl_deq = [], wl_threw = False\<rparr>"

text \<open>A thread inside \<open>queueInLoop\<close> or \<open>quit\<close>.\<close>

definition busy :: "nat \<Rightarrow> wloop \<Rightarrow> bool" where
  "busy p s \<longleftrightarrow> mq_pending (wl_funcs s) p \<noteq> None \<or> p \<in> wl_waking s"

text \<open>Thread 0 calls the loop from outside it, from handlers and from functions.\<close>

definition may_call :: "nat \<Rightarrow> wloop \<Rightarrow> bool" where
  "may_call p s \<longleftrightarrow> \<not> busy p s \<and>
     (p = 0 \<longrightarrow> wl_pc s = PcOut \<or> wl_pc s = PcFunc \<or> (\<exists>w. wl_pc s = PcHandle w))"

section \<open>Steps\<close>

text \<open>\<open>queueInLoop\<close>: the two halves of \<open>enqueue\<close>, then the decision.\<close>

definition wl_exchange :: "nat \<Rightarrow> nat \<Rightarrow> wloop \<Rightarrow> wloop" where
  "wl_exchange p f s = s\<lparr>wl_funcs := enqueue_exchange p f (wl_funcs s), wl_enq := wl_enq s @ [f]\<rparr>"

definition wl_store :: "nat \<Rightarrow> wloop \<Rightarrow> wloop res" where
  "wl_store p s = bind_res (enqueue_store p (wl_funcs s))
     (\<lambda>q. Inr (s\<lparr>wl_funcs := q, wl_waking := insert p (wl_waking s)\<rparr>))"

definition wl_wakeup :: "wloop \<Rightarrow> wloop" where
  "wl_wakeup s = (if wl_wakeupFd s < sz_modulus - 2
                  then s\<lparr>wl_wakeupFd := Suc (wl_wakeupFd s)\<rparr> else s)"

text \<open>
  The end of \<open>queueInLoop\<close>, and of \<open>quit\<close> in another thread. In thread 0 only \<open>queueInLoop\<close> gets
  here; it wakes the loop when that is not looping.
\<close>

definition wl_decide :: "nat \<Rightarrow> wloop \<Rightarrow> wloop" where
  "wl_decide p s =
     (let s = s\<lparr>wl_waking := wl_waking s - {p}\<rparr>
      in if p \<noteq> 0 \<or> \<not> wl_looping s then wl_wakeup s else s)"

definition wl_quit_store :: "nat \<Rightarrow> wloop \<Rightarrow> wloop" where
  "wl_quit_store p s =
     s\<lparr>wl_quit := True, wl_waking := (if p = 0 then wl_waking s else insert p (wl_waking s))\<rparr>"

definition wl_dequeue :: "wloop \<Rightarrow> wloop res" where
  "wl_dequeue s = bind_res (MpscQueue_dequeue (wl_funcs s))
     (\<lambda>(r, q). case r of
        None \<Rightarrow> Inr (s\<lparr>wl_pc := PcOuter\<rparr>)
      | Some f \<Rightarrow> Inr (s\<lparr>wl_funcs := q, wl_deq := wl_deq s @ [f], wl_pc := PcFunc\<rparr>))"

text \<open>
  \<open>poll\<close> returns at any time: for a channel of the user, on a timeout, or for the wake-up
  channel, which is among the active ones when its counter is not zero.
\<close>

inductive wl_step :: "wloop \<Rightarrow> wloop \<Rightarrow> bool" where
  st_exchange: "may_call p s \<Longrightarrow> wl_step s (wl_exchange p f s)"
| st_store: "mq_pending (wl_funcs s) p \<noteq> None \<Longrightarrow> wl_store p s = Inr s' \<Longrightarrow> wl_step s s'"
| st_decide: "p \<in> wl_waking s \<Longrightarrow> wl_step s (wl_decide p s)"
| st_quit: "may_call p s \<Longrightarrow> wl_step s (wl_quit_store p s)"
| st_loop: "wl_pc s = PcOut \<Longrightarrow> \<not> wl_looping s \<Longrightarrow> \<not> busy 0 s \<Longrightarrow>
    wl_step s (s\<lparr>wl_looping := True, wl_quit := False, wl_pc := PcTest\<rparr>)"
| st_test: "wl_pc s = PcTest \<Longrightarrow> \<not> wl_quit s \<Longrightarrow> wl_step s (s\<lparr>wl_pc := PcPoll\<rparr>)"
| st_leave: "wl_pc s = PcTest \<Longrightarrow> wl_quit s \<Longrightarrow> wl_step s (s\<lparr>wl_looping := False, wl_pc := PcOut\<rparr>)"
| st_poll: "wl_pc s = PcPoll \<Longrightarrow> wl_step s (s\<lparr>wl_pc := PcHandle (0 < wl_wakeupFd s)\<rparr>)"
| st_read: "wl_pc s = PcHandle True \<Longrightarrow> \<not> busy 0 s \<Longrightarrow>
    wl_step s (s\<lparr>wl_wakeupFd := 0, wl_pc := PcHandle False\<rparr>)"
| st_handled: "wl_pc s = PcHandle False \<Longrightarrow> \<not> busy 0 s \<Longrightarrow> wl_step s (s\<lparr>wl_pc := PcOuter\<rparr>)"
| st_outer: "wl_pc s = PcOuter \<Longrightarrow>
    wl_step s (s\<lparr>wl_pc := (if MpscQueue_empty (wl_funcs s) then PcTest else PcInner)\<rparr>)"
| st_dequeue: "wl_pc s = PcInner \<Longrightarrow> wl_dequeue s = Inr s' \<Longrightarrow> wl_step s s'"
| st_return: "wl_pc s = PcFunc \<Longrightarrow> \<not> busy 0 s \<Longrightarrow> wl_step s (s\<lparr>wl_pc := PcInner\<rparr>)"
| st_throw: "wl_pc s = PcFunc \<or> wl_pc s = PcHandle w \<Longrightarrow> \<not> busy 0 s \<Longrightarrow>
    wl_step s (s\<lparr>wl_looping := False, wl_pc := PcOut, wl_threw := True\<rparr>)"

inductive wl_reach :: "wloop \<Rightarrow> bool" where
  reach_new: "wl_reach wl_new"
| reach_step: "wl_reach s \<Longrightarrow> wl_step s s' \<Longrightarrow> wl_reach s'"

section \<open>The invariant\<close>

text \<open>Something will wake the loop: its descriptor is readable or another thread is about to.\<close>

definition awake :: "wloop \<Rightarrow> bool" where
  "awake s \<longleftrightarrow> 0 < wl_wakeupFd s \<or> (\<exists>p. p \<noteq> 0 \<and> busy p s)"

definition idle :: "wloop \<Rightarrow> bool" where
  "idle s \<longleftrightarrow> wl_deq s = wl_enq s"

definition wl_queue :: "wloop \<Rightarrow> bool" where
  "wl_queue s \<longleftrightarrow> mpsc_reach (wl_funcs s) (wl_enq s) (wl_deq s) \<and>
     (\<forall>p\<in>wl_waking s. mq_pending (wl_funcs s) p = None)"

definition wl_main :: "wloop \<Rightarrow> bool" where
  "wl_main s \<longleftrightarrow> (case wl_pc s of
       PcOut \<Rightarrow> \<not> wl_looping s \<and> (wl_threw s \<or> idle s \<or> awake s \<or> busy 0 s)
     | PcTest \<Rightarrow> wl_looping s \<and> \<not> busy 0 s \<and> (wl_threw s \<or> idle s \<or> awake s)
     | PcPoll \<Rightarrow> wl_looping s \<and> \<not> busy 0 s \<and> (wl_threw s \<or> idle s \<or> awake s) \<and> (wl_quit s \<longrightarrow> awake s)
     | PcHandle w \<Rightarrow> wl_looping s \<and> (w \<longrightarrow> 0 < wl_wakeupFd s)
     | PcFunc \<Rightarrow> wl_looping s
     | _ \<Rightarrow> wl_looping s \<and> \<not> busy 0 s)"

lemma store_pending:
  assumes "mq_pending q p \<noteq> None" "enqueue_store p q = Inr q'"
  shows "mq_pending q' = (mq_pending q)(p := None)"
  using assms by (auto simp: enqueue_store_def split: option.splits if_splits)

lemma dequeue_pending:
  "MpscQueue_dequeue q = Inr (r, q') \<Longrightarrow> mq_pending q' = mq_pending q"
  by (auto simp: MpscQueue_dequeue_def Let_def split: option.splits if_splits)

lemma exchange_pending:
  "mq_pending (enqueue_exchange p f q) p' = None \<longleftrightarrow> p' \<noteq> p \<and> mq_pending q p' = None"
  by (simp add: enqueue_exchange_def Let_def)

lemma wl_wakeup_fields [simp]:
  "wl_pc (wl_wakeup s) = wl_pc s" "wl_looping (wl_wakeup s) = wl_looping s"
  "wl_quit (wl_wakeup s) = wl_quit s" "wl_funcs (wl_wakeup s) = wl_funcs s"
  "wl_waking (wl_wakeup s) = wl_waking s" "wl_enq (wl_wakeup s) = wl_enq s"
  "wl_deq (wl_wakeup s) = wl_deq s" "wl_threw (wl_wakeup s) = wl_threw s"
  "0 < wl_wakeupFd (wl_wakeup s)"
  by (simp_all add: wl_wakeup_def)

lemma queue_step: "wl_step s s' \<Longrightarrow> wl_queue s \<Longrightarrow> wl_queue s'"
proof (induction rule: wl_step.induct)
  case (st_exchange p s f)
  then have "mq_pending (wl_funcs s) p = None" "p \<notin> wl_waking s"
    "mpsc_reach (wl_funcs s) (wl_enq s) (wl_deq s)"
    by (simp_all add: may_call_def busy_def wl_queue_def del: not_None_eq)
  with mpsc_exchange [OF this(3,1), of f] st_exchange.prems show ?case
    by (auto simp: wl_queue_def wl_exchange_def exchange_pending)
next
  case (st_store s p s')
  then obtain q where q: "enqueue_store p (wl_funcs s) = Inr q"
    "s' = s\<lparr>wl_funcs := q, wl_waking := insert p (wl_waking s)\<rparr>"
    by (auto simp: wl_store_def bind_res_Inr_iff)
  from st_store q store_pending [OF st_store.hyps(1) q(1)] show ?case
    by (auto simp: wl_queue_def intro: mpsc_store)
next
  case (st_dequeue s s')
  then obtain r q where r: "MpscQueue_dequeue (wl_funcs s) = Inr (r, q)"
    "(case r of None \<Rightarrow> s\<lparr>wl_pc := PcOuter\<rparr>
      | Some f \<Rightarrow> s\<lparr>wl_funcs := q, wl_deq := wl_deq s @ [f], wl_pc := PcFunc\<rparr>) = s'"
    by (auto simp: wl_dequeue_def bind_res_Inr_iff split: option.splits)
  with st_dequeue.prems dequeue_pending [OF r(1)] show ?case
    by (auto simp: wl_queue_def split: option.splits intro: mpsc_dequeue)
qed (auto simp: wl_queue_def wl_decide_def wl_quit_store_def may_call_def busy_def Let_def
  simp del: not_None_eq)

lemma empty_idle:
  assumes "wl_queue s" "MpscQueue_empty (wl_funcs s)" "\<not> busy 0 s"
  shows "idle s \<or> awake s"
proof -
  from assms(1) have "mpsc_reach (wl_funcs s) (wl_enq s) (wl_deq s)" by (simp add: wl_queue_def)
  from mpsc_empty_pending [OF this] assms(2) consider "wl_deq s = wl_enq s"
    | p node where "mq_pending (wl_funcs s) p = Some (mq_tail (wl_funcs s), node)" by auto
  then show ?thesis
  proof cases
    case 2
    then have "busy p s" by (simp add: busy_def)
    with assms(3) show ?thesis unfolding awake_def by metis
  qed (simp add: idle_def)
qed

lemma busy_exchange: "busy p' (wl_exchange p f s) \<longleftrightarrow> p' = p \<or> busy p' s"
  by (auto simp: busy_def wl_exchange_def exchange_pending)

lemma busy_decide: "p' \<noteq> p \<Longrightarrow> busy p' (wl_decide p s) \<longleftrightarrow> busy p' s"
  by (auto simp: busy_def wl_decide_def Let_def)

lemma busy_quit: "busy p' (wl_quit_store p s) \<longleftrightarrow> busy p' s \<or> p' = p \<and> p \<noteq> 0"
  by (auto simp: busy_def wl_quit_store_def)

lemma busy_store:
  assumes "mq_pending (wl_funcs s) p \<noteq> None" "wl_store p s = Inr s'"
  shows "busy p' s' \<longleftrightarrow> busy p' s" "wl_pc s' = wl_pc s" "wl_looping s' = wl_looping s"
    "wl_quit s' = wl_quit s" "wl_wakeupFd s' = wl_wakeupFd s" "wl_enq s' = wl_enq s"
    "wl_deq s' = wl_deq s" "wl_threw s' = wl_threw s"
proof -
  from assms(2) obtain q where q: "enqueue_store p (wl_funcs s) = Inr q"
    "s' = s\<lparr>wl_funcs := q, wl_waking := insert p (wl_waking s)\<rparr>"
    by (auto simp: wl_store_def bind_res_Inr_iff)
  from q(2) store_pending [OF assms(1) q(1)] assms(1) show "busy p' s' \<longleftrightarrow> busy p' s"
    by (auto simp: busy_def)
qed (use assms(2) in \<open>auto simp: wl_store_def bind_res_Inr_iff\<close>)

lemma step_fields [simp]:
  "wl_pc (wl_exchange p f s) = wl_pc s" "wl_looping (wl_exchange p f s) = wl_looping s"
  "wl_quit (wl_exchange p f s) = wl_quit s" "wl_threw (wl_exchange p f s) = wl_threw s"
  "wl_wakeupFd (wl_exchange p f s) = wl_wakeupFd s"
  "wl_pc (wl_decide p s) = wl_pc s" "wl_looping (wl_decide p s) = wl_looping s"
  "wl_quit (wl_decide p s) = wl_quit s" "wl_threw (wl_decide p s) = wl_threw s"
  "idle (wl_decide p s) = idle s"
  "wl_pc (wl_quit_store p s) = wl_pc s" "wl_looping (wl_quit_store p s) = wl_looping s"
  "wl_threw (wl_quit_store p s) = wl_threw s" "wl_wakeupFd (wl_quit_store p s) = wl_wakeupFd s"
  "idle (wl_quit_store p s) = idle s"
  by (simp_all add: wl_exchange_def wl_decide_def wl_quit_store_def idle_def Let_def)

text \<open>What the steps of other threads and the two halves of thread 0's own calls keep.\<close>

lemma main_exchange:
  assumes "wl_main s" "may_call p s"
  shows "wl_main (wl_exchange p f s)"
proof -
  let ?s = "wl_exchange p f s"
  show ?thesis
  proof (cases "p = 0")
    case True
    with assms show ?thesis
      by (auto simp: wl_main_def may_call_def busy_exchange split: loop_pc.splits)
  next
    case False
    then have "awake ?s" using busy_exchange by (auto simp: awake_def)
    with assms(1) False show ?thesis
      by (auto simp: wl_main_def busy_exchange split: loop_pc.splits)
  qed
qed

lemma main_store:
  assumes "wl_main s" "mq_pending (wl_funcs s) p \<noteq> None" "wl_store p s = Inr s'"
  shows "wl_main s'"
  using assms(1) unfolding wl_main_def awake_def idle_def busy_store [OF assms(2,3)] .

lemma main_decide:
  assumes "wl_main s" "p \<in> wl_waking s"
  shows "wl_main (wl_decide p s)"
proof -
  let ?s = "wl_decide p s"
  have fd: "p \<noteq> 0 \<or> \<not> wl_looping s \<Longrightarrow> 0 < wl_wakeupFd ?s" "wl_wakeupFd s \<le> wl_wakeupFd ?s"
    by (simp_all add: wl_decide_def Let_def wl_wakeup_def)
  show ?thesis
  proof (cases "p \<noteq> 0 \<or> \<not> wl_looping s")
    case True
    then have "awake ?s" "0 < wl_wakeupFd ?s" using fd(1) by (auto simp: awake_def)
    moreover have "p = 0 \<Longrightarrow> busy 0 s" using assms(2) by (simp add: busy_def)
    ultimately show ?thesis using assms(1) busy_decide [of 0 p s]
      by (cases "p = 0") (auto simp: wl_main_def split: loop_pc.splits)
  next
    case False
    then have "busy 0 s" "wl_looping s" using assms(2) by (auto simp: busy_def)
    with assms(1) fd(2) show ?thesis by (auto simp: wl_main_def split: loop_pc.splits)
  qed
qed

lemma main_quit:
  assumes "wl_main s" "may_call p s"
  shows "wl_main (wl_quit_store p s)"
proof -
  let ?s = "wl_quit_store p s"
  show ?thesis
  proof (cases "p = 0")
    case True
    then have "busy q ?s = busy q s" for q by (simp add: busy_quit)
    then have "awake ?s = awake s" by (simp add: awake_def)
    with assms True show ?thesis
      by (auto simp: wl_main_def may_call_def busy_quit split: loop_pc.splits)
  next
    case False
    then have "awake ?s" using busy_quit by (auto simp: awake_def)
    with assms(1) False show ?thesis by (auto simp: wl_main_def busy_quit split: loop_pc.splits)
  qed
qed

lemma main_step: "wl_step s s' \<Longrightarrow> wl_queue s \<Longrightarrow> wl_main s \<Longrightarrow> wl_main s'"
proof (induction rule: wl_step.induct)
  case (st_exchange p s f)
  then show ?case using main_exchange by blast
next
  case (st_store s p s')
  then show ?case using main_store by blast
next
  case (st_decide p s)
  then show ?case using main_decide by blast
next
  case (st_quit p s)
  then show ?case using main_quit by blast
next
  case (st_outer s)
  then show ?case using empty_idle [of s] by (auto simp: wl_main_def awake_def idle_def busy_def)
next
  case (st_dequeue s s')
  then obtain r q where r: "MpscQueue_dequeue (wl_funcs s) = Inr (r, q)"
    "(case r of None \<Rightarrow> s\<lparr>wl_pc := PcOuter\<rparr>
      | Some f \<Rightarrow> s\<lparr>wl_funcs := q, wl_deq := wl_deq s @ [f], wl_pc := PcFunc\<rparr>) = s'"
    by (auto simp: wl_dequeue_def bind_res_Inr_iff split: option.splits)
  with st_dequeue show ?case by (auto simp: wl_main_def busy_def split: option.splits)
qed (auto simp: wl_main_def awake_def idle_def busy_def)

lemma reach_main: "wl_reach s \<Longrightarrow> wl_queue s \<and> wl_main s"
proof (induction rule: wl_reach.induct)
  case reach_new
  have "mpsc_reach (MpscQueue_new :: nat mpsc) [] []" by (rule mpsc_new)
  moreover have "mq_pending (MpscQueue_new :: nat mpsc) = (\<lambda>_. None)" by (simp add: MpscQueue_new_def)
  ultimately show ?case by (simp add: wl_queue_def wl_main_def wl_new_def idle_def)
next
  case (reach_step s s')
  then show ?case using queue_step main_step by blast
qed

text \<open>
  C11. No wake-up is lost: in every interleaving of any number of threads that queue functions or
  quit with a loop no exception has left, whenever the loop is about to block in \<open>poll\<close> with its
  wake-up descriptor not readable and no other thread is inside \<open>queueInLoop\<close> or \<open>quit\<close>, every
  queued function has been taken and the loop has not been told to quit.
\<close>

theorem no_lost_wakeup:
  assumes "wl_reach s" "wl_pc s = PcPoll" "wl_wakeupFd s = 0" "\<forall>p. p \<noteq> 0 \<longrightarrow> \<not> busy p s" "\<not> wl_threw s"
  shows "wl_deq s = wl_enq s \<and> \<not> wl_quit s"
  using reach_main [OF assms(1)] assms(2-5) by (auto simp: wl_main_def awake_def idle_def)

section \<open>A concrete run\<close>

text \<open>Thread 1 queues function 5 and wakes the loop, which runs it and polls again.\<close>

definition sample_queued :: wloop where
  "sample_queued = \<lparr>wl_pc = PcOut, wl_looping = False, wl_quit = False,
     wl_funcs = \<lparr>mq_next = [0 \<mapsto> 1], mq_data = [1 \<mapsto> 5], mq_live = {0, 1}, mq_fresh = 2,
       mq_head = 1, mq_tail = 0, mq_pending = (\<lambda>_. None)\<rparr>,
     wl_wakeupFd = 1, wl_waking = {}, wl_enq = [5], wl_deq = [], wl_threw = False\<rparr>"

definition sample_polling :: wloop where
  "sample_polling = \<lparr>wl_pc = PcPoll, wl_looping = True, wl_quit = False,
     wl_funcs = \<lparr>mq_next = [0 \<mapsto> 1], mq_data = (\<lambda>_. None), mq_live = {1}, mq_fresh = 2,
       mq_head = 1, mq_tail = 1, mq_pending = (\<lambda>_. None)\<rparr>,
     wl_wakeupFd = 0, wl_waking = {}, wl_enq = [5], wl_deq = [5], wl_threw = False\<rparr>"

lemmas wl_eval = wl_new_def wl_exchange_def wl_store_def wl_decide_def wl_wakeup_def wl_dequeue_def
  enqueue_exchange_def enqueue_store_def MpscQueue_new_def MpscQueue_dequeue_def MpscQueue_empty_def
  may_call_def busy_def Let_def

lemma sample_queued_reach: "wl_reach sample_queued"
proof -
  let ?s1 = "wl_exchange 1 5 wl_new"
  have "wl_reach ?s1" by (rule reach_step [OF reach_new st_exchange]) (simp add: wl_eval)
  from reach_step [OF this st_store [of _ 1]]
  have "wl_store 1 ?s1 = Inr s \<Longrightarrow> wl_reach s" for s by (simp add: wl_eval)
  moreover have "\<exists>s. wl_store 1 ?s1 = Inr s \<and> 1 \<in> wl_waking s \<and> wl_decide 1 s = sample_queued"
    by (auto simp: wl_eval sample_queued_def fun_eq_iff)
  ultimately obtain s where "wl_reach s" "1 \<in> wl_waking s" "wl_decide 1 s = sample_queued" by blast
  with reach_step [OF _ st_decide, of s 1] show ?thesis by simp
qed

lemma sample_polling_reach: "wl_reach sample_polling"
proof -
  let ?q = "sample_queued\<lparr>wl_looping := True, wl_quit := False, wl_pc := PcTest\<rparr>"
  have "wl_reach ?q"
    by (rule reach_step [OF sample_queued_reach st_loop]) (simp_all add: sample_queued_def busy_def)
  then have "wl_reach (?q\<lparr>wl_pc := PcPoll\<rparr>)"
    by (rule reach_step [OF _ st_test]) (simp_all add: sample_queued_def)
  then have "wl_reach (?q\<lparr>wl_pc := PcHandle True\<rparr>)"
    using reach_step [OF _ st_poll] by (fastforce simp: sample_queued_def)
  then have "wl_reach (?q\<lparr>wl_wakeupFd := 0, wl_pc := PcHandle False\<rparr>)"
    using reach_step [OF _ st_read] by (fastforce simp: sample_queued_def busy_def)
  then have "wl_reach (?q\<lparr>wl_wakeupFd := 0, wl_pc := PcOuter\<rparr>)"
    using reach_step [OF _ st_handled] by (fastforce simp: sample_queued_def busy_def)
  then have "wl_reach (?q\<lparr>wl_wakeupFd := 0, wl_pc := PcInner\<rparr>)"
    using reach_step [OF _ st_outer] by (fastforce simp: sample_queued_def MpscQueue_empty_def)
  then have "wl_reach (sample_polling\<lparr>wl_pc := PcFunc\<rparr>)"
    by (rule reach_step [OF _ st_dequeue])
       (auto simp: sample_queued_def sample_polling_def wl_eval fun_eq_iff)
  then have "wl_reach (sample_polling\<lparr>wl_pc := PcInner\<rparr>)"
    using reach_step [OF _ st_return] by (fastforce simp: sample_polling_def busy_def)
  then have "wl_reach (sample_polling\<lparr>wl_pc := PcOuter\<rparr>)"
    by (rule reach_step [OF _ st_dequeue]) (simp_all add: sample_polling_def wl_eval)
  then have "wl_reach (sample_polling\<lparr>wl_pc := PcTest\<rparr>)"
    using reach_step [OF _ st_outer] by (fastforce simp: sample_polling_def MpscQueue_empty_def)
  then have "wl_reach (sample_polling\<lparr>wl_pc := PcPoll\<rparr>)"
    using reach_step [OF _ st_test] by (fastforce simp: sample_polling_def)
  then show ?thesis by (simp add: sample_polling_def)
qed

theorem no_lost_wakeup_witness:
  "wl_pc sample_polling = PcPoll \<and> wl_enq sample_polling = [5] \<and>
   wl_deq sample_polling = wl_enq sample_polling \<and> \<not> wl_quit sample_polling"
  using no_lost_wakeup [OF sample_polling_reach] by (simp add: sample_polling_def busy_def)

end
