(* ===== verification/EventLoop.thy ===== *)
theory EventLoop
  imports TimerQueue EpollPoller
begin

text \<open>
  The event loop of src/xiaoNet/net/EventLoop.h and EventLoop.cpp as its own thread runs it: the
  functions queued in it, the functions to run when it quits, its flags and the wake-up
  descriptor. Functions of the user are numbers; \<open>bodies f\<close> is what function \<open>f\<close> does to the loop,
  a parameter. The lock-free queues are lists here; the theory LoopWakeup puts the queue itself
  and the other threads in.
\<close>

section \<open>State\<close>

text \<open>What a function or a handler does to the loop; the flag of a throw says whether the
  exception is a \<open>std::exception\<close>.\<close>

datatype action =
  QueueInLoop nat
| RunInLoop nat
| Quit
| RunOnQuit nat
| Throw bool

type_synonym bodies = "nat \<Rightarrow> action list"

text \<open>
  \<open>el_queued\<close>, \<open>el_started\<close>, \<open>el_quitQueued\<close> and \<open>el_quitStarted\<close> record what went into and came
  out of the two queues; the code has no such fields.
\<close>

record EventLoop =
  el_looping :: bool
  el_threadId :: nat
  el_quit :: bool
  el_eventHandling :: bool
  el_funcs :: "nat list"
  el_funcsOnQuit :: "nat list"
  el_callingFuncs :: bool
  el_wakeupFd :: nat
  el_index :: nat
  el_slot :: nat
  el_queued :: "nat list"
  el_started :: "nat list"
  el_quitQueued :: "nat list"
  el_quitStarted :: "nat list"

text \<open>\<open>t_loopInThisThread\<close>: the loop of each thread, by an identifier of the loop.\<close>

type_synonym slots = "nat \<Rightarrow> nat option"

definition EventLoop_new :: "nat \<Rightarrow> nat \<Rightarrow> slots \<Rightarrow> (EventLoop \<times> slots) res" where
  "EventLoop_new me this slots =
     (if slots me \<noteq> None then Inl Exited
      else Inr (\<lparr>el_looping = False, el_threadId = me, el_quit = False, el_eventHandling = False,
             el_funcs = [], el_funcsOnQuit = [], el_callingFuncs = False, el_wakeupFd = 0,
             el_index = sz_modulus - 1, el_slot = me, el_queued = [], el_started = [],
             el_quitQueued = [], el_quitStarted = []\<rparr>, slots(me := Some this)))"

definition getEventLoopOfCurrentThread :: "nat \<Rightarrow> slots \<Rightarrow> nat option" where
  "getEventLoopOfCurrentThread me slots = slots me"

definition isInLoopThread :: "nat \<Rightarrow> EventLoop \<Rightarrow> bool" where
  "isInLoopThread me el \<longleftrightarrow> el_threadId el = me"

definition assertInLoopThread :: "nat \<Rightarrow> EventLoop \<Rightarrow> 'a res \<Rightarrow> 'a res" where
  "assertInLoopThread me el m = (if \<not> isInLoopThread me el then Inl Exited else m)"

definition isRunning :: "EventLoop \<Rightarrow> bool" where
  "isRunning el \<longleftrightarrow> el_looping el \<and> \<not> el_quit el"

definition isCallingFunctions :: "EventLoop \<Rightarrow> bool" where
  "isCallingFunctions el = el_callingFuncs el"

definition EventLoop_index :: "EventLoop \<Rightarrow> nat" where
  "EventLoop_index el = el_index el"

definition EventLoop_setIndex :: "nat \<Rightarrow> EventLoop \<Rightarrow> EventLoop" where
  "EventLoop_setIndex i el = el\<lparr>el_index := i\<rparr>"

section \<open>Waking up and queueing\<close>

text \<open>
  The wake-up descriptor is an \<open>eventfd\<close>: a write of 1 adds to its counter and fails, unnoticed,
  when that would reach \<open>2\<^sup>6\<^sup>4 - 1\<close>; a read empties it.
\<close>

definition wakeup :: "EventLoop \<Rightarrow> EventLoop" where
  "wakeup el = (if el_wakeupFd el < sz_modulus - 2
                then el\<lparr>el_wakeupFd := Suc (el_wakeupFd el)\<rparr> else el)"

definition wakeupRead :: "EventLoop \<Rightarrow> EventLoop" where
  "wakeupRead el = el\<lparr>el_wakeupFd := 0\<rparr>"

definition EventLoop_quit :: "nat \<Rightarrow> EventLoop \<Rightarrow> EventLoop" where
  "EventLoop_quit me el =
     (let el = el\<lparr>el_quit := True\<rparr> in if \<not> isInLoopThread me el then wakeup el else el)"

definition enqueue_func :: "nat \<Rightarrow> EventLoop \<Rightarrow> EventLoop" where
  "enqueue_func f el = el\<lparr>el_funcs := el_funcs el @ [f], el_queued := el_queued el @ [f]\<rparr>"

definition queueInLoop :: "nat \<Rightarrow> nat \<Rightarrow> EventLoop \<Rightarrow> EventLoop" where
  "queueInLoop me f el =
     (let el = enqueue_func f el
      in if \<not> isInLoopThread me el \<or> \<not> el_looping el then wakeup el else el)"

definition runOnQuit :: "nat \<Rightarrow> EventLoop \<Rightarrow> EventLoop" where
  "runOnQuit f el = el\<lparr>el_funcsOnQuit := el_funcsOnQuit el @ [f],
                       el_quitQueued := el_quitQueued el @ [f]\<rparr>"

section \<open>Running code in the loop thread\<close>

datatype outcome = Finished | Raised bool | Waiting

text \<open>
  A piece of code run by thread \<open>me\<close>. A call of \<open>runInLoop\<close> in the loop thread runs the function
  on the spot. The bound counts the actions.
\<close>

fun run_code :: "nat \<Rightarrow> bodies \<Rightarrow> nat \<Rightarrow> action list \<Rightarrow> EventLoop \<Rightarrow> (outcome \<times> EventLoop) res" where
  "run_code k bodies me [] el = Inr (Finished, el)"
| "run_code 0 bodies me (a # as) el = Inl OutOfFuel"
| "run_code (Suc k) bodies me (QueueInLoop f # as) el = run_code k bodies me as (queueInLoop me f el)"
| "run_code (Suc k) bodies me (RunInLoop f # as) el =
     (if isInLoopThread me el then run_code k bodies me (bodies f @ as) el
      else run_code k bodies me as (queueInLoop me f el))"
| "run_code (Suc k) bodies me (Quit # as) el = run_code k bodies me as (EventLoop_quit me el)"
| "run_code (Suc k) bodies me (RunOnQuit f # as) el = run_code k bodies me as (runOnQuit f el)"
| "run_code (Suc k) bodies me (Throw std # as) el = Inr (Raised std, el)"

text \<open>The inner loop of \<open>doRunInLoopFuncs\<close>, until \<open>dequeue\<close> fails, and the outer one.\<close>

definition dequeue_func :: "EventLoop \<Rightarrow> (nat \<times> EventLoop) option" where
  "dequeue_func el =
     (case el_funcs el of [] \<Rightarrow> None
      | f # fs \<Rightarrow> Some (f, el\<lparr>el_funcs := fs, el_started := el_started el @ [f]\<rparr>))"

fun dequeue_loop :: "nat \<Rightarrow> bodies \<Rightarrow> EventLoop \<Rightarrow> (outcome \<times> EventLoop) res" where
  "dequeue_loop 0 bodies el = Inl OutOfFuel"
| "dequeue_loop (Suc k) bodies el =
     (case dequeue_func el of
        None \<Rightarrow> Inr (Finished, el)
      | Some (f, el) \<Rightarrow>
          bind_res (run_code k bodies (el_threadId el) (bodies f) el)
            (\<lambda>(out, el). case out of
               Finished \<Rightarrow> dequeue_loop k bodies el
             | _ \<Rightarrow> Inr (out, el)))"

fun funcs_loop :: "nat \<Rightarrow> bodies \<Rightarrow> EventLoop \<Rightarrow> (outcome \<times> EventLoop) res" where
  "funcs_loop 0 bodies el = Inl OutOfFuel"
| "funcs_loop (Suc k) bodies el =
     (if el_funcs el = [] then Inr (Finished, el)
      else bind_res (dequeue_loop k bodies el)
             (\<lambda>(out, el). case out of
                Finished \<Rightarrow> funcs_loop k bodies el
              | _ \<Rightarrow> Inr (out, el)))"

definition doRunInLoopFuncs :: "nat \<Rightarrow> bodies \<Rightarrow> EventLoop \<Rightarrow> (outcome \<times> EventLoop) res" where
  "doRunInLoopFuncs k bodies el =
     bind_res (funcs_loop k bodies (el\<lparr>el_callingFuncs := True\<rparr>))
       (\<lambda>(out, el). Inr (out, el\<lparr>el_callingFuncs := False\<rparr>))"

section \<open>The loop\<close>

text \<open>
  One round of \<open>loop()\<close>: what other threads did to the loop before \<open>poll\<close> returned, and the
  channels it found active. A channel other than the wake-up channel is the code of its handler.
\<close>

datatype handler = WakeupChannel | UserChannel "action list"

record round =
  rd_others :: "(nat \<times> action) list"
  rd_active :: "handler list"

fun other_action :: "nat \<times> action \<Rightarrow> EventLoop \<Rightarrow> EventLoop" where
  "other_action (t, QueueInLoop f) el = queueInLoop t f el"
| "other_action (t, RunInLoop f) el = queueInLoop t f el"
| "other_action (t, Quit) el = EventLoop_quit t el"
| "other_action (t, RunOnQuit f) el = runOnQuit f el"
| "other_action (t, Throw std) el = el"

fun handle_active :: "nat \<Rightarrow> bodies \<Rightarrow> handler list \<Rightarrow> EventLoop \<Rightarrow> (outcome \<times> EventLoop) res" where
  "handle_active k bodies [] el = Inr (Finished, el)"
| "handle_active k bodies (WakeupChannel # hs) el = handle_active k bodies hs (wakeupRead el)"
| "handle_active k bodies (UserChannel code # hs) el =
     bind_res (run_code k bodies (el_threadId el) code el)
       (\<lambda>(out, el). case out of
          Finished \<Rightarrow> handle_active k bodies hs el
        | _ \<Rightarrow> Inr (out, el))"

definition loop_body :: "nat \<Rightarrow> bodies \<Rightarrow> round \<Rightarrow> EventLoop \<Rightarrow> (outcome \<times> EventLoop) res" where
  "loop_body k bodies r el =
     (let el = (fold other_action (rd_others r) el)\<lparr>el_eventHandling := True\<rparr> in
      bind_res (handle_active k bodies (rd_active r) el)
        (\<lambda>(out, el). case out of
           Finished \<Rightarrow> doRunInLoopFuncs k bodies (el\<lparr>el_eventHandling := False\<rparr>)
         | _ \<Rightarrow> Inr (out, el)))"

text \<open>The loop over the rounds the environment gives; when they are used up it waits in \<open>poll\<close>.\<close>

fun loop_while :: "nat \<Rightarrow> bodies \<Rightarrow> round list \<Rightarrow> EventLoop \<Rightarrow> (outcome \<times> EventLoop) res" where
  "loop_while k bodies rs el =
     (if el_quit el then Inr (Finished, el)
      else case rs of
        [] \<Rightarrow> Inr (Waiting, el)
      | r # rs \<Rightarrow>
          bind_res (loop_body k bodies r el)
            (\<lambda>(out, el). case out of
               Finished \<Rightarrow> loop_while k bodies rs el
             | _ \<Rightarrow> Inr (out, el)))"

declare loop_while.simps [simp del]

lemma loop_while_simps [simp]:
  "loop_while k bodies [] el = (if el_quit el then Inr (Finished, el) else Inr (Waiting, el))"
  "loop_while k bodies (r # rs) el =
     (if el_quit el then Inr (Finished, el)
      else bind_res (loop_body k bodies r el)
             (\<lambda>(out, el). case out of
                Finished \<Rightarrow> loop_while k bodies rs el
              | _ \<Rightarrow> Inr (out, el)))"
  by (simp_all add: loop_while.simps)

fun quit_loop :: "nat \<Rightarrow> bodies \<Rightarrow> EventLoop \<Rightarrow> (outcome \<times> EventLoop) res" where
  "quit_loop 0 bodies el = Inl OutOfFuel"
| "quit_loop (Suc k) bodies el =
     (case el_funcsOnQuit el of
        [] \<Rightarrow> Inr (Finished, el)
      | f # fs \<Rightarrow>
          bind_res (run_code k bodies (el_threadId el) (bodies f)
                     (el\<lparr>el_funcsOnQuit := fs, el_quitStarted := el_quitStarted el @ [f]\<rparr>))
            (\<lambda>(out, el). case out of
               Finished \<Rightarrow> quit_loop k bodies el
             | _ \<Rightarrow> Inr (out, el)))"

text \<open>
  \<open>loop()\<close>: the flag is cleared when the scope is left, by an exception too; the functions on
  quit run after a normal end and after a \<open>std::exception\<close>, which is then thrown again. An
  exception of another type, or of a function on quit, leaves at once.
\<close>

definition loop_exit :: "nat \<Rightarrow> bodies \<Rightarrow> outcome \<Rightarrow> EventLoop \<Rightarrow> slots \<Rightarrow>
    (outcome \<times> EventLoop \<times> slots) res" where
  "loop_exit k bodies out el slots =
     bind_res (quit_loop k bodies el)
       (\<lambda>(out', el). case out' of
          Finished \<Rightarrow> Inr (out, el, slots(el_threadId el := None))
        | _ \<Rightarrow> Inr (out', el, slots))"

definition EventLoop_loop :: "nat \<Rightarrow> bodies \<Rightarrow> nat \<Rightarrow> round list \<Rightarrow> EventLoop \<Rightarrow> slots \<Rightarrow>
    (outcome \<times> EventLoop \<times> slots) res" where
  "EventLoop_loop k bodies me rs el slots =
     assert_then (\<not> el_looping el) (assertInLoopThread me el
       (bind_res (loop_while k bodies rs (el\<lparr>el_looping := True, el_quit := False\<rparr>))
          (\<lambda>(out, el). case out of
             Waiting \<Rightarrow> Inr (Waiting, el, slots)
           | Finished \<Rightarrow> loop_exit k bodies Finished (el\<lparr>el_looping := False\<rparr>) slots
           | Raised True \<Rightarrow> loop_exit k bodies (Raised True) (el\<lparr>el_looping := False\<rparr>) slots
           | Raised False \<Rightarrow> Inr (Raised False, el\<lparr>el_looping := False\<rparr>, slots))))"

text \<open>
  \<open>moveToCurrentThread\<close>: the slot of the thread the loop was made in or moved to last is cleared.
\<close>

definition moveToCurrentThread :: "nat \<Rightarrow> nat \<Rightarrow> EventLoop \<Rightarrow> slots \<Rightarrow> (EventLoop \<times> slots) res" where
  "moveToCurrentThread me this el slots =
     (if isRunning el then Inl Exited
      else if isInLoopThread me el then Inr (el, slots)
      else if slots me \<noteq> None then Inl Exited
      else Inr (el\<lparr>el_slot := me, el_threadId := me\<rparr>,
                slots(el_slot el := None, me := Some this)))"

section \<open>Timers and channels of the loop\<close>

text \<open>
  The dates of the xiaoLog package are microseconds of the system clock; \<open>after\<close> is its
  \<open>Date::after\<close>, \<open>sysnow\<close> a reading of \<open>Date::now\<close>, \<open>micros\<close> the conversion of an interval
  in seconds, a \<open>double\<close>, to microseconds. The steady clock is \<open>clk\<close>.
\<close>

definition runAt :: "clock \<Rightarrow> int \<Rightarrow> int \<Rightarrow> nat \<Rightarrow> TimerQueue \<Rightarrow> nat \<times> TimerQueue" where
  "runAt clk sysnow time cb q =
     (let microSeconds = time - sysnow;
          (now, q) = read_clock clk q
      in addTimer clk cb (now + 1000 * microSeconds) 0 q)"

definition runAfter :: "clock \<Rightarrow> ('d \<Rightarrow> int \<Rightarrow> int) \<Rightarrow> int \<Rightarrow> int \<Rightarrow> 'd \<Rightarrow> nat \<Rightarrow> TimerQueue \<Rightarrow>
    nat \<times> TimerQueue" where
  "runAfter clk after date sysnow delay cb q = runAt clk sysnow (after delay date) cb q"

definition runEvery :: "clock \<Rightarrow> ('d \<Rightarrow> int) \<Rightarrow> 'd \<Rightarrow> nat \<Rightarrow> TimerQueue \<Rightarrow> nat \<times> TimerQueue" where
  "runEvery clk micros interval cb q =
     (let dur = micros interval;
          (now, q) = read_clock clk q
      in addTimer clk cb (now + 1000 * dur) dur q)"

definition EventLoop_invalidateTimer :: "nat \<Rightarrow> EventLoop \<Rightarrow> TimerQueue \<Rightarrow> TimerQueue" where
  "EventLoop_invalidateTimer i el q = (if isRunning el then invalidateTimer i q else q)"

definition resetTimerQueue :: "clock \<Rightarrow> nat \<Rightarrow> EventLoop \<Rightarrow> TimerQueue \<Rightarrow> TimerQueue res" where
  "resetTimerQueue clk me el q =
     assertInLoopThread me el (assert_then (\<not> el_looping el) (Inr (TimerQueue_reset clk q)))"

definition EventLoop_updateChannel :: "bool \<Rightarrow> nat \<Rightarrow> EventLoop \<Rightarrow> nat \<Rightarrow> Poller \<Rightarrow> Poller res" where
  "EventLoop_updateChannel owner me el i p =
     assert_then owner (assertInLoopThread me el (EpollPoller_updateChannel i p))"

definition EventLoop_removeChannel :: "bool \<Rightarrow> nat \<Rightarrow> EventLoop \<Rightarrow> nat \<Rightarrow> Poller \<Rightarrow> Poller res" where
  "EventLoop_removeChannel owner me el i p =
     assert_then owner (assertInLoopThread me el (EpollPoller_removeChannel i p))"

end
