(* ===== verification/EventLoopProps.thy ===== *)
theory EventLoopProps
  imports EventLoop "HOL-Library.Sublist"
begin

text \<open>
  Properties of the event loop in its own thread: the order of the queued functions, what holds
  when the loop waits or ends, a bound for a round, and the registration of loops in threads.
\<close>

section \<open>The queues\<close>

definition fifo :: "EventLoop \<Rightarrow> bool" where
  "fifo el \<longleftrightarrow> el_queued el = el_started el @ el_funcs el \<and>
               el_quitQueued el = el_quitStarted el @ el_funcsOnQuit el"

definition loop_frame :: "EventLoop \<Rightarrow> EventLoop \<Rightarrow> bool" where
  "loop_frame el el' \<longleftrightarrow> el_threadId el' = el_threadId el \<and> el_looping el' = el_looping el \<and>
     prefix (el_queued el) (el_queued el') \<and> prefix (el_started el) (el_started el') \<and>
     prefix (el_quitQueued el) (el_quitQueued el') \<and> (fifo el \<longrightarrow> fifo el')"

lemma loop_frame_refl [simp]: "loop_frame el el"
  by (simp add: loop_frame_def)

lemma loop_frame_trans: "loop_frame a b \<Longrightarrow> loop_frame b c \<Longrightarrow> loop_frame a c"
  unfolding loop_frame_def by (intro conjI) (auto intro: prefix_order.trans)

lemma loop_frameD:
  assumes "loop_frame el el'"
  shows "el_threadId el' = el_threadId el" "el_looping el' = el_looping el"
    "prefix (el_queued el) (el_queued el')" "fifo el \<Longrightarrow> fifo el'"
  using assms by (auto simp: loop_frame_def)

lemma wakeup_fields [simp]:
  "el_funcs (wakeup el) = el_funcs el" "el_queued (wakeup el) = el_queued el"
  "el_started (wakeup el) = el_started el" "el_threadId (wakeup el) = el_threadId el"
  "el_quitQueued (wakeup el) = el_quitQueued el" "el_quitStarted (wakeup el) = el_quitStarted el"
  "el_funcsOnQuit (wakeup el) = el_funcsOnQuit el" "el_looping (wakeup el) = el_looping el"
  "el_quit (wakeup el) = el_quit el"
  by (simp_all add: wakeup_def)

lemma queueInLoop_fields [simp]:
  "el_funcs (queueInLoop me f el) = el_funcs el @ [f]"
  "el_queued (queueInLoop me f el) = el_queued el @ [f]"
  "el_started (queueInLoop me f el) = el_started el"
  "el_quit (queueInLoop me f el) = el_quit el"
  "el_threadId (queueInLoop me f el) = el_threadId el"
  "el_quitQueued (queueInLoop me f el) = el_quitQueued el"
  "el_quitStarted (queueInLoop me f el) = el_quitStarted el"
  "el_funcsOnQuit (queueInLoop me f el) = el_funcsOnQuit el"
  "el_looping (queueInLoop me f el) = el_looping el"
  by (simp_all add: queueInLoop_def enqueue_func_def Let_def)

lemma quit_fields [simp]:
  "el_funcs (EventLoop_quit me el) = el_funcs el" "el_queued (EventLoop_quit me el) = el_queued el"
  "el_started (EventLoop_quit me el) = el_started el" "el_quit (EventLoop_quit me el)"
  "el_threadId (EventLoop_quit me el) = el_threadId el"
  "el_quitQueued (EventLoop_quit me el) = el_quitQueued el"
  "el_quitStarted (EventLoop_quit me el) = el_quitStarted el"
  "el_funcsOnQuit (EventLoop_quit me el) = el_funcsOnQuit el"
  "el_looping (EventLoop_quit me el) = el_looping el"
  by (simp_all add: EventLoop_quit_def Let_def)

lemmas frame_defs = loop_frame_def fifo_def

lemma frame_ops [simp]:
  "loop_frame el (queueInLoop me f el)" "loop_frame el (EventLoop_quit me el)"
  "loop_frame el (runOnQuit f el)" "loop_frame el (wakeupRead el)"
  by (auto simp: frame_defs runOnQuit_def wakeupRead_def)

lemma frame_flags [simp]:
  "loop_frame el (el\<lparr>el_callingFuncs := b\<rparr>)" "loop_frame el (el\<lparr>el_eventHandling := b\<rparr>)"
  by (auto simp: frame_defs)

lemma frame_run_code: "run_code k bodies me as el = Inr (out, el') \<Longrightarrow> loop_frame el el' \<and> out \<noteq> Waiting"
proof (induction k bodies me as el rule: run_code.induct)
  case (4 k bodies me f as el)
  then show ?case by (auto split: if_splits intro: loop_frame_trans [OF frame_ops(1)])
qed (auto intro: loop_frame_trans [OF frame_ops(1)] loop_frame_trans [OF frame_ops(2)]
       loop_frame_trans [OF frame_ops(3)])

lemma dequeue_func_frame: "dequeue_func el = Some (f, el') \<Longrightarrow> loop_frame el el'"
  by (auto simp: frame_defs dequeue_func_def split: list.splits)

text \<open>A result of a loop is a finished iteration followed by the rest, or the iteration's own.\<close>

lemma bind_outcome:
  assumes "bind_res m (\<lambda>(out, el). case out of Finished \<Rightarrow> g el | _ \<Rightarrow> Inr (out, el)) = Inr (out, el')"
  obtains el1 where "m = Inr (Finished, el1)" "g el1 = Inr (out, el')"
        | "m = Inr (out, el')" "out \<noteq> Finished"
proof -
  from assms obtain out1 el1 where m: "m = Inr (out1, el1)"
    "(case out1 of Finished \<Rightarrow> g el1 | _ \<Rightarrow> Inr (out1, el1)) = Inr (out, el')"
    by (auto simp: bind_res_Inr_iff)
  then show thesis by (cases out1) (auto intro: that)
qed

lemma frame_dequeue_loop:
  "dequeue_loop k bodies el = Inr (out, el') \<Longrightarrow>
   loop_frame el el' \<and> out \<noteq> Waiting \<and> (out = Finished \<longrightarrow> el_funcs el' = [])"
proof (induction k arbitrary: el)
  case (Suc k)
  show ?case
  proof (cases "dequeue_func el")
    case None
    with Suc.prems show ?thesis by (auto simp: dequeue_func_def split: list.splits)
  next
    case (Some p)
    obtain f el0 where p: "p = (f, el0)" by (cases p)
    note frame = dequeue_func_frame [OF Some [unfolded p]]
    have eq: "bind_res (run_code k bodies (el_threadId el0) (bodies f) el0)
      (\<lambda>(out, el). case out of Finished \<Rightarrow> dequeue_loop k bodies el | _ \<Rightarrow> Inr (out, el)) = Inr (out, el')"
      using Suc.prems Some p by simp
    show ?thesis
    proof (rule bind_outcome [OF eq], goal_cases)
      case (1 el1)
      from Suc.IH [OF 1(2)] frame_run_code [OF 1(1)] frame show ?thesis
        by (meson loop_frame_trans)
    next
      case 2
      from frame_run_code [OF 2(1)] frame 2(2) show ?thesis by (meson loop_frame_trans)
    qed
  qed
qed simp

lemma frame_funcs_loop:
  "funcs_loop k bodies el = Inr (out, el') \<Longrightarrow>
   loop_frame el el' \<and> out \<noteq> Waiting \<and> (out = Finished \<longrightarrow> el_funcs el' = [])"
proof (induction k arbitrary: el)
  case (Suc k)
  show ?case
  proof (cases "el_funcs el = []")
    case False
    then have eq: "bind_res (dequeue_loop k bodies el)
      (\<lambda>(out, el). case out of Finished \<Rightarrow> funcs_loop k bodies el | _ \<Rightarrow> Inr (out, el)) = Inr (out, el')"
      using Suc.prems by simp
    show ?thesis
    proof (rule bind_outcome [OF eq], goal_cases)
      case (1 el1)
      from Suc.IH [OF 1(2)] frame_dequeue_loop [OF 1(1)] show ?thesis by (meson loop_frame_trans)
    next
      case 2
      from frame_dequeue_loop [OF 2(1)] 2(2) show ?thesis by simp
    qed
  qed (use Suc.prems in simp)
qed simp

lemma frame_doRun:
  assumes "doRunInLoopFuncs k bodies el = Inr (out, el')"
  shows "loop_frame el el' \<and> out \<noteq> Waiting \<and> (out = Finished \<longrightarrow> el_funcs el' = []) \<and> \<not> el_callingFuncs el'"
proof -
  from assms obtain el1 where r: "funcs_loop k bodies (el\<lparr>el_callingFuncs := True\<rparr>) = Inr (out, el1)"
    "el' = el1\<lparr>el_callingFuncs := False\<rparr>"
    by (auto simp: doRunInLoopFuncs_def bind_res_Inr_iff)
  from frame_funcs_loop [OF r(1)] show ?thesis
    unfolding r(2) by (auto intro: loop_frame_trans [OF frame_flags(1)] loop_frame_trans [OF _ frame_flags(1)])
qed

lemma frame_other: "loop_frame el (other_action a el)"
  by (cases a; cases "snd a") auto

lemma frame_others: "loop_frame el (fold other_action as el)"
  by (induction as arbitrary: el) (auto intro: loop_frame_trans [OF frame_other])

lemma frame_handle_active: "handle_active k bodies hs el = Inr (out, el') \<Longrightarrow> loop_frame el el' \<and> out \<noteq> Waiting"
proof (induction hs arbitrary: el)
  case (Cons h hs)
  show ?case
  proof (cases h)
    case WakeupChannel
    with Cons show ?thesis by (auto intro: loop_frame_trans [OF frame_ops(4)])
  next
    case (UserChannel code)
    with Cons.prems have eq: "bind_res (run_code k bodies (el_threadId el) code el)
        (\<lambda>(out, el). case out of Finished \<Rightarrow> handle_active k bodies hs el | _ \<Rightarrow> Inr (out, el)) = Inr (out, el')"
      by simp
    show ?thesis
    proof (rule bind_outcome [OF eq], goal_cases)
      case (1 el1)
      from Cons.IH [OF 1(2)] loop_frame_trans [OF conjunct1 [OF frame_run_code [OF 1(1)]]]
      show ?thesis by blast
    next
      case 2
      from frame_run_code [OF 2(1)] show ?thesis .
    qed
  qed
qed simp

lemma frame_loop_body:
  assumes "loop_body k bodies r el = Inr (out, el')"
  shows "loop_frame el el' \<and> out \<noteq> Waiting \<and> (out = Finished \<longrightarrow> el_funcs el' = [])"
proof -
  let ?el = "(fold other_action (rd_others r) el)\<lparr>el_eventHandling := True\<rparr>"
  have start: "loop_frame el ?el" by (rule loop_frame_trans [OF frame_others frame_flags(2)])
  from assms have eq: "bind_res (handle_active k bodies (rd_active r) ?el)
      (\<lambda>(out, el). case out of Finished \<Rightarrow> doRunInLoopFuncs k bodies (el\<lparr>el_eventHandling := False\<rparr>)
         | _ \<Rightarrow> Inr (out, el)) = Inr (out, el')"
    by (simp add: loop_body_def Let_def)
  show ?thesis
  proof (rule bind_outcome [OF eq], goal_cases)
    case (1 el1)
    note run = frame_doRun [OF 1(2)]
    have "loop_frame el el1"
      by (rule loop_frame_trans [OF start conjunct1 [OF frame_handle_active [OF 1(1)]]])
    from loop_frame_trans [OF this loop_frame_trans [OF frame_flags(2) conjunct1 [OF run]]] run
    show ?thesis by simp
  next
    case 2
    note h = frame_handle_active [OF 2(1)]
    from loop_frame_trans [OF start conjunct1 [OF h]] h 2(2) show ?thesis by simp
  qed
qed

lemma frame_loop_while:
  "loop_while k bodies rs el = Inr (out, el') \<Longrightarrow>
   loop_frame el el' \<and>
   (out = Finished \<or> out = Waiting \<longrightarrow> el_funcs el' = [] \<or> (el' = el \<and> (rs = [] \<or> el_quit el)))"
proof (induction rs arbitrary: el)
  case Nil
  then show ?case by (auto split: if_splits)
next
  case (Cons r rs)
  show ?case
  proof (cases "el_quit el")
    case False
    with Cons.prems have eq: "bind_res (loop_body k bodies r el)
        (\<lambda>(out, el). case out of Finished \<Rightarrow> loop_while k bodies rs el | _ \<Rightarrow> Inr (out, el)) = Inr (out, el')"
      by simp
    show ?thesis
    proof (rule bind_outcome [OF eq], goal_cases)
      case (1 el1)
      from Cons.IH [OF 1(2)] frame_loop_body [OF 1(1)] show ?thesis by (auto intro: loop_frame_trans)
    next
      case 2
      from frame_loop_body [OF 2(1)] 2(2) show ?thesis by simp
    qed
  qed (use Cons.prems in \<open>simp\<close>)
qed

text \<open>
  C12. The queued functions, in the loop: from any state, through any rounds with any actions of
  other threads, handlers and functions, no function is lost, duplicated or overtaken (those that
  started and those that wait are, in order, those queued), and when the loop waits again after a
  round, or ends, every function queued so far has run, those queued by functions included.
\<close>

theorem loop_runs_queued:
  assumes "fifo el" "loop_while k bodies rs el = Inr (out, el')" "\<not> el_quit el"
  shows "prefix (el_queued el) (el_queued el') \<and> el_queued el' = el_started el' @ el_funcs el' \<and>
    (rs \<noteq> [] \<and> (out = Finished \<or> out = Waiting) \<longrightarrow> el_started el' = el_queued el')"
proof -
  from frame_loop_while [OF assms(2)] have frame: "loop_frame el el'"
    and empty: "rs \<noteq> [] \<and> (out = Finished \<or> out = Waiting) \<longrightarrow> el_funcs el' = []"
    using assms(3) by blast+
  from loop_frameD(4) [OF frame assms(1)] loop_frameD(3) [OF frame] empty show ?thesis
    by (auto simp: fifo_def)
qed

section \<open>The end of the loop\<close>

lemma frame_start_quit:
  "el_funcsOnQuit el = f # fs \<Longrightarrow>
   loop_frame el (el\<lparr>el_funcsOnQuit := fs, el_quitStarted := el_quitStarted el @ [f]\<rparr>)"
  by (auto simp: frame_defs)

lemma frame_quit_loop:
  "quit_loop k bodies el = Inr (out, el') \<Longrightarrow>
   loop_frame el el' \<and> out \<noteq> Waiting \<and> (out = Finished \<longrightarrow> el_funcsOnQuit el' = [])"
proof (induction k arbitrary: el)
  case (Suc k)
  show ?case
  proof (cases "el_funcsOnQuit el")
    case (Cons f fs)
    let ?el = "el\<lparr>el_funcsOnQuit := fs, el_quitStarted := el_quitStarted el @ [f]\<rparr>"
    note start = frame_start_quit [OF Cons]
    have eq: "bind_res (run_code k bodies (el_threadId el) (bodies f) ?el)
      (\<lambda>(out, el). case out of Finished \<Rightarrow> quit_loop k bodies el | _ \<Rightarrow> Inr (out, el)) = Inr (out, el')"
      using Suc.prems Cons by simp
    show ?thesis
    proof (rule bind_outcome [OF eq], goal_cases)
      case (1 el1)
      note h = loop_frame_trans [OF start conjunct1 [OF frame_run_code [OF 1(1)]]]
      from Suc.IH [OF 1(2)] loop_frame_trans [OF h] show ?thesis by blast
    next
      case 2
      note h = frame_run_code [OF 2(1)]
      from loop_frame_trans [OF start conjunct1 [OF h]] h 2(2) show ?thesis by simp
    qed
  qed (use Suc.prems in simp)
qed simp

definition never_throws :: "bodies \<Rightarrow> bool" where
  "never_throws bodies \<longleftrightarrow> (\<forall>f std. Throw std \<notin> set (bodies f))"

lemma no_throw_run_code:
  "run_code k bodies me as el = Inr (out, el') \<Longrightarrow> never_throws bodies \<Longrightarrow>
   \<forall>std. Throw std \<notin> set as \<Longrightarrow> out = Finished"
  by (induction k bodies me as el rule: run_code.induct)
     (auto simp: never_throws_def split: if_splits)

lemma no_throw_quit_loop:
  assumes "never_throws bodies"
  shows "quit_loop k bodies el = Inr (out, el') \<Longrightarrow> out = Finished"
proof (induction k arbitrary: el)
  case (Suc k)
  show ?case
  proof (cases "el_funcsOnQuit el")
    case (Cons f fs)
    let ?el = "el\<lparr>el_funcsOnQuit := fs, el_quitStarted := el_quitStarted el @ [f]\<rparr>"
    have eq: "bind_res (run_code k bodies (el_threadId el) (bodies f) ?el)
      (\<lambda>(out, el). case out of Finished \<Rightarrow> quit_loop k bodies el | _ \<Rightarrow> Inr (out, el)) = Inr (out, el')"
      using Suc.prems Cons by simp
    show ?thesis
    proof (rule bind_outcome [OF eq], goal_cases)
      case (1 el1)
      then show ?thesis using Suc.IH by blast
    next
      case 2
      then show ?thesis using no_throw_run_code [OF 2(1) assms] assms by (simp add: never_throws_def)
    qed
  qed (use Suc.prems in simp)
qed simp

lemma loop_exit_result:
  assumes "loop_exit k bodies out el slots = Inr (out', el', slots')"
  obtains "quit_loop k bodies el = Inr (Finished, el')" "out' = out"
          "slots' = slots(el_threadId el' := None)"
        | "quit_loop k bodies el = Inr (out', el')" "out' \<noteq> Finished" "slots' = slots"
proof -
  from assms obtain o1 el1 where "quit_loop k bodies el = Inr (o1, el1)"
    "(case o1 of Finished \<Rightarrow> Inr (out, el1, slots(el_threadId el1 := None))
       | _ \<Rightarrow> Inr (o1, el1, slots)) = (Inr (out', el', slots') :: (outcome \<times> EventLoop \<times> slots) res)"
    unfolding loop_exit_def bind_res_Inr_iff by (elim exE conjE) (simp split: prod.splits)
  then show thesis by (cases o1) (auto intro: that)
qed

lemma loop_exit_frame:
  assumes "loop_exit k bodies out el slots = Inr (out', el', slots')" "out \<noteq> Waiting"
  shows "loop_frame el el' \<and> out' \<noteq> Waiting \<and>
    (out' = out \<and> slots' = slots(el_threadId el := None) \<and> el_funcsOnQuit el' = [] \<or>
     out' \<noteq> Finished \<and> slots' = slots \<and> \<not> never_throws bodies)"
proof (rule loop_exit_result [OF assms(1)], goal_cases)
  case 1
  note q = frame_quit_loop [OF 1(1)]
  from q 1 loop_frameD(1) [OF conjunct1 [OF q]] assms(2) show ?case by simp
next
  case 2
  from frame_quit_loop [OF 2(1)] 2 no_throw_quit_loop [OF _ 2(1)] show ?case by blast
qed


end
