(* ===== verification/EventLoopRounds.thy ===== *)
theory EventLoopRounds
  imports EventLoopProps
begin

text \<open>
  How long a round of queued functions lasts: a bound when every function weighs more than what
  it queues and calls, and the function that queues itself, which keeps the loop from polling.
  Also the registration of a loop that moves between threads, and concrete runs.
\<close>

section \<open>A bound\<close>

fun action_cost :: "(nat \<Rightarrow> nat) \<Rightarrow> action \<Rightarrow> nat" where
  "action_cost W (QueueInLoop f) = 2 + W f"
| "action_cost W (RunInLoop f) = 2 + W f"
| "action_cost W a = 1"

abbreviation code_cost :: "(nat \<Rightarrow> nat) \<Rightarrow> action list \<Rightarrow> nat" where
  "code_cost W as \<equiv> sum_list (map (action_cost W) as)"

definition weighs :: "(nat \<Rightarrow> nat) \<Rightarrow> bodies \<Rightarrow> bool" where
  "weighs W bodies \<longleftrightarrow> (\<forall>f. code_cost W (bodies f) \<le> W f)"

definition waiting_cost :: "(nat \<Rightarrow> nat) \<Rightarrow> EventLoop \<Rightarrow> nat" where
  "waiting_cost W el = sum_list (map (\<lambda>f. 1 + W f) (el_funcs el))"

lemma waiting_cost_ops [simp]:
  "waiting_cost W (queueInLoop me f el) = waiting_cost W el + (1 + W f)"
  "waiting_cost W (EventLoop_quit me el) = waiting_cost W el"
  "waiting_cost W (runOnQuit f el) = waiting_cost W el"
  "waiting_cost W (el\<lparr>el_callingFuncs := b\<rparr>) = waiting_cost W el"
  by (simp_all add: waiting_cost_def runOnQuit_def)

lemma run_code_ends:
  assumes "weighs W bodies"
  shows "code_cost W as \<le> k \<Longrightarrow>
    \<exists>out el'. run_code k bodies me as el = Inr (out, el') \<and>
              waiting_cost W el' \<le> waiting_cost W el + code_cost W as"
proof (induction k arbitrary: as el)
  case 0
  then show ?case by (cases as; cases "hd as") auto
next
  case (Suc k)
  show ?case
  proof (cases as)
    case (Cons a as')
    show ?thesis
    proof (cases a)
      case (QueueInLoop f)
      with Cons Suc.prems Suc.IH [of as' "queueInLoop me f el"] show ?thesis by fastforce
    next
      case (RunInLoop f)
      have w: "code_cost W (bodies f) \<le> W f" using assms by (simp add: weighs_def)
      with RunInLoop Cons Suc.prems Suc.IH [of "bodies f @ as'" el]
        Suc.IH [of as' "queueInLoop me f el"] show ?thesis by fastforce
    next
      case Quit
      with Cons Suc.prems Suc.IH [of as' "EventLoop_quit me el"] show ?thesis by fastforce
    next
      case (RunOnQuit f)
      with Cons Suc.prems Suc.IH [of as' "runOnQuit f el"] show ?thesis by fastforce
    qed (use Cons in simp)
  qed simp
qed

lemma dequeue_loop_ends:
  assumes "weighs W bodies"
  shows "waiting_cost W el < k \<Longrightarrow> \<exists>out el'. dequeue_loop k bodies el = Inr (out, el')"
proof (induction k arbitrary: el)
  case (Suc k)
  show ?case
  proof (cases "el_funcs el")
    case (Cons f fs)
    let ?el = "el\<lparr>el_funcs := fs, el_started := el_started el @ [f]\<rparr>"
    have deq: "dequeue_func el = Some (f, ?el)" using Cons by (simp add: dequeue_func_def)
    have cost: "waiting_cost W el = 1 + W f + waiting_cost W ?el"
      using Cons by (simp add: waiting_cost_def)
    have w: "code_cost W (bodies f) \<le> W f" using assms by (simp add: weighs_def)
    with cost Suc.prems have "code_cost W (bodies f) \<le> k" by simp
    from run_code_ends [OF assms this, of "el_threadId el" ?el] obtain out el1 where
      r: "run_code k bodies (el_threadId el) (bodies f) ?el = Inr (out, el1)"
      "waiting_cost W el1 \<le> waiting_cost W ?el + code_cost W (bodies f)" by blast
    have "waiting_cost W el1 < k" using r(2) cost w Suc.prems by simp
    from Suc.IH [OF this] deq r(1) show ?thesis by (cases out) auto
  qed (simp add: dequeue_func_def)
qed simp

text \<open>
  C34. A round of queued functions ends: when the functions have weights such that each weighs at
  least as much as what its body queues and calls (2 plus its weight for a function, 1 for
  anything else), \<open>doRunInLoopFuncs\<close> ends within two more steps than the weight of what waits,
  with an exception or with nothing left.
\<close>

theorem funcs_terminate:
  assumes "weighs W bodies" "waiting_cost W el + 2 \<le> k"
  shows "\<exists>out el'. doRunInLoopFuncs k bodies el = Inr (out, el') \<and>
    ((\<exists>std. out = Raised std) \<or> out = Finished \<and> el_funcs el' = [])"
proof -
  let ?el = "el\<lparr>el_callingFuncs := True\<rparr>"
  obtain j where k: "k = Suc (Suc j)" "waiting_cost W ?el < Suc j"
    using assms(2) by (auto simp: numeral_2_eq_2 dest!: le_Suc_ex)
  from dequeue_loop_ends [OF assms(1) k(2)] obtain out el1 where
    d: "dequeue_loop (Suc j) bodies ?el = Inr (out, el1)" by blast
  have "\<exists>el'. funcs_loop k bodies ?el = Inr (if el_funcs ?el = [] then Finished else out, el')"
    using frame_dequeue_loop [OF d] d by (cases out) (auto simp: k(1))
  then obtain out' el' where f: "funcs_loop k bodies ?el = Inr (out', el')" by blast
  then have "doRunInLoopFuncs k bodies el = Inr (out', el'\<lparr>el_callingFuncs := False\<rparr>)"
    by (simp add: doRunInLoopFuncs_def)
  moreover from frame_doRun [OF this] have "(\<exists>std. out' = Raised std) \<or> out' = Finished \<and> el_funcs el' = []"
    by (cases out') auto
  ultimately show ?thesis by auto
qed

section \<open>A function that queues itself\<close>

lemma run_code_keeps:
  "run_code k bodies me as el = Inr (Finished, el') \<Longrightarrow>
   set (el_funcs el) \<subseteq> set (el_funcs el') \<and> (QueueInLoop f \<in> set as \<longrightarrow> f \<in> set (el_funcs el'))"
proof (induction k bodies me as el rule: run_code.induct)
  case (4 k bodies me g as el)
  then show ?case by (fastforce split: if_splits)
next
  case (6 k bodies me g as el)
  then show ?case by (fastforce simp: runOnQuit_def)
qed fastforce+

lemma run_code_Inl: "run_code k bodies me as el = Inl e \<Longrightarrow> e = OutOfFuel"
  by (induction k bodies me as el rule: run_code.induct) (auto split: if_splits)

lemma starve_dequeue_loop:
  assumes "QueueInLoop f \<in> set (bodies f)" "never_throws bodies"
  shows "f \<in> set (el_funcs el) \<Longrightarrow> dequeue_loop k bodies el = Inl OutOfFuel"
proof (induction k arbitrary: el)
  case (Suc k)
  then obtain g gs where g: "el_funcs el = g # gs" by (cases "el_funcs el") auto
  let ?el = "el\<lparr>el_funcs := gs, el_started := el_started el @ [g]\<rparr>"
  have deq: "dequeue_func el = Some (g, ?el)" using g by (simp add: dequeue_func_def)
  show ?case
  proof (cases "run_code k bodies (el_threadId el) (bodies g) ?el")
    case (Inl e)
    from run_code_Inl [OF Inl] deq Inl show ?thesis by simp
  next
    case (Inr p)
    obtain out el1 where p: "p = (out, el1)" by (cases p)
    have "out = Finished"
      by (rule no_throw_run_code [OF Inr [unfolded p] assms(2)]) (use assms(2) in \<open>simp add: never_throws_def\<close>)
    with p have r: "run_code k bodies (el_threadId el) (bodies g) ?el = Inr (Finished, el1)"
      using Inr by simp
    have "f \<in> set (el_funcs el1)"
      using run_code_keeps [OF r, of f] Suc.prems g assms(1) by (cases "f = g") auto
    from Suc.IH [OF this] deq r show ?thesis by simp
  qed
qed simp

text \<open>
  A function that queues itself starves the loop: however many steps are allowed,
  \<open>doRunInLoopFuncs\<close> has not returned, so the loop never polls its channels again and no timer or
  connection of it makes progress.
\<close>

theorem requeue_starves:
  assumes "QueueInLoop f \<in> set (bodies f)" "never_throws bodies" "f \<in> set (el_funcs el)"
  shows "doRunInLoopFuncs k bodies el = Inl OutOfFuel"
proof (cases k)
  case (Suc j)
  have "f \<in> set (el_funcs (el\<lparr>el_callingFuncs := True\<rparr>))" using assms(3) by simp
  from starve_dequeue_loop [OF assms(1,2) this, of j] assms(3) Suc show ?thesis
    by (auto simp: doRunInLoopFuncs_def)
qed (simp add: doRunInLoopFuncs_def)

section \<open>Loops that move between threads\<close>

text \<open>
  Moving a loop clears the slot of the thread it came from whoever is in it: when that thread
  has got another loop since, the thread forgets that loop, and a third one can be made in it,
  which the check of the constructor is there to prevent.
\<close>

theorem move_erases_other:
  assumes "moveToCurrentThread me this el slots = Inr (el', slots')"
    and "el_threadId el \<noteq> me" "getEventLoopOfCurrentThread (el_slot el) slots = Some other"
  shows "getEventLoopOfCurrentThread me slots' = Some this \<and> el_threadId el' = me \<and>
    getEventLoopOfCurrentThread (el_slot el) slots' = None \<and>
    (\<exists>third slots''. EventLoop_new (el_slot el) new slots' = Inr (third, slots''))"
  using assms
  by (auto simp: moveToCurrentThread_def isInLoopThread_def getEventLoopOfCurrentThread_def
    EventLoop_new_def split: if_splits)

section \<open>A concrete loop\<close>

text \<open>
  Function 0 queues 1 and 2; 2 gives 3 to run on quit and quits. Another thread queues 0.
\<close>

definition sample_bodies :: bodies where
  "sample_bodies f = (if f = 0 then [QueueInLoop 1, QueueInLoop 2]
                      else if f = 2 then [RunOnQuit 3, Quit] else [])"

definition sample_loop :: EventLoop where
  "sample_loop = \<lparr>el_looping = False, el_threadId = 7, el_quit = False, el_eventHandling = False,
     el_funcs = [], el_funcsOnQuit = [], el_callingFuncs = False, el_wakeupFd = 0,
     el_index = sz_modulus - 1, el_slot = 7, el_queued = [], el_started = [],
     el_quitQueued = [], el_quitStarted = []\<rparr>"

definition sample_round :: round where
  "sample_round = \<lparr>rd_others = [(8, QueueInLoop 0)], rd_active = [WakeupChannel]\<rparr>"

lemma sample_loop_new: "EventLoop_new 7 1 (\<lambda>_. None) = Inr (sample_loop, [7 \<mapsto> 1])"
  by (simp add: EventLoop_new_def sample_loop_def)

text \<open>Twelve steps.\<close>

abbreviation sample_fuel :: nat where
  "sample_fuel \<equiv> Suc (Suc (Suc (Suc (Suc (Suc (Suc (Suc (Suc (Suc (Suc (Suc 0)))))))))))"

lemmas loop_eval = EventLoop_loop_def loop_body_def doRunInLoopFuncs_def
  dequeue_func_def queueInLoop_def enqueue_func_def EventLoop_quit_def runOnQuit_def wakeup_def
  wakeupRead_def isInLoopThread_def assertInLoopThread_def loop_exit_def
  sample_bodies_def sample_loop_def sample_round_def

lemma sample_fifo: "fifo sample_loop"
  by (simp add: fifo_def sample_loop_def)

lemma sample_run: "\<exists>el slots. EventLoop_loop sample_fuel sample_bodies 7 [sample_round] sample_loop [7 \<mapsto> 1] =
    Inr (Finished, el, slots) \<and> el_started el = [0, 1, 2] \<and> el_quitStarted el = [3]"
  by (simp add: loop_eval)

lemma sample_while: "\<exists>el. loop_while sample_fuel sample_bodies [sample_round]
    (sample_loop\<lparr>el_looping := True\<rparr>) = Inr (Finished, el) \<and> el_started el = [0, 1, 2]"
  by (simp add: loop_eval)

theorem loop_runs_queued_witness:
  "\<exists>el. loop_while sample_fuel sample_bodies [sample_round] (sample_loop\<lparr>el_looping := True\<rparr>) =
      Inr (Finished, el) \<and> el_queued el = [0, 1, 2] \<and> el_funcs el = []"
proof -
  obtain el where run: "loop_while sample_fuel sample_bodies [sample_round]
      (sample_loop\<lparr>el_looping := True\<rparr>) = Inr (Finished, el)" "el_started el = [0, 1, 2]"
    using sample_while by blast
  have "fifo (sample_loop\<lparr>el_looping := True\<rparr>)" "\<not> el_quit (sample_loop\<lparr>el_looping := True\<rparr>)"
    by (simp_all add: fifo_def sample_loop_def)
  from loop_runs_queued [OF this(1) run(1) this(2)] run show ?thesis by auto
qed


theorem funcs_terminate_witness:
  "\<exists>out el. doRunInLoopFuncs 10 sample_bodies (queueInLoop 7 0 sample_loop) = Inr (out, el)"
proof -
  have "weighs (\<lambda>f. if f = 0 then 7 else if f = 2 then 3 else 0) sample_bodies"
    by (simp add: weighs_def sample_bodies_def)
  from funcs_terminate [OF this, of "queueInLoop 7 0 sample_loop" 10] show ?thesis
    by (auto simp: waiting_cost_def sample_loop_def)
qed

theorem requeue_starves_witness:
  "doRunInLoopFuncs 1000000 (\<lambda>_. [QueueInLoop 0]) (queueInLoop 7 0 sample_loop) = Inl OutOfFuel"
  by (rule requeue_starves [of 0]) (simp_all add: never_throws_def)

text \<open>A loop made in thread 7 has ended; thread 7 has another one; thread 8 takes the first.\<close>

theorem move_erases_other_witness:
  "\<exists>el slots. moveToCurrentThread 8 1 sample_loop [7 \<mapsto> 2] = Inr (el, slots) \<and> slots 7 = None"
proof -
  have run: "moveToCurrentThread 8 1 sample_loop [7 \<mapsto> 2] =
      Inr (sample_loop\<lparr>el_slot := 8, el_threadId := 8\<rparr>, [7 \<mapsto> 2](7 := None, 8 := Some 1))"
    by (simp add: moveToCurrentThread_def isRunning_def isInLoopThread_def sample_loop_def)
  from move_erases_other [OF run, of 2] show ?thesis
    using run by (auto simp: getEventLoopOfCurrentThread_def sample_loop_def)
qed

end
