(* ===== verification/EventLoopEnd.thy ===== *)
theory EventLoopEnd
  imports EventLoopRounds EpollProps
begin

text \<open>
  The end of a loop's life: the destructors of src/xiaoNet/net/EventLoop.cpp and of its timer queue
  (src/xiaoNet/net/inner/TimerQueue.cpp), with the poller the timer channel is registered in, and
  \<open>resetAfterFork\<close>, which no poller of the repository overrides.
\<close>

section \<open>Operations\<close>

definition Poller_resetAfterFork :: "Poller \<Rightarrow> Poller" where
  "Poller_resetAfterFork p = p"

definition EventLoop_resetAfterFork :: "Poller \<Rightarrow> Poller" where
  "EventLoop_resetAfterFork p = Poller_resetAfterFork p"

text \<open>
  The destructor of the timer queue, whose channel is \<open>i\<close>: in the loop's thread the channel is removed and
  the descriptor closed; from another one the closure is queued in a loop that will not run again.
  The result says whether the descriptor was closed.
\<close>

definition TimerQueue_destroy :: "nat \<Rightarrow> EventLoop \<Rightarrow> nat \<Rightarrow> Poller \<Rightarrow> (bool \<times> Poller) res" where
  "TimerQueue_destroy me el i p =
     (if isInLoopThread me el
      then bind_res (Channel_remove i (set_chan i (disableAll (pl_chans p i)) p)) (\<lambda>p. Inr (True, p))
      else Inr (False, p))"

text \<open>
  \<open>~EventLoop\<close> orders the loop to quit and waits until it does, then destroys its members. The
  slot of the thread is left as it is.
\<close>

definition EventLoop_destroy :: "nat \<Rightarrow> EventLoop \<Rightarrow> nat \<Rightarrow> Poller \<Rightarrow> (bool \<times> Poller) res" where
  "EventLoop_destroy me el i p =
     (let el = EventLoop_quit me el
      in if el_looping el then Inl Blocked else TimerQueue_destroy me el i p)"

section \<open>Lemmas\<close>

lemma destroy_idle:
  assumes "pl_inv p" "ch_index (pl_chans p i) \<noteq> kNew" "\<not> el_looping el" "isInLoopThread me el"
  shows "\<exists>p'. EventLoop_destroy me el i p = Inr (True, p') \<and> pl_inv p' \<and>
    interest (pl_log p') (ch_fd (pl_chans p i)) = None"
proof -
  let ?p = "set_chan i (disableAll (pl_chans p i)) p"
  have "pl_inv ?p" using assms(1) by (rule pl_inv_set_chan) (simp_all add: channel_ops)
  from Channel_remove_step [OF this, of i] assms(2)
  obtain p' where "Channel_remove i ?p = Inr p'" "pl_inv p'" "interest (pl_log p') (ch_fd (pl_chans p i)) = None"
    by (auto simp: channel_ops isNoneEvent_def)
  with assms(3,4) show ?thesis
    by (simp add: EventLoop_destroy_def TimerQueue_destroy_def EventLoop_quit_def isInLoopThread_def)
qed

text \<open>
  From another thread the timer's descriptor stays open and registered; inside a function of the
  loop itself the destructor never returns.
\<close>

lemma destroy_elsewhere:
  "\<not> isInLoopThread me el \<Longrightarrow> \<not> el_looping el \<Longrightarrow> EventLoop_destroy me el i p = Inr (False, p)"
  by (simp add: EventLoop_destroy_def TimerQueue_destroy_def EventLoop_quit_def wakeup_def isInLoopThread_def Let_def)

lemma destroy_looping: "el_looping el \<Longrightarrow> EventLoop_destroy me el i p = Inl Blocked"
  by (simp add: EventLoop_destroy_def EventLoop_quit_def wakeup_def Let_def)

section \<open>A loop that never ran\<close>

text \<open>
  A loop that is made and destroyed without having run leaves its thread with a pointer to it:
  the thread reports the destroyed loop as its own, and making another one ends the process.
\<close>

theorem unrun_loop_blocks_thread:
  assumes "EventLoop_new me this slots = Inr (el, slots')" "pl_inv p" "ch_index (pl_chans p i) \<noteq> kNew"
  shows "(\<exists>p'. EventLoop_destroy me el i p = Inr (True, p')) \<and>
    getEventLoopOfCurrentThread me slots' = Some this \<and> EventLoop_new me other slots' = Inl Exited"
proof -
  have "\<not> el_looping el" "isInLoopThread me el" "slots' me = Some this"
    using assms(1) by (auto simp: EventLoop_new_def isInLoopThread_def split: if_splits)
  with destroy_idle [OF assms(2,3)] show ?thesis
    by (auto simp: getEventLoopOfCurrentThread_def EventLoop_new_def)
qed

text \<open>A loop that has run and ended by itself has freed its thread.\<close>

lemma run_loop_frees_thread:
  assumes "loop_exit k bodies out el slots = Inr (Finished, el', slots')"
  shows "EventLoop_new (el_threadId el') this slots' \<noteq> Inl Exited"
  using assms by (rule loop_exit_result) (simp_all add: EventLoop_new_def)

end
