(* ===== verification/InetAddress.thy ===== *)
theory InetAddress
  imports ByteOrder
begin

text \<open>
  Addresses: src/xiaoNet/net/InetAddress.h and InetAddress.cpp. The union of \<open>sockaddr_in\<close> and
  \<open>sockaddr_in6\<close> is a record of the 28 bytes both lay over: family and port are shared, \<open>s_addr\<close>
  lies on \<open>sin6_flowinfo\<close>, \<open>sin_zero\<close> on the first half of \<open>sin6_addr\<close>. Integers are as the
  memory holds them, in network order. \<open>inet_pton\<close> and \<open>inet_ntop\<close> of the C library are parameters.
\<close>

section \<open>Data\<close>

record sockaddr =
  sa_family :: "16 word"
  sa_port :: "16 word"
  sa_addr4 :: "32 word"
  sa_addr6 :: "32 word \<times> 32 word \<times> 32 word \<times> 32 word"
  sa_scope :: "32 word"

record InetAddress =
  ia_addr :: sockaddr
  ia_isIpV6 :: bool
  ia_isUnspecified :: bool

definition AF_INET :: "16 word" where "AF_INET = 2"
definition AF_INET6 :: "16 word" where "AF_INET6 = 10"
definition kInaddrAny :: "32 word" where "kInaddrAny = 0"
definition kInaddrLoopback :: "32 word" where "kInaddrLoopback = 0x7F000001"

text \<open>The two uses of \<open>memset\<close>: the first sixteen bytes, and all of them.\<close>

definition zero4 :: "sockaddr \<Rightarrow> sockaddr" where
  "zero4 a = a\<lparr>sa_family := 0, sa_port := 0, sa_addr4 := 0,
               sa_addr6 := (0, 0, snd (snd (sa_addr6 a)))\<rparr>"

definition zero6 :: "sockaddr \<Rightarrow> sockaddr" where
  "zero6 a = \<lparr>sa_family = 0, sa_port = 0, sa_addr4 = 0, sa_addr6 = (0, 0, 0, 0), sa_scope = 0\<rparr>"

section \<open>Constructors\<close>

text \<open>\<open>m\<close> is what the memory of the object holds before.\<close>

definition InetAddress_port :: "sockaddr \<Rightarrow> 16 word \<Rightarrow> bool \<Rightarrow> bool \<Rightarrow> InetAddress" where
  "InetAddress_port m port loopbackOnly ipv6 =
     \<lparr>ia_addr =
        (if ipv6
         then (zero6 m)\<lparr>sa_family := AF_INET6,
                sa_addr6 := (0, 0, 0, if loopbackOnly then htonl 1 else 0), sa_port := htons port\<rparr>
         else (zero4 m)\<lparr>sa_family := AF_INET,
                sa_addr4 := htonl (if loopbackOnly then kInaddrLoopback else kInaddrAny),
                sa_port := htons port\<rparr>),
      ia_isIpV6 = ipv6, ia_isUnspecified = False\<rparr>"

definition InetAddress_ip :: "(string \<Rightarrow> 32 word option) \<Rightarrow>
    (string \<Rightarrow> (32 word \<times> 32 word \<times> 32 word \<times> 32 word) option) \<Rightarrow>
    sockaddr \<Rightarrow> string \<Rightarrow> 16 word \<Rightarrow> bool \<Rightarrow> InetAddress" where
  "InetAddress_ip pton4 pton6 m ip port ipv6 =
     (if ipv6
      then (let a = (zero6 m)\<lparr>sa_family := AF_INET6, sa_port := htons port\<rparr> in
        case pton6 ip of
          None \<Rightarrow> \<lparr>ia_addr = a, ia_isIpV6 = ipv6, ia_isUnspecified = True\<rparr>
        | Some x \<Rightarrow> \<lparr>ia_addr = a\<lparr>sa_addr6 := x\<rparr>, ia_isIpV6 = ipv6, ia_isUnspecified = False\<rparr>)
      else (let a = (zero4 m)\<lparr>sa_family := AF_INET, sa_port := htons port\<rparr> in
        case pton4 ip of
          None \<Rightarrow> \<lparr>ia_addr = a, ia_isIpV6 = ipv6, ia_isUnspecified = True\<rparr>
        | Some x \<Rightarrow> \<lparr>ia_addr = a\<lparr>sa_addr4 := x\<rparr>, ia_isIpV6 = ipv6, ia_isUnspecified = False\<rparr>))"

definition InetAddress_in :: "sockaddr \<Rightarrow> sockaddr \<Rightarrow> InetAddress" where
  "InetAddress_in m a =
     \<lparr>ia_addr = m\<lparr>sa_family := sa_family a, sa_port := sa_port a, sa_addr4 := sa_addr4 a,
        sa_addr6 := (fst (sa_addr6 a), fst (snd (sa_addr6 a)), snd (snd (sa_addr6 m)))\<rparr>,
      ia_isIpV6 = False, ia_isUnspecified = False\<rparr>"

definition InetAddress_in6 :: "sockaddr \<Rightarrow> InetAddress" where
  "InetAddress_in6 a = \<lparr>ia_addr = a, ia_isIpV6 = True, ia_isUnspecified = False\<rparr>"

definition setSockAddrInet6 :: "sockaddr \<Rightarrow> InetAddress \<Rightarrow> InetAddress" where
  "setSockAddrInet6 a i = i\<lparr>ia_addr := a, ia_isIpV6 := (sa_family a = AF_INET6),
                            ia_isUnspecified := False\<rparr>"

section \<open>Observers\<close>

definition ia_family :: "InetAddress \<Rightarrow> 16 word" where
  "ia_family i = sa_family (ia_addr i)"

definition isIpV6 :: "InetAddress \<Rightarrow> bool" where
  "isIpV6 i = ia_isIpV6 i"

definition isUnspecified :: "InetAddress \<Rightarrow> bool" where
  "isUnspecified i = ia_isUnspecified i"

definition getSockAddr :: "InetAddress \<Rightarrow> sockaddr" where
  "getSockAddr i = ia_addr i"

definition ipNetEndian :: "InetAddress \<Rightarrow> 32 word" where
  "ipNetEndian i = sa_addr4 (ia_addr i)"

definition ip6NetEndian :: "InetAddress \<Rightarrow> 32 word \<times> 32 word \<times> 32 word \<times> 32 word" where
  "ip6NetEndian i = sa_addr6 (ia_addr i)"

definition portNetEndian :: "InetAddress \<Rightarrow> 16 word" where
  "portNetEndian i = sa_port (ia_addr i)"

definition setPortNetEndian :: "16 word \<Rightarrow> InetAddress \<Rightarrow> InetAddress" where
  "setPortNetEndian port i = i\<lparr>ia_addr := (ia_addr i)\<lparr>sa_port := port\<rparr>\<rparr>"

definition toPort :: "InetAddress \<Rightarrow> 16 word" where
  "toPort i = ntohs (portNetEndian i)"

text \<open>The ranges both halves of \<open>isIntranetIp\<close> test.\<close>

definition intranet4 :: "32 word \<Rightarrow> bool" where
  "intranet4 ip \<longleftrightarrow>
     (0x0A000000 \<le> ip \<and> ip \<le> 0x0AFFFFFF) \<or> (0xAC100000 \<le> ip \<and> ip \<le> 0xAC1FFFFF) \<or>
     (0xC0A80000 \<le> ip \<and> ip \<le> 0xC0A8FFFF) \<or> ip = 0x7F000001"

definition isIntranetIp :: "InetAddress \<Rightarrow> bool" where
  "isIntranetIp i =
     (if sa_family (ia_addr i) = AF_INET then intranet4 (ntohl (sa_addr4 (ia_addr i)))
      else (let (a0, a1, a2, a3) = ip6NetEndian i in
        if a0 = 0 \<and> a1 = 0 \<and> a2 = 0 \<and> ntohl a3 = 1 then True
        else (let i32 = ntohl a0 AND 0xFFC00000 in
          if i32 = 0xFEC00000 \<or> i32 = 0xFE800000 then True
          else if a0 = 0 \<and> a1 = 0 \<and> ntohl a2 = 0xFFFF then intranet4 (ntohl a3)
          else False)))"

definition isLoopbackIp :: "InetAddress \<Rightarrow> bool" where
  "isLoopbackIp i =
     (if \<not> isIpV6 i then ntohl (sa_addr4 (ia_addr i)) = 0x7F000001
      else (let (a0, a1, a2, a3) = ip6NetEndian i in
        (a0 = 0 \<and> a1 = 0 \<and> a2 = 0 \<and> ntohl a3 = 1) \<or>
        (a0 = 0 \<and> a1 = 0 \<and> ntohl a2 = 0xFFFF \<and> ntohl a3 = 0x7F000001)))"

text \<open>\<open>toIp\<close> returns an uninitialised array when the family is neither of the two.\<close>

definition toIp :: "(32 word \<Rightarrow> string) \<Rightarrow> (32 word \<times> 32 word \<times> 32 word \<times> 32 word \<Rightarrow> string) \<Rightarrow>
    InetAddress \<Rightarrow> string res" where
  "toIp ntop4 ntop6 i =
     (if sa_family (ia_addr i) = AF_INET then Inr (ntop4 (sa_addr4 (ia_addr i)))
      else if sa_family (ia_addr i) = AF_INET6 then Inr (ntop6 (sa_addr6 (ia_addr i)))
      else Inl Undefined)"

fun decimal :: "nat \<Rightarrow> string" where
  "decimal n = (if n < 10 then [char_of (48 + n)] else decimal (n div 10) @ [char_of (48 + n mod 10)])"

declare decimal.simps [simp del]

definition toIpPort :: "(32 word \<Rightarrow> string) \<Rightarrow> (32 word \<times> 32 word \<times> 32 word \<times> 32 word \<Rightarrow> string) \<Rightarrow>
    InetAddress \<Rightarrow> string res" where
  "toIpPort ntop4 ntop6 i =
     (let port = ntohs (sa_port (ia_addr i)) in
      bind_res (toIp ntop4 ntop6 i) (\<lambda>s. Inr (s @ '':'' @ decimal (unat port))))"

definition toIpNetEndian :: "InetAddress \<Rightarrow> byte list" where
  "toIpNetEndian i =
     (if sa_family (ia_addr i) = AF_INET then le_bytes 4 (sa_addr4 (ia_addr i))
      else if sa_family (ia_addr i) = AF_INET6
      then (let (a0, a1, a2, a3) = ip6NetEndian i
            in le_bytes 4 a0 @ le_bytes 4 a1 @ le_bytes 4 a2 @ le_bytes 4 a3)
      else [])"

definition toIpPortNetEndian :: "InetAddress \<Rightarrow> byte list" where
  "toIpPortNetEndian i = toIpNetEndian i @ le_bytes 2 (sa_port (ia_addr i))"

section \<open>Properties\<close>

text \<open>The address with the given four octets, in host order.\<close>

definition dotted :: "8 word \<Rightarrow> 8 word \<Rightarrow> 8 word \<Rightarrow> 8 word \<Rightarrow> 32 word" where
  "dotted a b c d = of_le [d, c, b, a]"

lemma drop_bit_of_le:
  assumes "8 * length (b # bs) \<le> LENGTH('a)"
  shows "drop_bit 8 (of_le (b # bs) :: 'a::len word) = of_le bs"
proof (rule bit_word_eqI)
  fix k assume "k < LENGTH('a)"
  moreover have "(8 + k) div 8 = Suc (k div 8)" by simp
  ultimately show "bit (drop_bit 8 (of_le (b # bs) :: 'a word)) k \<longleftrightarrow> bit (of_le bs :: 'a word) k"
    using assms by (auto simp: bit_of_le bit_drop_bit_eq simp del: of_le.simps)
qed

lemma take_bit_of_le:
  assumes "8 \<le> LENGTH('a)"
  shows "take_bit 8 (of_le (b # bs) :: 'a::len word) = ucast b"
proof (rule bit_word_eqI)
  fix k assume "k < LENGTH('a)"
  then show "bit (take_bit 8 (of_le (b # bs) :: 'a word)) k \<longleftrightarrow> bit (ucast b :: 'a word) k"
    using assms by (auto simp: bit_of_le bit_take_bit_iff bit_ucast_iff nth_Cons' dest: bit_imp_le_length
      simp del: of_le.simps)
qed

lemma unat_of_le_Cons:
  assumes "8 * length (b # bs) \<le> LENGTH('a)"
  shows "unat (of_le (b # bs) :: 'a::len word) = unat b + 256 * unat (of_le bs :: 'a word)"
proof -
  let ?w = "of_le (b # bs) :: 'a word"
  have len: "8 \<le> LENGTH('a)" using assms by simp
  have "unat (take_bit 8 ?w) = unat ?w mod 256" 
    by (subst unsigned_take_bit_eq) (simp add: take_bit_eq_mod del: of_le.simps)
  moreover have "unat (drop_bit 8 ?w) = unat ?w div 256" 
    by (subst unat_drop_bit_eq) (simp add: drop_bit_eq_div del: of_le.simps)
  moreover have "unat (ucast b :: 'a word) = unat b"
  proof -
    have "unat b < 2 ^ 8" using unsigned_less [of b] by simp
    also have "(2 :: nat) ^ 8 \<le> 2 ^ LENGTH('a)" using len by (intro power_increasing) auto
    finally show ?thesis unfolding unsigned_ucast_eq by (simp add: take_bit_nat_eq_self_iff)
  qed
  ultimately show ?thesis
    unfolding drop_bit_of_le [OF assms] take_bit_of_le [OF len] by (metis div_mult_mod_eq add.commute mult.commute)
qed

lemma unat_dotted:
  "unat (dotted a b c d) = unat d + 256 * (unat c + 256 * (unat b + 256 * unat a))"
  using unat_of_le_Cons [where 'a = 32, of d "[c, b, a]"] unat_of_le_Cons [where 'a = 32, of c "[b, a]"]
    unat_of_le_Cons [where 'a = 32, of b "[a]"] unat_of_le_Cons [where 'a = 32, of a "[]"]
  by (simp add: dotted_def del: of_le.simps(2))

lemma ntohl_dotted: "le_bytes 4 w = [a, b, c, d] \<Longrightarrow> ntohl w = dotted a b c d"
  by (simp add: ntohl_def htonl_def dotted_def del: of_le.simps)

lemma octet_ranges:
  fixes A B C D :: nat
  assumes "A < 256" "B < 256" "C < 256" "D < 256"
  defines "n \<equiv> D + 256 * (C + 256 * (B + 256 * A))"
  shows "167772160 \<le> n \<and> n \<le> 184549375 \<longleftrightarrow> A = 10"
    "2886729728 \<le> n \<and> n \<le> 2887778303 \<longleftrightarrow> A = 172 \<and> 16 \<le> B \<and> B \<le> 31"
    "3232235520 \<le> n \<and> n \<le> 3232301055 \<longleftrightarrow> A = 192 \<and> B = 168"
    "n = 2130706433 \<longleftrightarrow> A = 127 \<and> B = 0 \<and> C = 0 \<and> D = 1"
proof -
  have n: "n = D + 256 * C + 65536 * B + 16777216 * A" by (simp add: n_def)
  note bounds = assms(1-4)
  show "167772160 \<le> n \<and> n \<le> 184549375 \<longleftrightarrow> A = 10"
    unfolding n using bounds by linarith
  show "2886729728 \<le> n \<and> n \<le> 2887778303 \<longleftrightarrow> A = 172 \<and> 16 \<le> B \<and> B \<le> 31"
  proof (intro iffI; elim conjE)
    assume r: "2886729728 \<le> n" "n \<le> 2887778303"
    with bounds have "A = 172" unfolding n by linarith
    with r bounds show "A = 172 \<and> 16 \<le> B \<and> B \<le> 31" unfolding n by (intro conjI; linarith)
  qed (use bounds in \<open>simp_all add: n\<close>)
  show "3232235520 \<le> n \<and> n \<le> 3232301055 \<longleftrightarrow> A = 192 \<and> B = 168"
  proof (intro iffI; elim conjE)
    assume r: "3232235520 \<le> n" "n \<le> 3232301055"
    with bounds have "A = 192" unfolding n by linarith
    with r bounds show "A = 192 \<and> B = 168" unfolding n by (intro conjI; linarith)
  qed (use bounds in \<open>simp_all add: n\<close>)
  show "n = 2130706433 \<longleftrightarrow> A = 127 \<and> B = 0 \<and> C = 0 \<and> D = 1"
  proof (intro iffI)
    assume r: "n = 2130706433"
    with bounds have A: "A = 127" unfolding n by linarith
    with r bounds have B: "B = 0" unfolding n by linarith
    with r A bounds have C: "C = 0" unfolding n by linarith
    with r A B show "A = 127 \<and> B = 0 \<and> C = 0 \<and> D = 1" unfolding n by simp
  qed (simp add: n)
qed

lemma octet_bounds: "unat (a :: 8 word) < 256"
  using unsigned_less [of a] by simp

lemma octet_nat:
  "a = 10 \<longleftrightarrow> unat a = 10" "a = 172 \<longleftrightarrow> unat a = 172" "a = 192 \<longleftrightarrow> unat a = 192"
  "a = 168 \<longleftrightarrow> unat a = 168" "a = 127 \<longleftrightarrow> unat a = 127" "a = 0 \<longleftrightarrow> unat a = 0"
  "a = 1 \<longleftrightarrow> unat a = 1" "16 \<le> a \<longleftrightarrow> 16 \<le> unat a" "a \<le> 31 \<longleftrightarrow> unat a \<le> 31" for a :: "8 word"
  by (simp_all add: word_unat_eq_iff word_le_nat_alt)

lemma word32_nat:
  "167772160 \<le> w \<longleftrightarrow> 167772160 \<le> unat w" "w \<le> 184549375 \<longleftrightarrow> unat w \<le> 184549375"
  "2886729728 \<le> w \<longleftrightarrow> 2886729728 \<le> unat w" "w \<le> 2887778303 \<longleftrightarrow> unat w \<le> 2887778303"
  "3232235520 \<le> w \<longleftrightarrow> 3232235520 \<le> unat w" "w \<le> 3232301055 \<longleftrightarrow> unat w \<le> 3232301055"
  "w = 2130706433 \<longleftrightarrow> unat w = 2130706433" for w :: "32 word"
  by (simp_all add: word_unat_eq_iff word_le_nat_alt)

lemma intranet4_octets:
  "intranet4 (dotted a b c d) \<longleftrightarrow>
     a = 10 \<or> (a = 172 \<and> 16 \<le> b \<and> b \<le> 31) \<or> (a = 192 \<and> b = 168) \<or>
     (a = 127 \<and> b = 0 \<and> c = 0 \<and> d = 1)"
  unfolding intranet4_def word32_nat unat_dotted octet_nat
  using octet_ranges [OF octet_bounds [of a] octet_bounds [of b] octet_bounds [of c] octet_bounds [of d]]
  by simp

lemma ntohl_0 [simp]: "ntohl 0 = 0"
  by (simp add: ntohl_def htonl_def le_bytes_def eval_nat_numeral)

lemma mapped_word [simp]: "htonl 65535 \<noteq> 0"
  using ntohl_htonl [of 65535] ntohl_0 by force

text \<open>
  The intranet test on octets: an IPv4 address \<open>a.b.c.d\<close> is an intranet address exactly when
  it is in 10/8, 172.16/12 or 192.168/16 or is 127.0.0.1, and the IPv6 form
  \<open>::ffff:a.b.c.d\<close> of the same address gives the same answer, to \<open>isLoopbackIp\<close> too.
\<close>

theorem intranet_octets:
  assumes "sa_family (ia_addr i) = AF_INET" "\<not> ia_isIpV6 i"
    and "toIpNetEndian i = [a, b, c, d]"
    and "sa_family (ia_addr j) = AF_INET6" "ia_isIpV6 j"
    and "sa_addr6 (ia_addr j) = (0, 0, htonl 0xFFFF, sa_addr4 (ia_addr i))"
  shows "isIntranetIp i = (a = 10 \<or> (a = 172 \<and> 16 \<le> b \<and> b \<le> 31) \<or> (a = 192 \<and> b = 168) \<or>
       (a = 127 \<and> b = 0 \<and> c = 0 \<and> d = 1)) \<and>
    isIntranetIp j = isIntranetIp i \<and> isLoopbackIp j = isLoopbackIp i"
proof -
  have oct: "ntohl (sa_addr4 (ia_addr i)) = dotted a b c d"
    using assms(1,3) by (intro ntohl_dotted) (simp add: toIpNetEndian_def)
  then have i: "isIntranetIp i = intranet4 (dotted a b c d)"
    "isLoopbackIp i = (dotted a b c d = 0x7F000001)"
    using assms(1,2) by (simp_all add: isIntranetIp_def isLoopbackIp_def isIpV6_def)
  have "isIntranetIp j = intranet4 (dotted a b c d)" "isLoopbackIp j = (dotted a b c d = 0x7F000001)"
    using assms(4-6) oct
    by (simp_all add: isIntranetIp_def isLoopbackIp_def isIpV6_def ip6NetEndian_def AF_INET_def AF_INET6_def)
  with i intranet4_octets show ?thesis by simp
qed

text \<open>
  An address made from the storage that \<open>getsockname\<close> fills, as the server and the connection
  do: for an IPv4 socket it counts as an IPv6 address, so that its loopback test reads the zero
  bytes after the address and is false, for 127.0.0.1 as well, while its text, port and intranet
  test are those of the IPv4 address; \<open>setSockAddrInet6\<close>, which \<open>accept\<close> uses, gets it right.
\<close>

theorem local_address_family:
  assumes "sa_family a = AF_INET" "sa_addr6 a = (0, 0, 0, 0)" "sa_addr4 a = htonl kInaddrLoopback"
  shows "isIpV6 (InetAddress_in6 a) \<and> \<not> isLoopbackIp (InetAddress_in6 a) \<and>
    isIntranetIp (InetAddress_in6 a) \<and>
    toIp ntop4 ntop6 (InetAddress_in6 a) = Inr (ntop4 (htonl kInaddrLoopback)) \<and>
    \<not> isIpV6 (setSockAddrInet6 a i) \<and> isLoopbackIp (setSockAddrInet6 a i)"
  using assms
  by (simp add: InetAddress_in6_def isIpV6_def isLoopbackIp_def ip6NetEndian_def isIntranetIp_def
      intranet4_def toIp_def setSockAddrInet6_def AF_INET_def AF_INET6_def kInaddrLoopback_def)

definition sample_memory :: sockaddr where
  "sample_memory = \<lparr>sa_family = 7, sa_port = 7, sa_addr4 = 7, sa_addr6 = (7, 7, 7, 7), sa_scope = 7\<rparr>"

definition sample_v4 :: InetAddress where
  "sample_v4 = InetAddress_port sample_memory 80 True False"

definition sample_v6 :: InetAddress where
  "sample_v6 = InetAddress_in6 ((zero6 sample_memory)\<lparr>sa_family := AF_INET6,
     sa_addr6 := (0, 0, htonl 0xFFFF, htonl kInaddrLoopback)\<rparr>)"

lemma loopback_bytes: "le_bytes 4 (htonl kInaddrLoopback) = [127, 0, 0, 1]"
  unfolding htonl_bytes kInaddrLoopback_def by code_simp

theorem intranet_octets_witness:
  "isIntranetIp sample_v4 \<and> isIntranetIp sample_v6 \<and> isLoopbackIp sample_v6 = isLoopbackIp sample_v4"
proof -
  have "toIpNetEndian sample_v4 = [127, 0, 0, 1]"
    by (simp add: toIpNetEndian_def sample_v4_def InetAddress_port_def loopback_bytes)
  from intranet_octets [OF _ _ this, of sample_v6] show ?thesis
    by (simp add: sample_v4_def sample_v6_def InetAddress_port_def InetAddress_in6_def)
qed

theorem local_address_family_witness:
  "isIpV6 (InetAddress_in6 (ia_addr (InetAddress_port (zero6 sample_memory) 80 True False))) \<and>
   \<not> isLoopbackIp (InetAddress_in6 (ia_addr (InetAddress_port (zero6 sample_memory) 80 True False)))"
  using local_address_family [of "ia_addr (InetAddress_port (zero6 sample_memory) 80 True False)"]
  by (simp add: InetAddress_port_def zero6_def zero4_def)

end
