(* ===== verification/Utilities.thy ===== *)
theory Utilities
  imports Prelude "HOL-Library.Sublist"
begin

text \<open>
  src/xiaoNet/utils/Utilities.cpp: the conversions between UTF-8 and wide strings, for the language
  versions that use the code's own (C++17 and later), and the comparison of a certificate's name
  with a host name. On Linux \<open>wchar_t\<close> is a signed 32-bit integer. The other functions the header
  declares have no body in the repository.
\<close>

section \<open>UTF-8\<close>

type_synonym wchar = "32 word"

text \<open>The loop over the string; \<open>out\<close> is \<open>utf16Str\<close>. Any invalid sequence gives the empty string.\<close>

fun utf8_loop :: "byte list \<Rightarrow> wchar list \<Rightarrow> wchar list" where
  "utf8_loop [] out = out"
| "utf8_loop (c # cs) out =
     (if c AND 0x80 = 0 then utf8_loop cs (out @ [ucast c])
      else if c AND 0xE0 = 0xC0 then
        (case cs of
           c1 # cs \<Rightarrow> utf8_loop cs (out @ [push_bit 6 (ucast (c AND 0x1F)) OR ucast (c1 AND 0x3F)])
         | [] \<Rightarrow> [])
      else if c AND 0xF0 = 0xE0 then
        (case cs of
           c1 # c2 # cs \<Rightarrow>
             utf8_loop cs (out @ [push_bit 12 (ucast (c AND 0x0F)) OR push_bit 6 (ucast (c1 AND 0x3F)) OR
                                  ucast (c2 AND 0x3F)])
         | _ \<Rightarrow> [])
      else [])"

definition utf8Toutf16 :: "byte list \<Rightarrow> wchar list" where
  "utf8Toutf16 s = utf8_loop s []"

definition utf16_char :: "wchar \<Rightarrow> byte list" where
  "utf16_char u =
     (if sint u \<le> 0x7F then [ucast u]
      else if sint u \<le> 0x7FF then
        [ucast (0xC0 OR (drop_bit 6 u AND 0x1F)), ucast (0x80 OR (u AND 0x3F))]
      else
        [ucast (0xE0 OR (drop_bit 12 u AND 0x0F)), ucast (0x80 OR (drop_bit 6 u AND 0x3F)),
         ucast (0x80 OR (u AND 0x3F))])"

fun utf16Toutf8 :: "wchar list \<Rightarrow> byte list" where
  "utf16Toutf8 [] = []"
| "utf16Toutf8 (u # us) = utf16_char u @ utf16Toutf8 us"

definition toUtf8 :: "wchar list \<Rightarrow> byte list" where
  "toUtf8 wstr = (if wstr = [] then [] else utf16Toutf8 wstr)"

definition fromUtf8 :: "byte list \<Rightarrow> wchar list" where
  "fromUtf8 str = (if str = [] then [] else utf8Toutf16 str)"

definition toWidePath :: "byte list \<Rightarrow> wchar list" where
  "toWidePath p = fromUtf8 p"

definition fromWidePath :: "wchar list \<Rightarrow> byte list" where
  "fromWidePath p = toUtf8 p"

text \<open>Off Windows a native path is the UTF-8 path; the overloads take a narrow or a wide string.\<close>

definition toNativePath :: "byte list \<Rightarrow> byte list" where
  "toNativePath p = p"

definition toNativePath_wide :: "wchar list \<Rightarrow> byte list" where
  "toNativePath_wide p = fromWidePath p"

definition fromNativePath :: "byte list \<Rightarrow> byte list" where
  "fromNativePath p = p"

definition fromNativePath_wide :: "wchar list \<Rightarrow> byte list" where
  "fromNativePath_wide p = fromWidePath p"

lemma bits_8: "(\<forall>n < LENGTH(8). P n) \<longleftrightarrow>
     P 0 \<and> P 1 \<and> P 2 \<and> P 3 \<and> P 4 \<and> P 5 \<and> P 6 \<and> P 7"
  by (simp add: All_less_Suc numeral_eq_Suc conj_ac)

lemma bits_32: "(\<forall>n < LENGTH(32). P n) \<longleftrightarrow>
     P 0 \<and> P 1 \<and> P 2 \<and> P 3 \<and> P 4 \<and> P 5 \<and> P 6 \<and> P 7 \<and> P 8 \<and> P 9 \<and>
     P 10 \<and> P 11 \<and> P 12 \<and> P 13 \<and> P 14 \<and> P 15 \<and> P 16 \<and> P 17 \<and> P 18 \<and> P 19 \<and>
     P 20 \<and> P 21 \<and> P 22 \<and> P 23 \<and> P 24 \<and> P 25 \<and> P 26 \<and> P 27 \<and> P 28 \<and> P 29 \<and>
     P 30 \<and> P 31"
  by (simp add: All_less_Suc numeral_eq_Suc conj_ac)

lemma eq_by_bits:
  fixes v w :: "'a::len word"
  assumes "\<forall>n < LENGTH('a). bit v n \<longleftrightarrow> bit w n"
  shows "v = w"
  using assms by (auto intro: bit_word_eqI)

lemma lead_bytes:
  "(ucast (0xC0 OR (drop_bit 6 u AND 0x1F)) :: byte) AND 0x80 \<noteq> 0"
  "(ucast (0xC0 OR (drop_bit 6 u AND 0x1F)) :: byte) AND 0xE0 = 0xC0"
  "(ucast (0xE0 OR (drop_bit 12 u AND 0x0F)) :: byte) AND 0x80 \<noteq> 0"
  "(ucast (0xE0 OR (drop_bit 12 u AND 0x0F)) :: byte) AND 0xE0 \<noteq> 0xC0"
  "(ucast (0xE0 OR (drop_bit 12 u AND 0x0F)) :: byte) AND 0xF0 = 0xE0" for u :: wchar
proof -
  let ?c = "ucast (0xC0 OR (drop_bit 6 u AND 0x1F)) :: byte"
  let ?e = "ucast (0xE0 OR (drop_bit 12 u AND 0x0F)) :: byte"
  have "bit (?c AND 0x80) 7" "bit (?e AND 0x80) 7" "bit (?e AND 0xE0) 5" "\<not> bit (0xC0 :: byte) 5"
    by (simp_all add: bit_simps)
  then show "?c AND 0x80 \<noteq> 0" "?e AND 0x80 \<noteq> 0" "?e AND 0xE0 \<noteq> 0xC0" by auto
  show "?c AND 0xE0 = 0xC0" by (rule eq_by_bits) (simp only: bits_8, simp add: bit_simps)
  show "?e AND 0xF0 = 0xE0" by (rule eq_by_bits) (simp only: bits_8, simp add: bit_simps)
qed

lemma decode_2:
  "push_bit 6 (ucast ((ucast (0xC0 OR (drop_bit 6 u AND 0x1F)) :: byte) AND 0x1F)) OR
   ucast ((ucast (0x80 OR (u AND 0x3F)) :: byte) AND 0x3F) = take_bit 11 u" for u :: wchar
  by (rule eq_by_bits) (simp only: bits_32, simp add: bit_simps)

lemma decode_3:
  "push_bit 12 (ucast ((ucast (0xE0 OR (drop_bit 12 u AND 0x0F)) :: byte) AND 0x0F)) OR
   push_bit 6 (ucast ((ucast (0x80 OR (drop_bit 6 u AND 0x3F)) :: byte) AND 0x3F)) OR
   ucast ((ucast (0x80 OR (u AND 0x3F)) :: byte) AND 0x3F) = take_bit 16 u" for u :: wchar
  by (rule eq_by_bits) (simp only: bits_32, simp add: bit_simps)

lemma small_char:
  assumes "0 \<le> sint u" "sint u < 2 ^ k" "k \<le> 31"
  shows "take_bit k u = (u :: wchar)"
proof -
  have "(2 :: int) ^ k \<le> 2 ^ 31" using assms(3) by (intro power_increasing) auto
  then have "sint u < 2 ^ 32" using assms(2) by simp
  then have "sint u = uint u" using assms(1) take_bit_int_eq_self [of "sint u" 32] by (simp add: uint_sint)
  then have "take_bit k (uint u) = uint u" using assms(2) by (simp add: take_bit_int_eq_self_iff)
  then show ?thesis by (simp add: word_uint_eq_iff unsigned_take_bit_eq)
qed

lemma ascii_byte:
  "u = take_bit 7 u \<Longrightarrow> (ucast u :: byte) AND 0x80 = 0" "ucast (ucast u :: byte) = take_bit 8 u" for u :: wchar
proof -
  assume "u = take_bit 7 u"
  then have "\<not> bit u 7" by (metis bit_take_bit_iff less_irrefl)
  then show "(ucast u :: byte) AND 0x80 = 0" by (intro eq_by_bits) (simp only: bits_8, simp add: bit_simps)
qed (rule eq_by_bits, simp only: bits_32, simp add: bit_simps)

lemma utf8_loop_char:
  assumes "0 \<le> sint u"
  shows "utf8_loop (utf16_char u @ cs) out = utf8_loop cs (out @ [take_bit 16 u])"
proof -
  have char: "take_bit 16 (take_bit k u) = take_bit k u" if "k \<le> 16" for k using that by simp
  consider "sint u < 2 ^ 7" | "\<not> sint u < 2 ^ 7" "sint u < 2 ^ 11" | "\<not> sint u < 2 ^ 11" by linarith
  then show ?thesis
  proof cases
    case 1
    then have u: "take_bit 7 u = u" using small_char [OF assms, of 7] by simp
    have "take_bit 8 (take_bit 7 u) = take_bit 16 (take_bit 7 u)" by simp
    then have "take_bit 8 u = take_bit 16 u" unfolding u .
    with 1 ascii_byte [of u] u show ?thesis by (simp add: utf16_char_def)
  next
    case 2
    then have "take_bit 11 u = u" using small_char [OF assms, of 11] by simp
    then have "take_bit 16 u = take_bit 11 u" using char [of 11] by simp
    with 2 lead_bytes [of u] decode_2 [of u] show ?thesis by (simp add: utf16_char_def)
  next
    case 3
    with lead_bytes [of u] decode_3 [of u] show ?thesis by (simp add: utf16_char_def)
  qed
qed

text \<open>
  C28. Wide characters and UTF-8: from any string of non-negative wide characters, the conversion to
  UTF-8 and back keeps the low sixteen bits of each. So it is the identity on strings of
  characters below \<open>0x10000\<close>, and on no other: the characters of the planes above, which Linux
  has in its wide strings, come back as others.
\<close>

theorem utf8_round_trip:
  assumes "\<forall>u\<in>set us. 0 \<le> sint u"
  shows "fromUtf8 (toUtf8 us) = map (take_bit 16) us \<and>
    (fromUtf8 (toUtf8 us) = us \<longleftrightarrow> (\<forall>u\<in>set us. uint u < 0x10000))"
proof -
  have loop: "utf8_loop (utf16Toutf8 us) out = out @ map (take_bit 16) us" for out
    using assms by (induction us arbitrary: out) (auto simp: utf8_loop_char)
  have empty: "utf16Toutf8 us = [] \<longleftrightarrow> us = []" by (cases us) (auto simp: utf16_char_def)
  have main: "fromUtf8 (toUtf8 us) = map (take_bit 16) us"
    using loop [of "[]"] empty by (auto simp: fromUtf8_def toUtf8_def utf8Toutf16_def)
  have "take_bit 16 u = u \<longleftrightarrow> uint u < 0x10000" for u :: wchar
    by (simp add: word_uint_eq_iff unsigned_take_bit_eq take_bit_int_eq_self_iff)
  moreover have "map (take_bit 16) us = us \<longleftrightarrow> (\<forall>u\<in>set us. take_bit 16 u = u)" by (induction us) auto
  ultimately show ?thesis unfolding main by simp
qed

theorem utf8_round_trip_witness:
  "fromUtf8 (toUtf8 [0x41, 0xE9, 0x20AC, 0x1F600]) = [0x41, 0xE9, 0x20AC, 0xF600]"
  using utf8_round_trip [of "[0x41, 0xE9, 0x20AC, 0x1F600]"] by simp

end
