(* ===== verification/SslName.thy ===== *)
theory SslName
  imports Main "HOL-Library.Sublist"
begin

text \<open>
  \<open>verifySslName\<close> of src/xiaoNet/utils/Utilities.cpp: does a certificate's name, which may hold
  a wildcard, cover a host name? The code's loops on indices, and what they decide in terms of
  the first label of a name and the rest.
\<close>

section \<open>The code\<close>

text \<open>The position of the first dot, the length of the string when there is none; and the position
  after it, again the length when there is none.\<close>

definition first_dot :: "string \<Rightarrow> nat" where
  "first_dot s = length (takeWhile (\<lambda>c. c \<noteq> CHR ''.'') s)"

definition after_dot :: "string \<Rightarrow> nat" where
  "after_dot s = (if CHR ''.'' \<in> set s then first_dot s + 1 else length s)"

text \<open>\<open>compare(pos, len, other, pos', len') == 0\<close>.\<close>

definition same_part :: "string \<Rightarrow> nat \<Rightarrow> nat \<Rightarrow> string \<Rightarrow> nat \<Rightarrow> nat \<Rightarrow> bool" where
  "same_part s pos len t pos' len' \<longleftrightarrow> take len (drop pos s) = take len' (drop pos' t)"

text \<open>
  The three loops. The indices that run down are kept one higher where they may reach -1.
\<close>

fun end_loop :: "string \<Rightarrow> string \<Rightarrow> nat \<Rightarrow> nat \<Rightarrow> bool" where
  "end_loop certName hostname 0 certIdx = (certIdx = 0)"
| "end_loop certName hostname (Suc hostIdx) certIdx =
     (if certIdx \<noteq> 0
      then (if hostname ! hostIdx \<noteq> certName ! certIdx then False
            else end_loop certName hostname hostIdx (certIdx - 1))
      else True)"

function label_loop :: "string \<Rightarrow> string \<Rightarrow> nat \<Rightarrow> nat \<Rightarrow> nat \<Rightarrow> bool" where
  "label_loop certName hostname hostFirstDot firstDot i =
     (if i < hostFirstDot \<and> i < firstDot \<and> certName ! i \<noteq> CHR ''*''
      then (if hostname ! i \<noteq> certName ! i then False
            else label_loop certName hostname hostFirstDot firstDot (Suc i))
      else True)"
  by pat_completeness auto
termination by (relation "measure (\<lambda>(c, h, hd, fd, i). fd - i)") auto

declare label_loop.simps [simp del]

fun back_loop :: "string \<Rightarrow> string \<Rightarrow> nat \<Rightarrow> nat \<Rightarrow> bool" where
  "back_loop certName hostname (Suc hostIdx) (Suc certIdx) =
     (if certName ! certIdx \<noteq> CHR ''*''
      then (if hostname ! hostIdx \<noteq> certName ! certIdx then False
            else back_loop certName hostname hostIdx certIdx)
      else True)"
| "back_loop certName hostname hostIdx certIdx = True"

definition verifySslName :: "string \<Rightarrow> string \<Rightarrow> bool" where
  "verifySslName certName hostname =
     (if CHR ''*'' \<notin> set certName then certName = hostname
      else
        (let firstDot = first_dot certName; hostFirstDot = first_dot hostname;
             pos = after_dot certName; len = length certName - pos;
             hostPos = after_dot hostname; hostLen = length hostname - hostPos
         in
         if take firstDot certName = ''*'' then same_part certName pos len hostname hostPos hostLen
         else if certName ! 0 = CHR ''*''
         then end_loop certName hostname (length hostname) (length certName - 1)
         else if firstDot \<noteq> 0 \<and> certName ! (firstDot - 1) = CHR ''*'' then
           (if \<not> same_part certName pos len hostname hostPos hostLen then False
            else label_loop certName hostname hostFirstDot firstDot 0)
         else
           (if \<not> same_part certName pos len hostname hostPos hostLen then False
            else if \<not> label_loop certName hostname hostFirstDot firstDot 0 then False
            else back_loop certName hostname hostFirstDot firstDot)))"

section \<open>What it decides\<close>

definition label :: "string \<Rightarrow> string" where
  "label s = takeWhile (\<lambda>c. c \<noteq> CHR ''.'') s"

definition domain :: "string \<Rightarrow> string" where
  "domain s = drop (Suc (length (label s))) s"

definition agree :: "string \<Rightarrow> string \<Rightarrow> bool" where
  "agree s t \<longleftrightarrow> prefix s t \<or> prefix t s"

abbreviation before_star :: "string \<Rightarrow> string" where
  "before_star s \<equiv> takeWhile (\<lambda>c. c \<noteq> CHR ''*'') s"

lemma first_dot_label: "first_dot s = length (label s)" "take (length (label s)) s = label s"
  by (simp_all add: first_dot_def label_def takeWhile_eq_take [symmetric])

lemma label_no_dot: "CHR ''.'' \<notin> set s \<Longrightarrow> label s = s"
  by (induction s) (auto simp: label_def)

lemma after_dot_domain: "take (length s - after_dot s) (drop (after_dot s) s) = domain s"
  by (simp add: after_dot_def domain_def first_dot_label label_no_dot)

lemma same_part_domain:
  "same_part s (after_dot s) (length s - after_dot s) t (after_dot t) (length t - after_dot t) \<longleftrightarrow>
   domain s = domain t"
  by (simp only: same_part_def after_dot_domain)

lemma end_loop_suffix:
  "h \<le> length host \<Longrightarrow> c < length cert \<Longrightarrow>
   end_loop cert host h c \<longleftrightarrow> suffix (take c (tl cert)) (take h host)"
proof (induction cert host h c rule: end_loop.induct)
  case (1 cert host c)
  then show ?case by (cases cert) auto
next
  case (2 cert host h c)
  show ?case
  proof (cases c)
    case (Suc d)
    then have "take c (tl cert) = take d (tl cert) @ [cert ! c]"
      using 2 by (cases cert) (auto simp: take_Suc_conv_app_nth)
    moreover have "take (Suc h) host = take h host @ [host ! h]"
      using 2 by (simp add: take_Suc_conv_app_nth)
    ultimately show ?thesis using 2 Suc by auto
  qed simp
qed

lemma label_loop_agree:
  assumes "hn \<le> length host" "fn \<le> length cert"
  shows "i \<le> hn \<Longrightarrow> i \<le> fn \<Longrightarrow>
    label_loop cert host hn fn i \<longleftrightarrow>
    agree (before_star (drop i (take fn cert))) (drop i (take hn host))"
proof (induction "fn - i" arbitrary: i)
  case 0
  then show ?case by (simp add: label_loop.simps agree_def)
next
  case (Suc n)
  show ?case
  proof (cases "i < hn \<and> cert ! i \<noteq> CHR ''*''")
    case True
    then have "drop i (take fn cert) = cert ! i # drop (Suc i) (take fn cert)"
      "drop i (take hn host) = host ! i # drop (Suc i) (take hn host)"
      using Suc assms by (simp_all add: Cons_nth_drop_Suc [symmetric])
    with Suc True assms show ?thesis
      by (subst label_loop.simps) (auto simp: agree_def)
  next
    case False
    then have "drop i (take hn host) = [] \<or> before_star (drop i (take fn cert)) = []"
      using Suc assms by (auto simp: Cons_nth_drop_Suc [symmetric])
    with Suc False show ?thesis by (subst label_loop.simps) (auto simp: agree_def)
  qed
qed

lemma back_loop_agree:
  "h \<le> length host \<Longrightarrow> c \<le> length cert \<Longrightarrow>
   back_loop cert host h c \<longleftrightarrow> agree (before_star (rev (take c cert))) (rev (take h host))"
  by (induction cert host h c rule: back_loop.induct)
     (auto simp: agree_def take_Suc_conv_app_nth)

lemma verifySslName_cases:
  "verifySslName cert host =
     (if CHR ''*'' \<notin> set cert then cert = host
      else if label cert = ''*'' then domain cert = domain host
      else if cert ! 0 = CHR ''*'' then suffix (tl cert) host
      else domain cert = domain host \<and> agree (before_star (label cert)) (label host) \<and>
           agree (before_star (rev (label cert))) (rev (label host)))"
proof (cases "CHR ''*'' \<in> set cert")
  case True
  have dots: "first_dot cert \<le> length cert" "first_dot host \<le> length host"
    by (simp_all add: first_dot_def length_takeWhile_le)
  have front: "label_loop cert host (first_dot host) (first_dot cert) 0 =
      agree (before_star (label cert)) (label host)"
    using label_loop_agree [OF dots(2,1), of 0] by (simp add: first_dot_label)
  have rear: "back_loop cert host (first_dot host) (first_dot cert) =
      agree (before_star (rev (label cert))) (rev (label host))"
    using back_loop_agree [OF dots(2,1)] by (simp add: first_dot_label)
  have ending: "end_loop cert host (length host) (length cert - 1) = suffix (tl cert) host"
    using end_loop_suffix [of "length host" host "length cert - 1" cert] True by (cases cert) auto
  have star: "agree (before_star (rev (label cert))) (rev (label host))"
    if "first_dot cert \<noteq> 0" "cert ! (first_dot cert - 1) = CHR ''*''"
  proof -
    have "label cert \<noteq> []" using that(1) by (auto simp: first_dot_label)
    moreover from this have "last (label cert) = CHR ''*''"
      using that(2) first_dot_label(2) [of cert]
      by (metis diff_less first_dot_label(1) last_conv_nth length_greater_0_conv nth_take zero_less_one)
    ultimately have "before_star (rev (label cert)) = []"
      by (cases "label cert" rule: rev_cases) auto
    then show ?thesis by (simp add: agree_def)
  qed
  show ?thesis
    unfolding verifySslName_def Let_def same_part_domain front rear ending
    using True star by (auto simp: first_dot_label)
qed (simp add: verifySslName_def)

text \<open>
  C27. What \<open>verifySslName\<close> decides: without a wildcard, equality; with \<open>*\<close> as the whole first label,
  equality of the rest; with \<open>*\<close> in front of other characters, that the host name ends in them;
  otherwise the rests are equal and the parts of the first label before the first and after the
  last \<open>*\<close> agree with the host's label from the front and from the back, as far as the shorter of
  the two goes.
\<close>

theorem verifySslName_spec:
  "verifySslName cert host =
     (if CHR ''*'' \<notin> set cert then cert = host
      else if label cert = ''*'' then domain cert = domain host
      else if cert ! 0 = CHR ''*'' then suffix (tl cert) host
      else domain cert = domain host \<and> agree (before_star (label cert)) (label host) \<and>
           agree (before_star (rev (label cert))) (rev (label host)))"
  by (rule verifySslName_cases)

text \<open>
  The comparison accepts host names the certificate does not cover: when the \<open>*\<close> ends the first
  label, a host whose label stops short of the characters before the \<open>*\<close> is accepted.
\<close>

theorem wildcard_too_wide:
  assumes "p \<noteq> []" "CHR ''*'' \<notin> set (p @ q)" "CHR ''.'' \<notin> set (p @ q)"
  shows "verifySslName (p @ q @ ''*.'' @ d) (p @ ''.'' @ d)"
proof -
  have "label (p @ q @ ''*.'' @ d) = p @ q @ ''*''" "label (p @ ''.'' @ d) = p"
    using assms(3) by (auto simp: label_def takeWhile_append)
  moreover from this have "domain (p @ q @ ''*.'' @ d) = domain (p @ ''.'' @ d)"
    by (simp add: domain_def)
  moreover have "before_star (p @ q @ ''*'') = p @ q"
    using assms(2) by (auto simp: takeWhile_append)
  moreover have "(p @ q @ ''*.'' @ d) ! 0 \<noteq> CHR ''*''" "p @ q @ ''*'' \<noteq> ''*''"
    using assms(1,2) by (cases p; auto)+
  ultimately show ?thesis using assms(1) by (simp add: verifySslName_cases agree_def)
qed

theorem wildcard_too_wide_witness:
  "verifySslName ''admin*.example.com'' ''a.example.com''"
  using wildcard_too_wide [of "''a''" "''dmin''" "''example.com''"] by simp

end
