(* ===== verification/Connector.thy ===== *)
theory Connector
  imports Channel
begin

text \<open>
  The connector of src/xiaoNet/net/inner/Connector.h and Connector.cpp: it opens a socket, waits for
  it to become writable, hands it to its owner or tries again later. The results of the system
  calls are arguments of the operations; what the connector does to the world is a log. The
  user's callbacks are effects of the log.
\<close>

section \<open>State\<close>

datatype ConnectorStatus = CnDisconnected | CnConnecting | CnConnected

text \<open>A socket opened, given options, closed, handed over; the error callback; a channel updated
  or removed; the retry timer set, in milliseconds.\<close>

datatype cn_effect =
  CnOpen int | CnSockOpt int | CnClose int | CnNewConnection int | CnError
| CnUpdate int | CnRemove int | CnRunAfter int

record connector =
  cn_status :: ConnectorStatus
  cn_connect :: bool
  cn_retryInterval :: int
  cn_maxRetryInterval :: int
  cn_retry :: bool
  cn_socketHanded :: bool
  cn_fd :: int
  cn_channel :: "Channel option"
  cn_errorCb :: bool
  cn_sockOptCb :: bool
  cn_timers :: nat
  cn_removals :: nat
  cn_log :: "cn_effect list"

definition kMaxRetryDelayMs :: int where "kMaxRetryDelayMs = 30 * 1000"
definition kInitRetryDelayMs :: int where "kInitRetryDelayMs = 500"

definition Connector_new :: "bool \<Rightarrow> connector" where
  "Connector_new retry =
     \<lparr>cn_status = CnDisconnected, cn_connect = False, cn_retryInterval = kInitRetryDelayMs,
      cn_maxRetryInterval = kMaxRetryDelayMs, cn_retry = retry, cn_socketHanded = False, cn_fd = -1,
      cn_channel = None, cn_errorCb = False, cn_sockOptCb = False, cn_timers = 0, cn_removals = 0,
      cn_log = []\<rparr>"

definition cn_effect :: "cn_effect \<Rightarrow> connector \<Rightarrow> connector" where
  "cn_effect e c = c\<lparr>cn_log := cn_log c @ [e]\<rparr>"

definition setErrorCb :: "connector \<Rightarrow> connector" where
  "setErrorCb c = c\<lparr>cn_errorCb := True\<rparr>"

definition setSockOptCb :: "connector \<Rightarrow> connector" where
  "setSockOptCb c = c\<lparr>cn_sockOptCb := True\<rparr>"

definition errorCallback :: "connector \<Rightarrow> connector" where
  "errorCallback c = (if cn_errorCb c then cn_effect CnError c else c)"

section \<open>Operations\<close>

definition removeAndResetChannel :: "connector \<Rightarrow> int \<times> connector" where
  "removeAndResetChannel c =
     (case cn_channel c of
        None \<Rightarrow> (-1, c)
      | Some ch \<Rightarrow> (ch_fd ch, cn_effect (CnRemove (ch_fd ch)) (c\<lparr>cn_channel := None\<rparr>)))"

definition connecting :: "int \<Rightarrow> connector \<Rightarrow> connector res" where
  "connecting sockfd c =
     (let c = c\<lparr>cn_status := CnConnecting\<rparr> in
      assert_then (cn_channel c = None)
        (Inr (cn_effect (CnUpdate sockfd)
                (c\<lparr>cn_channel := Some (enableWriting (setCloseCallback (setErrorCallback
                     (setWriteCallback (Channel_new sockfd)))))\<rparr>))))"

definition retry :: "int \<Rightarrow> connector \<Rightarrow> connector res" where
  "retry sockfd c =
     assert_then (cn_retry c)
       (let c = (cn_effect (CnClose sockfd) c)\<lparr>cn_status := CnDisconnected\<rparr> in
        if cn_connect c then
          (let c = cn_effect (CnRunAfter (cn_retryInterval c)) (c\<lparr>cn_timers := Suc (cn_timers c)\<rparr>);
               c = c\<lparr>cn_retryInterval := cn_retryInterval c * 2\<rparr>
           in Inr (if cn_maxRetryInterval c < cn_retryInterval c
                   then c\<lparr>cn_retryInterval := cn_maxRetryInterval c\<rparr> else c))
        else Inr c)"

text \<open>The error numbers of Linux the code names.\<close>

definition goes_on :: "int set" where
  "goes_on = {0, 115, 4, 106}" \<comment> \<open>none, EINPROGRESS, EINTR, EISCONN\<close>

definition try_again :: "int set" where
  "try_again = {11, 98, 99, 111, 101}" \<comment> \<open>EAGAIN, EADDRINUSE, EADDRNOTAVAIL, ECONNREFUSED, ENETUNREACH\<close>

text \<open>\<open>connect()\<close>: \<open>fd\<close> is the new socket, \<open>err\<close> the error number of the system call, 0 for success.\<close>

definition Connector_connect :: "int \<Rightarrow> int \<Rightarrow> connector \<Rightarrow> connector res" where
  "Connector_connect fd err c =
     (let c = cn_effect (CnOpen fd) (c\<lparr>cn_socketHanded := False, cn_fd := fd\<rparr>);
          c = (if cn_sockOptCb c then cn_effect (CnSockOpt fd) c else c)
      in if err \<in> goes_on then connecting fd c
         else if err \<in> try_again then (if cn_retry c then retry fd c else Inr c)
         else Inr (errorCallback (cn_effect (CnClose fd) (c\<lparr>cn_socketHanded := True\<rparr>))))"

definition startInLoop :: "int \<Rightarrow> int \<Rightarrow> connector \<Rightarrow> connector res" where
  "startInLoop fd err c =
     assert_then (cn_status c = CnDisconnected)
       (if cn_connect c then Connector_connect fd err c else Inr c)"

definition Connector_start :: "int \<Rightarrow> int \<Rightarrow> connector \<Rightarrow> connector res" where
  "Connector_start fd err c = startInLoop fd err (c\<lparr>cn_connect := True\<rparr>)"

definition Connector_restart :: "connector \<Rightarrow> connector" where
  "Connector_restart c = c"

text \<open>\<open>stop\<close>; in another thread the removal of the channel is queued.\<close>

definition Connector_stop :: "bool \<Rightarrow> connector \<Rightarrow> connector" where
  "Connector_stop inLoop c =
     (let c = c\<lparr>cn_status := CnDisconnected\<rparr>
      in if inLoop then snd (removeAndResetChannel c) else c\<lparr>cn_removals := Suc (cn_removals c)\<rparr>)"

text \<open>\<open>soErr\<close> is \<open>Socket::getSocketError\<close>, \<open>selfConnect\<close> is \<open>Socket::isSelfConnect\<close>.\<close>

definition handleWrite :: "(int \<Rightarrow> int) \<Rightarrow> (int \<Rightarrow> bool) \<Rightarrow> connector \<Rightarrow> connector res" where
  "handleWrite soErr selfConnect c =
     (let c = c\<lparr>cn_socketHanded := True\<rparr> in
      if cn_status c = CnConnecting then
        (let (sockfd, c) = removeAndResetChannel c in
         if soErr sockfd \<noteq> 0 \<or> selfConnect sockfd then
           bind_res (if cn_retry c then retry sockfd c
                     else Inr (cn_effect (CnClose sockfd) (c\<lparr>cn_socketHanded := True\<rparr>)))
             (\<lambda>c. Inr (errorCallback c))
         else
           (let c = c\<lparr>cn_status := CnConnected\<rparr> in
            if cn_connect c then Inr (cn_effect (CnNewConnection sockfd) c)
            else Inr (cn_effect (CnClose sockfd) (c\<lparr>cn_socketHanded := True\<rparr>))))
      else assert_then (cn_status c = CnDisconnected) (Inr c))"

definition handleError :: "connector \<Rightarrow> connector res" where
  "handleError c =
     (let c = c\<lparr>cn_socketHanded := True\<rparr> in
      if cn_status c = CnConnecting then
        (let (sockfd, c) = removeAndResetChannel (c\<lparr>cn_status := CnDisconnected\<rparr>) in
         bind_res (if cn_retry c then retry sockfd c else Inr (cn_effect (CnClose sockfd) c))
           (\<lambda>c. Inr (errorCallback c)))
      else Inr c)"

text \<open>The destructor.\<close>

definition Connector_destroy :: "connector \<Rightarrow> connector" where
  "Connector_destroy c =
     (if \<not> cn_socketHanded c \<and> cn_fd c \<noteq> -1 then cn_effect (CnClose (cn_fd c)) c else c)"

section \<open>Events\<close>

text \<open>The callbacks the channel runs for the events of a poll, in the order of \<open>handleEvent\<close>.\<close>

fun run_cn_callbacks :: "(int \<Rightarrow> int) \<Rightarrow> (int \<Rightarrow> bool) \<Rightarrow> callback list \<Rightarrow> connector \<Rightarrow> connector res" where
  "run_cn_callbacks soErr selfConnect [] c = Inr c"
| "run_cn_callbacks soErr selfConnect (cb # cbs) c =
     bind_res (if cb = WriteCb then handleWrite soErr selfConnect c else handleError c)
       (run_cn_callbacks soErr selfConnect cbs)"

definition connector_event :: "(int \<Rightarrow> int) \<Rightarrow> (int \<Rightarrow> bool) \<Rightarrow> 32 word \<Rightarrow> connector \<Rightarrow> connector res" where
  "connector_event soErr selfConnect revents c =
     (case cn_channel c of
        None \<Rightarrow> Inr c
      | Some ch \<Rightarrow> run_cn_callbacks soErr selfConnect (handleEvent True (setRevents revents ch)) c)"

text \<open>
  A connector in its loop. A timer that was set fires later and runs \<open>startInLoop\<close>; a queued
  removal runs later.
\<close>

inductive cn_step :: "connector \<Rightarrow> connector \<Rightarrow> bool" where
  cn_start: "Connector_start fd err c = Inr c' \<Longrightarrow> cn_step c c'"
| cn_timer: "cn_timers c = Suc n \<Longrightarrow> startInLoop fd err (c\<lparr>cn_timers := n\<rparr>) = Inr c' \<Longrightarrow> cn_step c c'"
| cn_event: "connector_event soErr selfConnect revents c = Inr c' \<Longrightarrow> cn_step c c'"
| cn_stop: "cn_step c (Connector_stop inLoop c)"
| cn_removal: "cn_removals c = Suc n \<Longrightarrow>
    cn_step c (snd (removeAndResetChannel (c\<lparr>cn_removals := n\<rparr>)))"
| cn_error_cb: "cn_step c (setErrorCb c)"
| cn_sockopt_cb: "cn_step c (setSockOptCb c)"

inductive cn_reach :: "bool \<Rightarrow> connector \<Rightarrow> bool" where
  cn_reach_new: "cn_reach r (Connector_new r)"
| cn_reach_step: "cn_reach r c \<Longrightarrow> cn_step c c' \<Longrightarrow> cn_reach r c'"

end
