(* ===== verification/ConnectorProps.thy ===== *)
theory ConnectorProps
  imports Connector
begin

text \<open>
  Properties of the connector: the delays between its attempts, what one round of events does to
  the socket, and three ways in which stopping, failing and destroying it go wrong.
\<close>

section \<open>The delays\<close>

definition backoff :: "nat \<Rightarrow> int" where
  "backoff k = min (500 * 2 ^ k) 30000"

fun delays :: "cn_effect list \<Rightarrow> int list" where
  "delays [] = []"
| "delays (CnRunAfter t # es) = t # delays es"
| "delays (e # es) = delays es"

lemma delays_append [simp]: "delays (es @ fs) = delays es @ delays fs"
  by (induction es rule: delays.induct) auto

lemma backoff_Suc: "backoff (Suc k) = (if 30000 < backoff k * 2 then 30000 else backoff k * 2)"
  by (auto simp: backoff_def min_def)

definition backoff_ok :: "connector \<Rightarrow> bool" where
  "backoff_ok c \<longleftrightarrow> cn_maxRetryInterval c = 30000 \<and>
     cn_retryInterval c = backoff (length (delays (cn_log c))) \<and>
     delays (cn_log c) = map backoff [0..<length (delays (cn_log c))]"

definition connect_channel :: "int \<Rightarrow> Channel" where
  "connect_channel fd =
     enableWriting (setCloseCallback (setErrorCallback (setWriteCallback (Channel_new fd))))"

definition chan_ok :: "connector \<Rightarrow> bool" where
  "chan_ok c \<longleftrightarrow> (\<forall>ch. cn_channel c = Some ch \<longrightarrow> ch = connect_channel (ch_fd ch) \<and> cn_connect c)"

abbreviation cn_inv :: "connector \<Rightarrow> bool" where
  "cn_inv c \<equiv> backoff_ok c \<and> chan_ok c"

lemma connect_channel_fd [simp]: "ch_fd (connect_channel fd) = fd"
  by (simp add: connect_channel_def Channel_new_def setCloseCallback_def setErrorCallback_def
      setWriteCallback_def)

lemma inv_upd [simp]:
  "backoff_ok (c\<lparr>cn_status := x1\<rparr>) = backoff_ok c" "chan_ok (c\<lparr>cn_status := x1\<rparr>) = chan_ok c"
  "backoff_ok (c\<lparr>cn_socketHanded := x2\<rparr>) = backoff_ok c" "chan_ok (c\<lparr>cn_socketHanded := x2\<rparr>) = chan_ok c"
  "backoff_ok (c\<lparr>cn_fd := x3\<rparr>) = backoff_ok c" "chan_ok (c\<lparr>cn_fd := x3\<rparr>) = chan_ok c"
  "backoff_ok (c\<lparr>cn_timers := x4\<rparr>) = backoff_ok c" "chan_ok (c\<lparr>cn_timers := x4\<rparr>) = chan_ok c"
  "backoff_ok (c\<lparr>cn_removals := x4\<rparr>) = backoff_ok c" "chan_ok (c\<lparr>cn_removals := x4\<rparr>) = chan_ok c"
  "backoff_ok (c\<lparr>cn_connect := b\<rparr>) = backoff_ok c" "backoff_ok (c\<lparr>cn_channel := x5\<rparr>) = backoff_ok c"
  "chan_ok (c\<lparr>cn_channel := None\<rparr>)" "chan_ok c \<Longrightarrow> chan_ok (c\<lparr>cn_connect := True\<rparr>)"
  by (simp_all add: backoff_ok_def chan_ok_def)

lemma inv_effect [simp]:
  "delays [e] = [] \<Longrightarrow> backoff_ok (cn_effect e c) = backoff_ok c" "chan_ok (cn_effect e c) = chan_ok c"
  by (simp_all add: backoff_ok_def chan_ok_def cn_effect_def)

lemma effect_fields [simp]:
  "cn_status (cn_effect e c) = cn_status c" "cn_connect (cn_effect e c) = cn_connect c"
  "cn_retryInterval (cn_effect e c) = cn_retryInterval c"
  "cn_maxRetryInterval (cn_effect e c) = cn_maxRetryInterval c" "cn_retry (cn_effect e c) = cn_retry c"
  "cn_socketHanded (cn_effect e c) = cn_socketHanded c" "cn_fd (cn_effect e c) = cn_fd c"
  "cn_channel (cn_effect e c) = cn_channel c" "cn_errorCb (cn_effect e c) = cn_errorCb c"
  "cn_sockOptCb (cn_effect e c) = cn_sockOptCb c" "cn_timers (cn_effect e c) = cn_timers c"
  "cn_log (cn_effect e c) = cn_log c @ [e]"
  by (simp_all add: cn_effect_def)

lemma inv_errorCallback [simp]:
  "backoff_ok (errorCallback c) = backoff_ok c" "chan_ok (errorCallback c) = chan_ok c"
  by (simp_all add: errorCallback_def)

lemma inv_remove: "cn_inv c \<Longrightarrow> cn_inv (snd (removeAndResetChannel c))"
  by (simp add: removeAndResetChannel_def split: option.splits)

lemma inv_retry:
  assumes "retry fd c = Inr c'" "cn_inv c"
  shows "cn_inv c'"
proof -
  let ?n = "length (delays (cn_log c))"
  have "cn_log c' = cn_log c @ [CnClose fd] @ (if cn_connect c then [CnRunAfter (cn_retryInterval c)] else [])"
    "cn_maxRetryInterval c' = cn_maxRetryInterval c"
    "cn_retryInterval c' = (if cn_connect c then (if cn_maxRetryInterval c < cn_retryInterval c * 2
       then cn_maxRetryInterval c else cn_retryInterval c * 2) else cn_retryInterval c)"
    "cn_channel c' = cn_channel c" "cn_connect c' = cn_connect c"
    using assms(1) by (auto simp: retry_def Let_def assert_then_Inr_iff split: if_splits)
  with assms(2) show ?thesis by (auto simp: backoff_ok_def chan_ok_def backoff_Suc)
qed

lemma inv_connecting:
  assumes "connecting fd c = Inr c'" "cn_inv c" "cn_connect c"
  shows "cn_inv c'"
  using assms by (auto simp: connecting_def Let_def assert_then_Inr_iff chan_ok_def connect_channel_def
    [symmetric])

lemma inv_connect:
  assumes "Connector_connect fd err c = Inr c'" "cn_inv c" "cn_connect c"
  shows "cn_inv c'"
proof -
  let ?c = "cn_effect (CnOpen fd) (c\<lparr>cn_socketHanded := False, cn_fd := fd\<rparr>)"
  let ?d = "if cn_sockOptCb ?c then cn_effect (CnSockOpt fd) ?c else ?c"
  have d: "cn_inv ?d" "cn_connect ?d" using assms(2,3) by simp_all
  from assms(1) consider "connecting fd ?d = Inr c'" | "retry fd ?d = Inr c'" | "c' = ?d"
    | "c' = errorCallback (cn_effect (CnClose fd) (?d\<lparr>cn_socketHanded := True\<rparr>))"
    unfolding Connector_connect_def Let_def by (auto split: if_splits)
  then show ?thesis
    by cases (use d inv_connecting inv_retry in \<open>auto simp: assms\<close>)
qed

lemma inv_startInLoop: "startInLoop fd err c = Inr c' \<Longrightarrow> cn_inv c \<Longrightarrow> cn_inv c'"
  using inv_connect by (auto simp: startInLoop_def assert_then_Inr_iff split: if_splits)

lemma inv_fail:
  assumes "bind_res (if p then retry fd c else Inr (f c)) (\<lambda>c. Inr (errorCallback c)) = Inr c'"
    and "cn_inv c" "cn_inv (f c)"
  shows "cn_inv c'"
  using assms inv_retry [of fd c] by (auto simp: bind_res_Inr_iff split: if_splits)

lemma inv_handleError:
  assumes "handleError c = Inr c'" "cn_inv c"
  shows "cn_inv c'"
proof (cases "cn_status c = CnConnecting")
  case True
  obtain sockfd d where d: "removeAndResetChannel (c\<lparr>cn_socketHanded := True, cn_status := CnDisconnected\<rparr>) =
      (sockfd, d)" by fastforce
  have "cn_inv d" using inv_remove [of "c\<lparr>cn_socketHanded := True, cn_status := CnDisconnected\<rparr>"] assms(2) d
    by simp
  moreover from assms(1) True d have "bind_res (if cn_retry d then retry sockfd d
      else Inr (cn_effect (CnClose sockfd) d)) (\<lambda>c. Inr (errorCallback c)) = Inr c'"
    by (simp add: handleError_def)
  ultimately show ?thesis using inv_fail by fastforce
qed (use assms in \<open>auto simp: handleError_def\<close>)

lemma inv_handleWrite:
  assumes "handleWrite soErr selfConnect c = Inr c'" "cn_inv c"
  shows "cn_inv c'"
proof (cases "cn_status c = CnConnecting")
  case True
  obtain sockfd d where d: "removeAndResetChannel (c\<lparr>cn_socketHanded := True\<rparr>) = (sockfd, d)" by fastforce
  have inv: "cn_inv d" using inv_remove [of "c\<lparr>cn_socketHanded := True\<rparr>"] assms(2) d by simp
  show ?thesis
  proof (cases "soErr sockfd \<noteq> 0 \<or> selfConnect sockfd")
    case fail: True
    from assms(1) True d fail have "bind_res (if cn_retry d then retry sockfd d
        else Inr (cn_effect (CnClose sockfd) (d\<lparr>cn_socketHanded := True\<rparr>)))
        (\<lambda>c. Inr (errorCallback c)) = Inr c'"
      by (simp add: handleWrite_def)
    then show ?thesis using inv_fail inv by fastforce
  next
    case False
    with assms(1) True d inv show ?thesis by (auto simp: handleWrite_def Let_def split: if_splits)
  qed
qed (use assms in \<open>auto simp: handleWrite_def assert_then_Inr_iff\<close>)

lemma inv_callbacks: "run_cn_callbacks soErr selfConnect cbs c = Inr c' \<Longrightarrow> cn_inv c \<Longrightarrow> cn_inv c'"
  by (induction cbs arbitrary: c)
     (auto simp: bind_res_Inr_iff split: if_splits dest: inv_handleError inv_handleWrite)

lemma inv_cn_step: "cn_step c c' \<Longrightarrow> cn_inv c \<Longrightarrow> cn_inv c'"
proof (induction rule: cn_step.induct)
  case (cn_start fd err c c')
  then show ?case using inv_startInLoop [of fd err "c\<lparr>cn_connect := True\<rparr>" c']
    by (simp add: Connector_start_def)
next
  case (cn_timer c n fd err c')
  then show ?case using inv_startInLoop [of fd err "c\<lparr>cn_timers := n\<rparr>" c'] by simp
next
  case (cn_event soErr selfConnect revents c c')
  then show ?case using inv_callbacks by (auto simp: connector_event_def split: option.splits)
next
  case (cn_stop c inLoop)
  then show ?case using inv_remove [of "c\<lparr>cn_status := CnDisconnected\<rparr>"]
    by (simp add: Connector_stop_def Let_def)
next
  case (cn_removal c n)
  then show ?case using inv_remove [of "c\<lparr>cn_removals := n\<rparr>"] by simp
next
  case (cn_error_cb c)
  then show ?case by (simp add: setErrorCb_def backoff_ok_def chan_ok_def)
next
  case (cn_sockopt_cb c)
  then show ?case by (simp add: setSockOptCb_def backoff_ok_def chan_ok_def)
qed

lemma inv_cn_reach: "cn_reach r c \<Longrightarrow> cn_inv c"
proof (induction rule: cn_reach.induct)
  case (cn_reach_new r)
  then show ?case
    by (simp add: Connector_new_def backoff_ok_def chan_ok_def kMaxRetryDelayMs_def kInitRetryDelayMs_def
        backoff_def)
qed (rule inv_cn_step)

text \<open>
  C25. The delays between attempts, whatever happens to the connector: the k-th is
  \<open>500 * 2^k\<close> milliseconds, at most 30 seconds, counted from 0 over the whole life of the
  connector; a success in between does not start the count again.
\<close>

theorem connector_backoff:
  assumes "cn_reach r c" "k < length (delays (cn_log c))"
  shows "delays (cn_log c) ! k = min (500 * 2 ^ k) 30000"
proof -
  have "delays (cn_log c) = map backoff [0..<length (delays (cn_log c))]"
    using inv_cn_reach [OF assms(1)] by (simp add: backoff_ok_def)
  then have "delays (cn_log c) ! k = map backoff [0..<length (delays (cn_log c))] ! k" by simp
  then show ?thesis using assms(2) by (simp add: backoff_def)
qed

section \<open>One round of events\<close>

lemma remove_channel:
  "cn_channel c = Some ch \<Longrightarrow>
   removeAndResetChannel c = (ch_fd ch, cn_effect (CnRemove (ch_fd ch)) (c\<lparr>cn_channel := None\<rparr>))"
  by (simp add: removeAndResetChannel_def)

text \<open>After a failure the handlers that follow in the same round do nothing.\<close>

lemma callbacks_idle:
  "cn_status c = CnDisconnected \<Longrightarrow>
   \<exists>c'. run_cn_callbacks soErr selfConnect cbs c = Inr c' \<and> cn_log c' = cn_log c \<and>
        cn_status c' = CnDisconnected \<and> cn_channel c' = cn_channel c"
proof (induction cbs arbitrary: c)
  case (Cons cb cbs)
  from Cons.prems Cons.IH [of "c\<lparr>cn_socketHanded := True\<rparr>"] show ?case
    by (cases "cb = WriteCb") (simp_all add: handleWrite_def handleError_def)
qed simp

abbreviation failed :: "int \<Rightarrow> connector \<Rightarrow> cn_effect list" where
  "failed fd c \<equiv> [CnRemove fd, CnClose fd] @ (if cn_retry c then [CnRunAfter (cn_retryInterval c)] else []) @
     (if cn_errorCb c then [CnError] else [])"

lemma handleError_fails:
  assumes "cn_status c = CnConnecting" "cn_channel c = Some ch" "cn_connect c"
  shows "\<exists>c'. handleError c = Inr c' \<and> cn_log c' = cn_log c @ failed (ch_fd ch) c \<and>
    cn_status c' = CnDisconnected \<and> cn_channel c' = None"
  using assms by (auto simp: handleError_def remove_channel retry_def errorCallback_def Let_def)

lemma handleWrite_result:
  assumes "cn_status c = CnConnecting" "cn_channel c = Some ch" "cn_connect c"
  shows "\<exists>c'. handleWrite soErr selfConnect c = Inr c' \<and> cn_channel c' = None \<and>
    (if soErr (ch_fd ch) = 0 \<and> \<not> selfConnect (ch_fd ch)
     then cn_log c' = cn_log c @ [CnRemove (ch_fd ch), CnNewConnection (ch_fd ch)] \<and>
          cn_status c' = CnConnected
     else cn_log c' = cn_log c @ failed (ch_fd ch) c \<and>
          cn_status c' = (if cn_retry c then CnDisconnected else CnConnecting))"
  using assms by (auto simp: handleWrite_def remove_channel retry_def errorCallback_def Let_def)

definition reports_failure :: "32 word \<Rightarrow> bool" where
  "reports_failure r \<longleftrightarrow> (r AND POLLHUP \<noteq> 0 \<and> r AND POLLIN = 0) \<or> r AND (POLLNVAL OR POLLERR) \<noteq> 0"

lemma connect_callbacks:
  assumes "reports_failure r \<or> r AND POLLOUT \<noteq> 0"
  shows "if reports_failure r
    then \<exists>cb cbs. cb \<noteq> WriteCb \<and> handleEvent True (setRevents r (connect_channel fd)) = cb # cbs
    else handleEvent True (setRevents r (connect_channel fd)) = [WriteCb]"
proof -
  have "ch_events (connect_channel fd) \<noteq> kNoneEvent"
    by (simp add: connect_channel_def Channel_new_def setCloseCallback_def setErrorCallback_def
        setWriteCallback_def enableWriting_def poll_defs)
  then show ?thesis using assms
    by (auto simp: handleEvent_def handleEventSafely_def if_set_def Let_def connect_channel_def
      setRevents_def enableWriting_def Channel_new_def setCloseCallback_def setErrorCallback_def
      setWriteCallback_def reports_failure_def)
qed

text \<open>
  C24. One round of events on a connecting socket, in every reachable connector, whatever the
  combination of events (a refused connection reports HUP, ERR and OUT together): the socket is
  either handed over once, or closed once, with one call of the error callback and, when the
  connector retries, one timer; the channel is gone, and no assertion fails.
\<close>

theorem connector_event_once:
  assumes "cn_reach r c" "cn_status c = CnConnecting" "cn_channel c = Some ch"
    and "reports_failure revents \<or> revents AND POLLOUT \<noteq> 0"
  shows "\<exists>c'. connector_event soErr selfConnect revents c = Inr c' \<and> cn_channel c' = None \<and>
    cn_log c' = cn_log c @
      (if \<not> reports_failure revents \<and> soErr (ch_fd ch) = 0 \<and> \<not> selfConnect (ch_fd ch)
       then [CnRemove (ch_fd ch), CnNewConnection (ch_fd ch)]
       else [CnRemove (ch_fd ch), CnClose (ch_fd ch)] @
         (if cn_retry c then [CnRunAfter (cn_retryInterval c)] else []) @
         (if cn_errorCb c then [CnError] else []))"
proof -
  have ch: "ch = connect_channel (ch_fd ch)" "cn_connect c"
    using inv_cn_reach [OF assms(1)] assms(3) by (auto simp: chan_ok_def)
  note cbs = connect_callbacks [OF assms(4), of "ch_fd ch", folded ch(1)]
  show ?thesis
  proof (cases "reports_failure revents")
    case True
    with cbs obtain cb rest where cb: "cb \<noteq> WriteCb"
      "handleEvent True (setRevents revents ch) = cb # rest" by auto
    from handleError_fails [OF assms(2,3) ch(2)] obtain d where d: "handleError c = Inr d"
      "cn_log d = cn_log c @ failed (ch_fd ch) c" "cn_status d = CnDisconnected" "cn_channel d = None"
      by blast
    from callbacks_idle [OF d(3)] d cb True assms(3) show ?thesis
      by (fastforce simp: connector_event_def)
  next
    case False
    with cbs assms(3) handleWrite_result [OF assms(2,3) ch(2), of soErr selfConnect] show ?thesis
      by (auto simp: connector_event_def)
  qed
qed

section \<open>Stopping, failing and destroying\<close>

text \<open>
  A stop does not stop: while a retry timer is set, the connector stopped in its loop still
  connects when the timer fires, and hands the connection over. \<open>stop\<close> leaves \<open>connect_\<close> true.
\<close>

theorem stop_ignored:
  assumes "cn_reach r c" "cn_connect c" "cn_channel c = None" "cn_timers c = Suc n"
  shows "\<exists>c1 c2. startInLoop fd 0 ((Connector_stop True c)\<lparr>cn_timers := n\<rparr>) = Inr c1 \<and>
    connector_event (\<lambda>_. 0) (\<lambda>_. False) POLLOUT c1 = Inr c2 \<and>
    CnNewConnection fd \<in> set (cn_log c2)"
proof -
  let ?d = "cn_effect (CnOpen fd) (c\<lparr>cn_status := CnDisconnected, cn_timers := n, cn_socketHanded := False, cn_fd := fd\<rparr>)"
  let ?e = "if cn_sockOptCb ?d then cn_effect (CnSockOpt fd) ?d else ?d"
  have stop: "Connector_stop True c = c\<lparr>cn_status := CnDisconnected\<rparr>"
    using assms(3) by (simp add: Connector_stop_def removeAndResetChannel_def)
  have start: "startInLoop fd 0 ((Connector_stop True c)\<lparr>cn_timers := n\<rparr>) = connecting fd ?e"
    using assms(2) by (simp add: stop startInLoop_def Connector_connect_def goes_on_def Let_def)
  then have c1: "startInLoop fd 0 ((Connector_stop True c)\<lparr>cn_timers := n\<rparr>) = Inr (cn_effect (CnUpdate fd)
      (?e\<lparr>cn_status := CnConnecting, cn_channel := Some (connect_channel fd)\<rparr>))" (is "_ = Inr ?c1")
    using assms(3) by (simp add: connecting_def connect_channel_def)
  have pout: "POLLOUT AND POLLOUT \<noteq> (0 :: 32 word)" "\<not> reports_failure POLLOUT"
    by (simp_all add: poll_defs reports_failure_def)
  have cbs: "handleEvent True (setRevents POLLOUT (connect_channel fd)) = [WriteCb]"
    using connect_callbacks [of POLLOUT fd] pout by simp
  have "\<exists>c2. handleWrite (\<lambda>_. 0) (\<lambda>_. False) ?c1 = Inr c2 \<and> CnNewConnection fd \<in> set (cn_log c2)"
    using handleWrite_result [of ?c1 "connect_channel fd" "\<lambda>_. 0" "\<lambda>_. False"] assms(2) by fastforce
  then show ?thesis using c1 cbs by (auto simp: connector_event_def)
qed

text \<open>A connector that does not retry and fails in \<open>handleWrite\<close> stays connecting, and aborts when
  started again.\<close>

lemma failed_write_stuck:
  assumes "cn_status c = CnConnecting" "cn_channel c = Some ch" "cn_connect c" "\<not> cn_retry c"
    "selfConnect (ch_fd ch)"
  shows "\<exists>c'. handleWrite soErr selfConnect c = Inr c' \<and> Connector_start fd err c' = Inl AssertFailed"
  using handleWrite_result [OF assms(1-3), of soErr selfConnect] assms(4,5)
  by (fastforce simp: Connector_start_def startInLoop_def)

text \<open>A connector destroyed after a refused attempt closes the socket a second time.\<close>

lemma refused_closed_twice:
  assumes "cn_retry c" "fd \<noteq> -1" "\<not> cn_sockOptCb c"
  shows "\<exists>c'. Connector_connect fd 111 c = Inr c' \<and>
    filter (\<lambda>e. e = CnClose fd) (cn_log (Connector_destroy c')) =
    filter (\<lambda>e. e = CnClose fd) (cn_log c) @ [CnClose fd, CnClose fd]"
  using assms
  by (auto simp: Connector_connect_def goes_on_def try_again_def retry_def Connector_destroy_def Let_def)

section \<open>A concrete connector\<close>

text \<open>It retries; the first attempt was refused at once, the second is on its way.\<close>

definition sample_refused :: connector where
  "sample_refused = \<lparr>cn_status = CnDisconnected, cn_connect = True, cn_retryInterval = 1000,
     cn_maxRetryInterval = 30000, cn_retry = True, cn_socketHanded = False, cn_fd = 4,
     cn_channel = None, cn_errorCb = False, cn_sockOptCb = False, cn_timers = 1, cn_removals = 0,
     cn_log = [CnOpen 4, CnClose 4, CnRunAfter 500]\<rparr>"

definition sample_connecting :: connector where
  "sample_connecting = sample_refused\<lparr>cn_status := CnConnecting, cn_timers := 0, cn_fd := 5,
     cn_channel := Some (connect_channel 5),
     cn_log := [CnOpen 4, CnClose 4, CnRunAfter 500, CnOpen 5, CnUpdate 5]\<rparr>"

lemmas cn_eval = Connector_new_def Connector_start_def startInLoop_def Connector_connect_def
  goes_on_def try_again_def retry_def connecting_def kMaxRetryDelayMs_def kInitRetryDelayMs_def
  Let_def cn_effect_def sample_refused_def

lemma sample_refused_reach: "cn_reach True sample_refused"
  by (rule cn_reach_step [OF cn_reach_new cn_start [of 4 111]]) (simp add: cn_eval)

lemma sample_connecting_reach: "cn_reach True sample_connecting"
  by (rule cn_reach_step [OF sample_refused_reach cn_timer [of _ 0 5 115]])
     (simp_all add: cn_eval sample_connecting_def connect_channel_def)

theorem connector_backoff_witness: "delays (cn_log sample_connecting) ! 0 = min (500 * 2 ^ 0) 30000"
  by (rule connector_backoff [OF sample_connecting_reach]) (simp add: sample_connecting_def)

theorem connector_event_once_witness:
  "\<exists>c'. connector_event (\<lambda>_. 111) (\<lambda>_. False) (POLLHUP OR POLLERR OR POLLOUT) sample_connecting = Inr c' \<and>
     cn_log c' = cn_log sample_connecting @ [CnRemove 5, CnClose 5, CnRunAfter 1000]"
proof -
  have "reports_failure (POLLHUP OR POLLERR OR POLLOUT)" by (simp add: reports_failure_def poll_defs)
  with connector_event_once [OF sample_connecting_reach, of "connect_channel 5" "POLLHUP OR POLLERR OR POLLOUT"
      "\<lambda>_. 111" "\<lambda>_. False"]
  show ?thesis by (auto simp: sample_connecting_def sample_refused_def)
qed

theorem stop_ignored_witness:
  "\<exists>c1 c2. startInLoop 6 0 ((Connector_stop True sample_refused)\<lparr>cn_timers := 0\<rparr>) = Inr c1 \<and>
    connector_event (\<lambda>_. 0) (\<lambda>_. False) POLLOUT c1 = Inr c2 \<and> CnNewConnection 6 \<in> set (cn_log c2)"
  by (rule stop_ignored [OF sample_refused_reach]) (simp_all add: sample_refused_def)

end
