(* ===== verification/ConcurrentTaskQueue.thy ===== *)
theory ConcurrentTaskQueue
  imports Main
begin

text \<open>
  The task queue of src/xiaoNet/utils/ConcurrentTaskQueue.h and ConcurrentTaskQueue.cpp: workers that
  share a queue under a mutex and sleep on a condition variable. The steps of the workers, of
  the threads that give tasks and of the thread that stops the queue interleave. Tasks are numbers
  and end. The condition variable does not wake up by itself here; such wake-ups would only
  add steps to those below.
\<close>

section \<open>State\<close>

text \<open>
  Where a worker is in \<open>queueFunc\<close>: at the outer test of \<open>stop_\<close>; before the lock; at the test of
  the inner loop; past that test and about to wait; asleep; woken and before the lock; at the
  test of the size; running a task; out of the loop.
\<close>

datatype worker_pc =
  WOuter | WLock | WInner | WWait | WAsleep | WWoken | WSize | WRun nat | WExit

text \<open>The thread in \<open>stop\<close>: not there, past the store, past \<open>notify_all\<close> and joining, done.\<close>

datatype stop_pc = SNone | SStored | SJoining | SDone

text \<open>\<open>cq_pushed\<close> and \<open>cq_started\<close> record the tasks given and those taken, with the worker.\<close>

record cqueue =
  cq_tasks :: "nat list"
  cq_mutex :: "nat option"
  cq_stop :: bool
  cq_workers :: "nat \<Rightarrow> worker_pc"
  cq_stopper :: stop_pc
  cq_pushed :: "nat list"
  cq_started :: "(nat \<times> nat) list"

definition ConcurrentTaskQueue_new :: cqueue where
  "ConcurrentTaskQueue_new = \<lparr>cq_tasks = [], cq_mutex = None, cq_stop = False,
     cq_workers = (\<lambda>_. WOuter), cq_stopper = SNone, cq_pushed = [], cq_started = []\<rparr>"

section \<open>Steps\<close>

definition set_worker :: "nat \<Rightarrow> worker_pc \<Rightarrow> cqueue \<Rightarrow> cqueue" where
  "set_worker i pc q = q\<lparr>cq_workers := (cq_workers q)(i := pc)\<rparr>"

text \<open>\<open>notify_one\<close> wakes a sleeping worker, if there is one, \<open>notify_all\<close> all of them.\<close>

definition notify_one :: "nat option \<Rightarrow> cqueue \<Rightarrow> cqueue" where
  "notify_one w q = (case w of None \<Rightarrow> q | Some i \<Rightarrow> set_worker i WWoken q)"

definition may_notify :: "nat \<Rightarrow> nat option \<Rightarrow> cqueue \<Rightarrow> bool" where
  "may_notify n w q \<longleftrightarrow>
     (case w of None \<Rightarrow> (\<forall>i<n. cq_workers q i \<noteq> WAsleep)
      | Some i \<Rightarrow> i < n \<and> cq_workers q i = WAsleep)"

definition notify_all :: "cqueue \<Rightarrow> cqueue" where
  "notify_all q = q\<lparr>cq_workers := (\<lambda>i. if cq_workers q i = WAsleep then WWoken else cq_workers q i)\<rparr>"

definition runTaskInQueue :: "nat \<Rightarrow> nat option \<Rightarrow> cqueue \<Rightarrow> cqueue" where
  "runTaskInQueue t w q =
     notify_one w (q\<lparr>cq_tasks := cq_tasks q @ [t], cq_pushed := cq_pushed q @ [t]\<rparr>)"

definition getTaskCount :: "cqueue \<Rightarrow> nat" where
  "getTaskCount q = length (cq_tasks q)"

text \<open>One step of worker \<open>i\<close> in \<open>queueFunc\<close>; \<open>None\<close> when it cannot go on.\<close>

definition worker_step :: "nat \<Rightarrow> cqueue \<Rightarrow> cqueue option" where
  "worker_step i q =
     (case cq_workers q i of
        WOuter \<Rightarrow> Some (set_worker i (if cq_stop q then WExit else WLock) q)
      | WLock \<Rightarrow> (if cq_mutex q = None then Some (set_worker i WInner (q\<lparr>cq_mutex := Some i\<rparr>)) else None)
      | WInner \<Rightarrow>
          Some (set_worker i (if \<not> cq_stop q \<and> cq_tasks q = [] then WWait else WSize) q)
      | WWait \<Rightarrow> Some (set_worker i WAsleep (q\<lparr>cq_mutex := None\<rparr>))
      | WAsleep \<Rightarrow> None
      | WWoken \<Rightarrow> (if cq_mutex q = None then Some (set_worker i WInner (q\<lparr>cq_mutex := Some i\<rparr>)) else None)
      | WSize \<Rightarrow>
          (case cq_tasks q of
             t # ts \<Rightarrow> Some (set_worker i (WRun t)
                        (q\<lparr>cq_tasks := ts, cq_mutex := None, cq_started := cq_started q @ [(i, t)]\<rparr>))
           | [] \<Rightarrow> Some (set_worker i WOuter (q\<lparr>cq_mutex := None\<rparr>)))
      | WRun t \<Rightarrow> Some (set_worker i WOuter q)
      | WExit \<Rightarrow> None)"

text \<open>\<open>stop\<close>: the store, without the lock; \<open>notify_all\<close>; the joins.\<close>

definition stop_step :: "nat \<Rightarrow> cqueue \<Rightarrow> cqueue option" where
  "stop_step n q =
     (case cq_stopper q of
        SNone \<Rightarrow> (if \<not> cq_stop q then Some (q\<lparr>cq_stop := True, cq_stopper := SStored\<rparr>) else None)
      | SStored \<Rightarrow> Some ((notify_all q)\<lparr>cq_stopper := SJoining\<rparr>)
      | SJoining \<Rightarrow> (if \<forall>i\<in>set [0..<n]. cq_workers q i = WExit
                    then Some (q\<lparr>cq_stopper := SDone\<rparr>) else None)
      | SDone \<Rightarrow> None)"

inductive cq_reach :: "nat \<Rightarrow> cqueue \<Rightarrow> bool" for n where
  cq_new: "0 < n \<Longrightarrow> cq_reach n ConcurrentTaskQueue_new"
| cq_push: "cq_reach n q \<Longrightarrow> cq_mutex q = None \<Longrightarrow> may_notify n w q \<Longrightarrow>
    cq_reach n (runTaskInQueue t w q)"
| cq_worker: "cq_reach n q \<Longrightarrow> i < n \<Longrightarrow> worker_step i q = Some q' \<Longrightarrow> cq_reach n q'"
| cq_stopping: "cq_reach n q \<Longrightarrow> stop_step n q = Some q' \<Longrightarrow> cq_reach n q'"

section \<open>The invariant\<close>

text \<open>The worker that holds the mutex; and a worker that will still look at the queue.\<close>

definition holds :: "worker_pc \<Rightarrow> bool" where
  "holds pc \<longleftrightarrow> pc = WInner \<or> pc = WWait \<or> pc = WSize"

definition active :: "worker_pc \<Rightarrow> bool" where
  "active pc \<longleftrightarrow> pc \<noteq> WAsleep \<and> pc \<noteq> WWait \<and> pc \<noteq> WExit"

definition cq_inv :: "nat \<Rightarrow> cqueue \<Rightarrow> bool" where
  "cq_inv n q \<longleftrightarrow> 0 < n \<and> cq_pushed q = map snd (cq_started q) @ cq_tasks q \<and>
     (\<forall>i<n. holds (cq_workers q i) \<longrightarrow> cq_mutex q = Some i) \<and>
     (\<forall>i<n. cq_workers q i = WWait \<longrightarrow> cq_tasks q = []) \<and>
     (\<forall>i<n. cq_workers q i = WExit \<longrightarrow> cq_stop q) \<and>
     (cq_tasks q \<noteq> [] \<and> \<not> cq_stop q \<longrightarrow> (\<exists>i<n. active (cq_workers q i)))"

lemma cq_invD:
  assumes "cq_inv n q"
  shows "0 < n" "cq_pushed q = map snd (cq_started q) @ cq_tasks q"
    "\<And>i. i < n \<Longrightarrow> holds (cq_workers q i) \<Longrightarrow> cq_mutex q = Some i"
    "\<And>i. i < n \<Longrightarrow> cq_workers q i = WWait \<Longrightarrow> cq_tasks q = []"
    "\<And>i. i < n \<Longrightarrow> cq_workers q i = WExit \<Longrightarrow> cq_stop q"
    "cq_tasks q \<noteq> [] \<Longrightarrow> \<not> cq_stop q \<Longrightarrow> \<exists>i<n. active (cq_workers q i)"
  using assms unfolding cq_inv_def by blast+

lemma set_worker_fields [simp]:
  "cq_tasks (set_worker i pc q) = cq_tasks q" "cq_mutex (set_worker i pc q) = cq_mutex q"
  "cq_stop (set_worker i pc q) = cq_stop q" "cq_pushed (set_worker i pc q) = cq_pushed q"
  "cq_started (set_worker i pc q) = cq_started q" "cq_stopper (set_worker i pc q) = cq_stopper q"
  "cq_workers (set_worker i pc q) = (cq_workers q)(i := pc)"
  by (simp_all add: set_worker_def)

text \<open>A worker moves: the mutex, the queue and the record change with it.\<close>

lemma inv_move:
  assumes inv: "cq_inv n q" and i: "i < n"
    and q': "q' = set_worker i pc (q\<lparr>cq_mutex := m, cq_tasks := ts, cq_started := st\<rparr>)"
    and pushed: "cq_pushed q = map snd st @ ts"
    and mutex: "holds pc \<longrightarrow> m = Some i" "m \<noteq> cq_mutex q \<longrightarrow> cq_mutex q = None \<or> cq_mutex q = Some i"
    and empty: "pc = WWait \<longrightarrow> ts = []" "cq_tasks q = [] \<longrightarrow> ts = []"
    and stop: "pc = WExit \<longrightarrow> cq_stop q" "\<not> active pc \<longrightarrow> ts = [] \<or> cq_stop q"
  shows "cq_inv n q'"
  unfolding cq_inv_def
proof (intro conjI allI impI)
  note D = cq_invD [OF inv]
  show "0 < n" by (rule D(1))
  show "cq_pushed q' = map snd (cq_started q') @ cq_tasks q'" using pushed by (simp add: q')
  show "cq_mutex q' = Some j" if "j < n" "holds (cq_workers q' j)" for j
    using that D(3) [of j] mutex by (cases "j = i") (auto simp: q')
  show "cq_tasks q' = []" if "j < n" "cq_workers q' j = WWait" for j
    using that D(4) [of j] empty by (cases "j = i") (auto simp: q')
  show "cq_stop q'" if "j < n" "cq_workers q' j = WExit" for j
    using that D(5) [of j] stop by (cases "j = i") (auto simp: q')
  show "\<exists>j<n. active (cq_workers q' j)" if "cq_tasks q' \<noteq> [] \<and> \<not> cq_stop q'"
    using that i stop(2) by (intro exI [of _ i]) (auto simp: q')
qed

lemma inv_worker:
  assumes "cq_inv n q" "i < n" "worker_step i q = Some q'"
  shows "cq_inv n q'"
proof -
  note D = cq_invD [OF assms(1)]
  have upd: "q\<lparr>cq_mutex := cq_mutex q, cq_tasks := cq_tasks q, cq_started := cq_started q\<rparr> = q"
    "q\<lparr>cq_mutex := m, cq_tasks := cq_tasks q, cq_started := cq_started q\<rparr> = q\<lparr>cq_mutex := m\<rparr>" for m
    by simp_all
  note move = inv_move [OF assms(1,2), where ts = "cq_tasks q" and st = "cq_started q", unfolded upd]
  show ?thesis
  proof (cases "cq_workers q i")
    case WOuter
    with assms(3) show ?thesis
      by (intro move [where m = "cq_mutex q" and pc = "if cq_stop q then WExit else WLock"])
         (auto simp: worker_step_def holds_def active_def D(2) split: if_splits)
  next
    case WLock
    with assms(3) show ?thesis
      by (intro move [where m = "Some i"])
         (auto simp: worker_step_def holds_def active_def D(2) split: if_splits)
  next
    case WInner
    with assms(3) D(3) [OF assms(2)] show ?thesis
      by (intro move [where m = "cq_mutex q"
            and pc = "if \<not> cq_stop q \<and> cq_tasks q = [] then WWait else WSize"])
         (auto simp: worker_step_def holds_def active_def D(2) split: if_splits)
  next
    case WWait
    with assms(3) D(3,4) [OF assms(2)] show ?thesis
      by (intro move [where m = None]) (auto simp: worker_step_def holds_def active_def D(2))
  next
    case WWoken
    with assms(3) show ?thesis
      by (intro move [where m = "Some i"])
         (auto simp: worker_step_def holds_def active_def D(2) split: if_splits)
  next
    case WSize
    then have m: "cq_mutex q = Some i" using D(3) [OF assms(2)] by (simp add: holds_def)
    show ?thesis
    proof (cases "cq_tasks q")
      case Nil
      with WSize assms(3) m show ?thesis
        by (intro move [where m = None]) (auto simp: worker_step_def holds_def active_def D(2))
    next
      case (Cons t ts)
      with WSize assms(3) m D(2) show ?thesis
        by (intro inv_move [OF assms(1,2), where m = None and ts = ts and pc = "WRun t" and st = "cq_started q @ [(i, t)]"])
           (auto simp: worker_step_def holds_def active_def)
    qed
  next
    case (WRun t)
    with assms(3) show ?thesis
      by (intro move [where m = "cq_mutex q"]) (auto simp: worker_step_def holds_def active_def D(2))
  qed (use assms(3) in \<open>simp_all add: worker_step_def\<close>)
qed

lemma inv_push:
  assumes "cq_inv n q" "cq_mutex q = None" "may_notify n w q"
  shows "cq_inv n (runTaskInQueue t w q)"
proof -
  note D = cq_invD [OF assms(1)]
  have free: "\<not> holds (cq_workers q i)" if "i < n" for i using D(3) [OF that] assms(2) by auto
  then have wait: "cq_workers q i \<noteq> WWait" if "i < n" for i using that by (fastforce simp: holds_def)
  show ?thesis
  proof (cases w)
    case None
    then have "cq_stop q \<or> active (cq_workers q 0)"
      using assms(3) D(1,5) wait [of 0] by (auto simp: may_notify_def active_def)
    with None D free wait show ?thesis
      by (auto simp: cq_inv_def runTaskInQueue_def notify_one_def)
  next
    case (Some i)
    then have i: "i < n" using assms(3) by (simp add: may_notify_def)
    then have "active ((cq_workers (runTaskInQueue t w q)) i)"
      using Some by (simp add: runTaskInQueue_def notify_one_def active_def)
    with Some i D free wait show ?thesis
      by (auto simp: cq_inv_def runTaskInQueue_def notify_one_def holds_def)
  qed
qed

lemma inv_stop:
  assumes "cq_inv n q" "stop_step n q = Some q'"
  shows "cq_inv n q'"
proof -
  note D = cq_invD [OF assms(1)]
  have woken: "active (if pc = WAsleep then WWoken else pc) \<longleftrightarrow> pc = WAsleep \<or> active pc"
    "holds (if pc = WAsleep then WWoken else pc) \<longleftrightarrow> holds pc" for pc
    by (auto simp: active_def holds_def)
  have "cq_inv n ((notify_all q)\<lparr>cq_stopper := SJoining\<rparr>)"
    unfolding cq_inv_def notify_all_def using D by (auto simp: woken split: if_splits)
  moreover have "cq_inv n (q\<lparr>cq_stop := True, cq_stopper := SStored\<rparr>)" "cq_inv n (q\<lparr>cq_stopper := SDone\<rparr>)"
    unfolding cq_inv_def using D by auto
  ultimately show ?thesis
    using assms(2) by (auto simp: stop_step_def split: stop_pc.splits if_splits)
qed

lemma inv_reach: "cq_reach n q \<Longrightarrow> cq_inv n q"
proof (induction rule: cq_reach.induct)
  case cq_new
  then show ?case by (simp add: cq_inv_def ConcurrentTaskQueue_new_def holds_def)
qed (auto intro: inv_push inv_worker inv_stop)

text \<open>
  C22. In every interleaving of the workers with any threads that give tasks: the tasks are taken
  in the order given, each once and by one worker; no two workers are inside the lock; and while
  the queue is not being stopped, a task that waits never faces sleeping workers only: some
  worker is awake and will look at the queue again.
\<close>

theorem task_queue_order:
  assumes "cq_reach n q"
  shows "cq_pushed q = map snd (cq_started q) @ cq_tasks q \<and>
    (\<forall>i<n. \<forall>j<n. holds (cq_workers q i) \<and> holds (cq_workers q j) \<longrightarrow> i = j) \<and>
    (cq_tasks q \<noteq> [] \<and> \<not> cq_stop q \<longrightarrow>
       (\<exists>i<n. cq_workers q i \<noteq> WAsleep \<and> cq_workers q i \<noteq> WWait \<and> cq_workers q i \<noteq> WExit))"
proof -
  note D = cq_invD [OF inv_reach [OF assms]]
  have "i = j" if "i < n" "j < n" "holds (cq_workers q i)" "holds (cq_workers q j)" for i j
    using D(3) [OF that(1,3)] D(3) [OF that(2,4)] by simp
  with D(2,6) show ?thesis by (auto simp: active_def)
qed

section \<open>Stopping\<close>

definition one_worker :: "worker_pc \<Rightarrow> nat option \<Rightarrow> bool \<Rightarrow> stop_pc \<Rightarrow> cqueue" where
  "one_worker pc m st sp = \<lparr>cq_tasks = [], cq_mutex = m, cq_stop = st, cq_workers = (\<lambda>_. WOuter)(0 := pc),
     cq_stopper = sp, cq_pushed = [], cq_started = []\<rparr>"

text \<open>
  C23. \<open>stop\<close> can block for ever: it sets \<open>stop_\<close> and notifies without the lock, so both may fall
  between a worker's test and its wait. Then the worker sleeps, the stopping thread joins it, and
  neither can go on; only another task would wake the worker.
\<close>

theorem task_queue_stop_deadlock:
  "\<exists>q. cq_reach 1 q \<and> cq_stop q \<and> cq_mutex q = None \<and> cq_stopper q = SJoining \<and>
     worker_step 0 q = None \<and> stop_step 1 q = None"
proof -
  have "cq_reach 1 (one_worker WOuter None False SNone)"
    using cq_new [of 1] by (simp add: ConcurrentTaskQueue_new_def one_worker_def fun_upd_def)
  then have "cq_reach 1 (one_worker WLock None False SNone)"
    by (rule cq_worker [where i = 0]) (simp_all add: worker_step_def one_worker_def set_worker_def fun_eq_iff)
  then have "cq_reach 1 (one_worker WInner (Some 0) False SNone)"
    by (rule cq_worker [where i = 0]) (simp_all add: worker_step_def one_worker_def set_worker_def fun_eq_iff)
  then have "cq_reach 1 (one_worker WWait (Some 0) False SNone)"
    by (rule cq_worker [where i = 0]) (simp_all add: worker_step_def one_worker_def set_worker_def fun_eq_iff)
  then have "cq_reach 1 (one_worker WWait (Some 0) True SStored)"
    by (rule cq_stopping) (simp add: stop_step_def one_worker_def)
  then have "cq_reach 1 (one_worker WWait (Some 0) True SJoining)"
    by (rule cq_stopping) (auto simp: stop_step_def one_worker_def notify_all_def fun_eq_iff)
  then have "cq_reach 1 (one_worker WAsleep None True SJoining)"
    by (rule cq_worker [where i = 0]) (simp_all add: worker_step_def one_worker_def set_worker_def fun_eq_iff)
  then show ?thesis
    by (intro exI [of _ "one_worker WAsleep None True SJoining"])
       (simp add: one_worker_def worker_step_def stop_step_def)
qed

text \<open>One worker, one task given and not yet taken.\<close>

theorem task_queue_order_witness:
  "cq_pushed (runTaskInQueue 8 None (one_worker WOuter None False SNone)) = [8] \<and>
   map snd (cq_started (runTaskInQueue 8 None (one_worker WOuter None False SNone))) = []"
proof -
  have "cq_reach 1 (one_worker WOuter None False SNone)"
    using cq_new [of 1] by (simp add: ConcurrentTaskQueue_new_def one_worker_def fun_upd_def)
  then have "cq_reach 1 (runTaskInQueue 8 None (one_worker WOuter None False SNone))"
    by (rule cq_push) (simp_all add: one_worker_def may_notify_def)
  from task_queue_order [OF this] show ?thesis
    by (simp add: runTaskInQueue_def notify_one_def one_worker_def)
qed

end
