(* ===== verification/TcpServer.thy ===== *)
theory TcpServer
  imports TcpConnection TimingWheel
begin

text \<open>
  The server of src/xiaoNet/net/TcpServer.h and TcpServer.cpp: the loops it spreads connections over,
  the set of its connections, their removal, start and stop. Loops and connections are numbers;
  a connection itself is the subject of the connection theories, and calls its close callback
  once. What the server asks of connections and loops is a log.
\<close>

section \<open>State\<close>

datatype sv_effect =
  SvEstablish nat nat      \<comment> \<open>\<open>connectEstablished\<close> of a connection in a loop\<close>
| SvKickOff nat nat        \<comment> \<open>\<open>enableKickingOff\<close> with a timeout\<close>
| SvDestroy nat nat        \<comment> \<open>\<open>connectDestroyed\<close> of a connection, queued in a loop\<close>
| SvForceClose nat
| SvListen

record server =
  sv_loop :: nat
  sv_acceptor :: bool
  sv_connSet :: "nat set"
  sv_connLoop :: "nat \<Rightarrow> nat"
  sv_next :: nat
  sv_idleTimeout :: nat
  sv_wheels :: "nat \<Rightarrow> TimingWheel option"
  sv_pool :: bool
  sv_ioLoops :: "nat list"
  sv_nextLoopIdx :: nat
  sv_numIoLoops :: nat
  sv_started :: bool
  sv_policy :: bool
  sv_sslContext :: bool
  sv_tasks :: "nat list"
  sv_log :: "sv_effect list"

definition TcpServer_new :: "nat \<Rightarrow> server" where
  "TcpServer_new loop = \<lparr>sv_loop = loop, sv_acceptor = True, sv_connSet = {}, sv_connLoop = (\<lambda>_. 0),
     sv_next = 0, sv_idleTimeout = 0, sv_wheels = (\<lambda>_. None), sv_pool = False, sv_ioLoops = [loop],
     sv_nextLoopIdx = 0, sv_numIoLoops = 1, sv_started = False, sv_policy = False,
     sv_sslContext = False, sv_tasks = [], sv_log = []\<rparr>"

definition sv_effect :: "sv_effect \<Rightarrow> server \<Rightarrow> server" where
  "sv_effect e s = s\<lparr>sv_log := sv_log s @ [e]\<rparr>"

section \<open>Setting up\<close>

text \<open>\<open>loops\<close> are the loops of the new pool, of the given pool, or the given loops.\<close>

definition setIoLoopNum :: "nat list \<Rightarrow> server \<Rightarrow> server res" where
  "setIoLoopNum loops s = assert_then (\<not> sv_started s)
     (Inr (s\<lparr>sv_pool := True, sv_ioLoops := loops, sv_numIoLoops := length loops\<rparr>))"

definition setIoLoopThreadPool :: "nat list \<Rightarrow> server \<Rightarrow> server res" where
  "setIoLoopThreadPool loops s = assert_then (0 < length loops) (assert_then (\<not> sv_started s)
     (Inr (s\<lparr>sv_pool := True, sv_ioLoops := loops, sv_numIoLoops := length loops\<rparr>)))"

definition setIoLoops :: "nat list \<Rightarrow> server \<Rightarrow> server res" where
  "setIoLoops loops s = assert_then (loops \<noteq> []) (assert_then (\<not> sv_started s)
     (Inr (s\<lparr>sv_ioLoops := loops, sv_numIoLoops := length loops, sv_pool := False\<rparr>)))"

definition kickoffIdleConnections :: "nat \<Rightarrow> server \<Rightarrow> server res" where
  "kickoffIdleConnections timeout s =
     assert_then (\<not> sv_started s) (Inr (s\<lparr>sv_idleTimeout := timeout\<rparr>))"

definition server_getLoop :: "server \<Rightarrow> nat" where
  "server_getLoop s = sv_loop s"

definition server_getIoLoops :: "server \<Rightarrow> nat list" where
  "server_getIoLoops s = sv_ioLoops s"

text \<open>\<open>enableSSL\<close> and \<open>reloadSSL\<close>: the exception of \<open>newSSLContext\<close> leaves the policy set.\<close>

definition enableSSL :: "server \<Rightarrow> server \<times> unit res" where
  "enableSSL s =
     (let s = s\<lparr>sv_policy := True\<rparr> in
      case newSSLContext of Inl e \<Rightarrow> (s, Inl e) | Inr c \<Rightarrow> (s\<lparr>sv_sslContext := True\<rparr>, Inr ()))"

definition reloadSSL :: "server \<Rightarrow> server \<times> unit res" where
  "reloadSSL s =
     (if sv_policy s
      then case newSSLContext of Inl e \<Rightarrow> (s, Inl e) | Inr c \<Rightarrow> (s\<lparr>sv_sslContext := True\<rparr>, Inr ())
      else (s, Inr ()))"

text \<open>
  \<open>start\<close> in the loop: a wheel per loop, then listening. \<open>ticks\<close> is the number of ticks the wheel's
  constructor computes from the timeout in \<open>float\<close>.
\<close>

fun make_wheels :: "(nat \<Rightarrow> nat) \<Rightarrow> nat list \<Rightarrow> server \<Rightarrow> server res" where
  "make_wheels ticks [] s = Inr s"
| "make_wheels ticks (l # ls) s =
     bind_res (TimingWheel_new 64 (sv_idleTimeout s) (ticks (sv_idleTimeout s)) True
                 (if sv_idleTimeout s < 500 then sv_idleTimeout s + 1 else 100))
       (\<lambda>w. make_wheels ticks ls (s\<lparr>sv_wheels := (sv_wheels s)(l \<mapsto> w)\<rparr>))"

definition TcpServer_start :: "(nat \<Rightarrow> nat) \<Rightarrow> server \<Rightarrow> server res" where
  "TcpServer_start ticks s =
     assert_then (\<not> sv_started s)
       (let s = s\<lparr>sv_started := True\<rparr> in
        bind_res (if 0 < sv_idleTimeout s then make_wheels ticks (sv_ioLoops s) s else Inr s)
          (\<lambda>s. if sv_acceptor s then Inr (sv_effect SvListen s) else Inl OutOfBounds))"

section \<open>Connections\<close>

text \<open>
  \<open>newConnection\<close>: \<open>ioLoops_[nextLoopIdx_]\<close> outside the vector is an invalid access. The
  connection gets the next number.
\<close>

definition TcpServer_newConnection :: "nat \<Rightarrow> server \<Rightarrow> server res" where
  "TcpServer_newConnection me s =
     (if me \<noteq> sv_loop s then Inl Exited
      else if length (sv_ioLoops s) \<le> sv_nextLoopIdx s then Inl OutOfBounds
      else
        (let ioLoop = sv_ioLoops s ! sv_nextLoopIdx s;
             s = s\<lparr>sv_nextLoopIdx := Suc (sv_nextLoopIdx s)\<rparr>;
             s = (if sv_numIoLoops s \<le> sv_nextLoopIdx s then s\<lparr>sv_nextLoopIdx := 0\<rparr> else s);
             conn = sv_next s
         in assert_then (sv_policy s \<longrightarrow> sv_sslContext s)
              (let s = s\<lparr>sv_next := Suc conn, sv_connLoop := (sv_connLoop s)(conn := ioLoop)\<rparr> in
               assert_then (0 < sv_idleTimeout s \<longrightarrow> sv_wheels s ioLoop \<noteq> None)
                 (let s = (if 0 < sv_idleTimeout s then sv_effect (SvKickOff conn (sv_idleTimeout s)) s
                           else s)
                  in Inr (sv_effect (SvEstablish conn ioLoop)
                            (s\<lparr>sv_connSet := insert conn (sv_connSet s)\<rparr>))))))"

definition handleCloseInLoop :: "nat \<Rightarrow> server \<Rightarrow> server res" where
  "handleCloseInLoop conn s =
     assert_then (conn \<in> sv_connSet s)
       (Inr (sv_effect (SvDestroy conn (sv_connLoop s conn)) (s\<lparr>sv_connSet := sv_connSet s - {conn}\<rparr>)))"

text \<open>\<open>connectionClosed\<close>, called by the connection in the thread of its own loop.\<close>

definition connectionClosed :: "nat \<Rightarrow> nat \<Rightarrow> server \<Rightarrow> server res" where
  "connectionClosed me conn s =
     (if me = sv_loop s then handleCloseInLoop conn s else Inr (s\<lparr>sv_tasks := sv_tasks s @ [conn]\<rparr>))"

section \<open>Stopping\<close>

text \<open>
  \<open>stop\<close>. In another thread it waits for a promise the queued function never keeps. In the loop:
  \<open>conns\<close> are the connections in the order of the set; \<open>lastOwner\<close> says whether the server is the
  last owner of its pool, whose loops end with it, so that the wheels' loops do not exist any
  more. The wheels are destroyed in their loops.
\<close>

definition TcpServer_stop :: "bool \<Rightarrow> nat list \<Rightarrow> bool \<Rightarrow> server \<Rightarrow> server res" where
  "TcpServer_stop inLoop conns lastOwner s =
     (if \<not> inLoop then Inl Blocked
      else
        (let s = s\<lparr>sv_acceptor := False\<rparr>;
             s = fold (\<lambda>c. sv_effect (SvForceClose c)) conns s;
             pool = sv_pool s;
             s = s\<lparr>sv_pool := False\<rparr>
         in if pool \<and> lastOwner \<and> (\<exists>l\<in>set (sv_ioLoops s). sv_wheels s l \<noteq> None) then Inl OutOfBounds
            else Inr (s\<lparr>sv_wheels := (\<lambda>_. None)\<rparr>)))"

section \<open>Runs\<close>

text \<open>
  A server at work: connections come in; each open connection closes once, in the thread of its
  loop; the queued removals run. The last component are the connections not yet closed.
\<close>

inductive sv_reach :: "server \<Rightarrow> server \<Rightarrow> nat set \<Rightarrow> bool" for s0 where
  sv_begin: "sv_reach s0 s0 {}"
| sv_accept: "sv_reach s0 s live \<Longrightarrow> TcpServer_newConnection (sv_loop s) s = Inr s' \<Longrightarrow>
    sv_reach s0 s' (insert (sv_next s) live)"
| sv_close: "sv_reach s0 s live \<Longrightarrow> conn \<in> live \<Longrightarrow>
    connectionClosed (sv_connLoop s conn) conn s = Inr s' \<Longrightarrow> sv_reach s0 s' (live - {conn})"
| sv_task: "sv_reach s0 s live \<Longrightarrow> sv_tasks s = conn # ts \<Longrightarrow>
    handleCloseInLoop conn (s\<lparr>sv_tasks := ts\<rparr>) = Inr s' \<Longrightarrow> sv_reach s0 s' live"

end
