(* ===== verification/TcpServerProps.thy ===== *)
theory TcpServerProps
  imports TcpServer
begin

text \<open>
  Properties of the server: the spreading of connections over the loops, the set of connections
  and the end of each, and three situations in which starting or stopping fails.
\<close>

fun destroyed :: "sv_effect list \<Rightarrow> (nat \<times> nat) list" where
  "destroyed [] = []"
| "destroyed (SvDestroy c l # es) = (c, l) # destroyed es"
| "destroyed (e # es) = destroyed es"

lemma destroyed_append [simp]: "destroyed (es @ fs) = destroyed es @ destroyed fs"
  by (induction es rule: destroyed.induct) auto

lemma sv_effect_fields [simp]:
  "sv_loop (sv_effect e s) = sv_loop s" "sv_connSet (sv_effect e s) = sv_connSet s"
  "sv_connLoop (sv_effect e s) = sv_connLoop s" "sv_next (sv_effect e s) = sv_next s"
  "sv_idleTimeout (sv_effect e s) = sv_idleTimeout s" "sv_wheels (sv_effect e s) = sv_wheels s"
  "sv_ioLoops (sv_effect e s) = sv_ioLoops s" "sv_nextLoopIdx (sv_effect e s) = sv_nextLoopIdx s"
  "sv_numIoLoops (sv_effect e s) = sv_numIoLoops s" "sv_policy (sv_effect e s) = sv_policy s"
  "sv_tasks (sv_effect e s) = sv_tasks s" "sv_log (sv_effect e s) = sv_log s @ [e]"
  "sv_started (sv_effect e s) = sv_started s"
  by (simp_all add: sv_effect_def)

text \<open>A server set up and started, with no connection yet.\<close>

definition sv_ready :: "server \<Rightarrow> bool" where
  "sv_ready s \<longleftrightarrow> sv_ioLoops s \<noteq> [] \<and> sv_numIoLoops s = length (sv_ioLoops s) \<and> sv_nextLoopIdx s = 0 \<and>
     sv_next s = 0 \<and> sv_connSet s = {} \<and> sv_tasks s = [] \<and> \<not> sv_policy s \<and> destroyed (sv_log s) = [] \<and>
     (0 < sv_idleTimeout s \<longrightarrow> (\<forall>l\<in>set (sv_ioLoops s). sv_wheels s l \<noteq> None))"

definition sv_conf :: "server \<Rightarrow> server \<Rightarrow> bool" where
  "sv_conf s0 s \<longleftrightarrow> sv_loop s = sv_loop s0 \<and> sv_ioLoops s = sv_ioLoops s0 \<and>
     sv_numIoLoops s = length (sv_ioLoops s0) \<and> \<not> sv_policy s \<and>
     sv_idleTimeout s = sv_idleTimeout s0 \<and> sv_wheels s = sv_wheels s0 \<and>
     sv_nextLoopIdx s = sv_next s mod length (sv_ioLoops s0)"

definition spread :: "server \<Rightarrow> server \<Rightarrow> bool" where
  "spread s0 s \<longleftrightarrow> (\<forall>c. c < sv_next s \<longrightarrow> sv_connLoop s c = sv_ioLoops s0 ! (c mod length (sv_ioLoops s0)))"

definition gone :: "server \<Rightarrow> nat set" where
  "gone s = fst ` set (destroyed (sv_log s))"

definition sv_inv :: "server \<Rightarrow> server \<Rightarrow> nat set \<Rightarrow> bool" where
  "sv_inv s0 s live \<longleftrightarrow> sv_conf s0 s \<and> spread s0 s \<and>
     sv_connSet s = live \<union> set (sv_tasks s) \<and> distinct (sv_tasks s) \<and> live \<inter> set (sv_tasks s) = {} \<and>
     sv_connSet s \<union> gone s = {..< sv_next s} \<and> sv_connSet s \<inter> gone s = {} \<and>
     distinct (map fst (destroyed (sv_log s))) \<and>
     (\<forall>x\<in>set (destroyed (sv_log s)). snd x = sv_connLoop s (fst x))"

lemma sv_invD:
  assumes "sv_inv s0 s live"
  shows "sv_conf s0 s" "spread s0 s" "sv_connSet s = live \<union> set (sv_tasks s)" "distinct (sv_tasks s)"
    "live \<inter> set (sv_tasks s) = {}" "sv_connSet s \<union> gone s = {..< sv_next s}"
    "sv_connSet s \<inter> gone s = {}" "distinct (map fst (destroyed (sv_log s)))"
    "\<And>x. x \<in> set (destroyed (sv_log s)) \<Longrightarrow> snd x = sv_connLoop s (fst x)"
  using assms unfolding sv_inv_def by blast+

lemma sv_inv_ready: "sv_ready s0 \<Longrightarrow> sv_inv s0 s0 {}"
  by (simp add: sv_ready_def sv_inv_def sv_conf_def spread_def gone_def)

lemma mod_next:
  assumes "0 < n"
  shows "(if n \<le> Suc (k mod n) then 0 else Suc (k mod n)) = Suc k mod n"
  using assms mod_less_divisor [OF assms, of k] by (auto simp: mod_Suc)

lemma gone_effect: "destroyed [e] = [] \<Longrightarrow> gone (sv_effect e s) = gone s"
  by (simp add: gone_def)

lemma newConnection_inv:
  assumes inv: "sv_inv s0 s live"
    and s': "sv_conf s0 s'" "sv_next s' = Suc (sv_next s)" "sv_tasks s' = sv_tasks s"
      "sv_connLoop s' = (sv_connLoop s)(sv_next s := sv_ioLoops s0 ! (sv_next s mod length (sv_ioLoops s0)))"
      "sv_connSet s' = insert (sv_next s) (sv_connSet s)" "destroyed (sv_log s') = destroyed (sv_log s)"
  shows "sv_inv s0 s' (insert (sv_next s) live)"
proof -
  note D = sv_invD [OF inv]
  have old: "c \<in> sv_connSet s \<or> c \<in> gone s \<Longrightarrow> c < sv_next s" for c using D(6) by auto
  have gone: "gone s' = gone s" by (simp add: gone_def s'(6))
  have "sv_next s \<notin> set (sv_tasks s)" using old [of "sv_next s"] D(3) by auto
  moreover have "sv_connSet s' \<union> gone s' = {..< sv_next s'}"
    using D(6) by (simp add: s' gone lessThan_Suc)
  moreover have "sv_connSet s' \<inter> gone s' = {}" using D(7) old [of "sv_next s"] by (auto simp: s' gone)
  moreover have "snd x = sv_connLoop s' (fst x)" if "x \<in> set (destroyed (sv_log s'))" for x
    using that D(9) [of x] old [of "fst x"] by (auto simp: s' gone_def)
  moreover have "spread s0 s'" using D(2) by (simp add: spread_def s' less_Suc_eq)
  ultimately show ?thesis using D(3,4,5,8) s' unfolding sv_inv_def by auto
qed

lemma newConnection_result:
  assumes "sv_inv s0 s live" "sv_ready s0"
  shows "\<exists>s'. TcpServer_newConnection (sv_loop s) s = Inr s' \<and> sv_inv s0 s' (insert (sv_next s) live)"
proof -
  let ?n = "length (sv_ioLoops s0)" and ?c = "sv_next s"
  let ?l = "sv_ioLoops s0 ! (?c mod ?n)"
  note conf = sv_invD(1) [OF assms(1), unfolded sv_conf_def]
  have "0 < ?n" using assms(2) by (simp add: sv_ready_def)
  from this mod_less_divisor [OF this, of ?c] have n: "0 < ?n" "?c mod ?n < ?n" "\<not> ?n \<le> ?c mod ?n"
    by (simp_all only: not_le)
  have wheel: "0 < sv_idleTimeout s0 \<longrightarrow> sv_wheels s0 ?l \<noteq> None"
    using assms(2) nth_mem [OF n(2)] by (auto simp: sv_ready_def)
  let ?s = "s\<lparr>sv_nextLoopIdx := Suc ?c mod ?n, sv_next := Suc ?c, sv_connLoop := (sv_connLoop s)(?c := ?l)\<rparr>"
  let ?t = "if 0 < sv_idleTimeout s0 then sv_effect (SvKickOff ?c (sv_idleTimeout s0)) ?s else ?s"
  let ?u = "sv_effect (SvEstablish ?c ?l) (?t\<lparr>sv_connSet := insert ?c (sv_connSet ?t)\<rparr>)"
  have idx: "(if ?n \<le> Suc (?c mod ?n)
      then s\<lparr>sv_nextLoopIdx := Suc (?c mod ?n), sv_nextLoopIdx := 0\<rparr>
      else s\<lparr>sv_nextLoopIdx := Suc (?c mod ?n)\<rparr>) = s\<lparr>sv_nextLoopIdx := Suc ?c mod ?n\<rparr>"
    using mod_next [OF n(1), of ?c] by (simp split: if_splits)
  have run: "TcpServer_newConnection (sv_loop s) s = Inr ?u"
    using conf n(1,3) wheel idx unfolding TcpServer_newConnection_def Let_def by (simp split: if_splits)
  have "sv_inv s0 ?u (insert ?c live)"
    by (rule newConnection_inv [OF assms(1)]) (use conf in \<open>simp_all add: sv_conf_def\<close>)
  with run show ?thesis by blast
qed

lemma handleClose_result:
  assumes inv: "sv_inv s0 s live" and conn: "conn \<in> sv_connSet s"
    and rest: "sv_connSet s - {conn} = live' \<union> set ts" "distinct ts" "live' \<inter> set ts = {}"
  shows "\<exists>s'. handleCloseInLoop conn (s\<lparr>sv_tasks := ts\<rparr>) = Inr s' \<and> sv_inv s0 s' live'"
proof -
  note D = sv_invD [OF inv]
  let ?s = "sv_effect (SvDestroy conn (sv_connLoop s conn))
    (s\<lparr>sv_tasks := ts, sv_connSet := sv_connSet s - {conn}\<rparr>)"
  have gone: "gone ?s = insert conn (gone s)" by (simp add: gone_def)
  have new: "conn \<notin> gone s" using D(7) conn by auto
  have "sv_connSet ?s \<union> gone ?s = {..< sv_next ?s}" using D(6) conn by (auto simp: gone)
  moreover have "sv_connSet ?s \<inter> gone ?s = {}" using D(7) by (auto simp: gone)
  moreover have "distinct (map fst (destroyed (sv_log ?s)))" using D(8) new by (simp add: gone_def)
  moreover have "snd x = sv_connLoop ?s (fst x)" if "x \<in> set (destroyed (sv_log ?s))" for x
    using that D(9) [of x] by auto
  moreover have "sv_conf s0 ?s" "spread s0 ?s" using D(1,2) by (simp_all add: sv_conf_def spread_def)
  ultimately have "sv_inv s0 ?s live'" using rest unfolding sv_inv_def by simp
  then show ?thesis using conn by (simp add: handleCloseInLoop_def)
qed

lemma task_result:
  assumes "sv_inv s0 s live" "sv_tasks s = conn # ts"
  shows "\<exists>s'. handleCloseInLoop conn (s\<lparr>sv_tasks := ts\<rparr>) = Inr s' \<and> sv_inv s0 s' live"
  by (rule handleClose_result [OF assms(1)]) (use sv_invD(3-5) [OF assms(1)] assms(2) in auto)

lemma close_result:
  assumes "sv_inv s0 s live" "conn \<in> live"
  shows "\<exists>s'. connectionClosed me conn s = Inr s' \<and> sv_inv s0 s' (live - {conn})"
proof (cases "me = sv_loop s")
  case True
  have "\<exists>s'. handleCloseInLoop conn (s\<lparr>sv_tasks := sv_tasks s\<rparr>) = Inr s' \<and> sv_inv s0 s' (live - {conn})"
    by (rule handleClose_result [OF assms(1)]) (use sv_invD(3-5) [OF assms(1)] assms(2) in auto)
  with True show ?thesis by (simp add: connectionClosed_def)
next
  case False
  have "sv_inv s0 (s\<lparr>sv_tasks := sv_tasks s @ [conn]\<rparr>) (live - {conn})"
    using assms unfolding sv_inv_def by (auto simp: sv_conf_def spread_def gone_def)
  with False show ?thesis by (simp add: connectionClosed_def)
qed

lemma sv_reach_inv: "sv_reach s0 s live \<Longrightarrow> sv_ready s0 \<Longrightarrow> sv_inv s0 s live"
proof (induction rule: sv_reach.induct)
  case sv_begin
  then show ?case by (rule sv_inv_ready)
next
  case (sv_accept s live s')
  then show ?case using newConnection_result [of s0 s live] by auto
next
  case (sv_close s live conn s')
  then show ?case using close_result [of s0 s live conn "sv_connLoop s conn"] by auto
next
  case (sv_task s live conn ts s')
  then show ?case using task_result [of s0 s live conn ts] by auto
qed

text \<open>
  C21. A started server through any sequence of connections, closings and queued removals: the
  k-th connection lives in loop \<open>k mod n\<close> of the server's \<open>n\<close> loops; the set holds exactly the
  connections not yet closed or waiting for their removal; each of the others has been given to
  its own loop for destruction, once; and no next step can fail: neither a new connection nor
  a closing nor a removal meets an assertion.
\<close>

theorem server_connections:
  assumes "sv_ready s0" "sv_reach s0 s live"
  shows "(\<forall>c. c < sv_next s \<longrightarrow> sv_connLoop s c = sv_ioLoops s0 ! (c mod length (sv_ioLoops s0))) \<and>
    sv_connSet s = live \<union> set (sv_tasks s) \<and>
    distinct (map fst (destroyed (sv_log s))) \<and>
    set (destroyed (sv_log s)) = (\<lambda>c. (c, sv_connLoop s c)) ` ({..< sv_next s} - sv_connSet s) \<and>
    (\<exists>s'. TcpServer_newConnection (sv_loop s) s = Inr s') \<and>
    (\<forall>c\<in>live. \<exists>s'. connectionClosed (sv_connLoop s c) c s = Inr s') \<and>
    (\<forall>c ts. sv_tasks s = c # ts \<longrightarrow> (\<exists>s'. handleCloseInLoop c (s\<lparr>sv_tasks := ts\<rparr>) = Inr s'))"
proof -
  have inv: "sv_inv s0 s live" by (rule sv_reach_inv [OF assms(2,1)])
  note D = sv_invD [OF inv]
  have dom: "gone s = {..< sv_next s} - sv_connSet s" using D(6,7) by auto
  have "set (destroyed (sv_log s)) = (\<lambda>c. (c, sv_connLoop s c)) ` gone s"
    using D(9) by (force simp: gone_def image_image)
  then show ?thesis
    using D(2,3,8) newConnection_result [OF inv assms(1)] close_result [OF inv] task_result [OF inv]
    unfolding dom spread_def by meson
qed

section \<open>Starting and stopping\<close>

text \<open>A timeout of one second aborts the start: the wheel wants more than one.\<close>

lemma idle_timeout_one_aborts:
  assumes "sv_idleTimeout s = 1" "sv_ioLoops s \<noteq> []" "\<not> sv_started s"
  shows "TcpServer_start ticks s = Inl AssertFailed"
  using assms by (cases "sv_ioLoops s") (simp_all add: TcpServer_start_def TimingWheel_new_def)

text \<open>A policy set by \<open>enableSSL\<close>, which throws here, makes the next connection abort.\<close>

lemma enableSSL_aborts:
  assumes "sv_nextLoopIdx s < length (sv_ioLoops s)" "\<not> sv_sslContext s"
  shows "snd (enableSSL s) = Inl RuntimeError \<and>
    TcpServer_newConnection (sv_loop s) (fst (enableSSL s)) = Inl AssertFailed"
  using assms by (simp add: enableSSL_def newSSLContext_def TcpServer_newConnection_def Let_def)

text \<open>
  Stopping: from another thread it never returns; in the loop, with idle connections kicked off
  and the pool the server's own, the wheels are looked up in loops that are gone.
\<close>

lemma stop_failures:
  "TcpServer_stop False conns lastOwner s = Inl Blocked"
  "sv_pool s \<Longrightarrow> l \<in> set (sv_ioLoops s) \<Longrightarrow> sv_wheels s l \<noteq> None \<Longrightarrow>
   TcpServer_stop True conns True s = Inl OutOfBounds"
proof -
  have f: "sv_ioLoops (fold (\<lambda>c. sv_effect (SvForceClose c)) cs t) = sv_ioLoops t"
    "sv_wheels (fold (\<lambda>c. sv_effect (SvForceClose c)) cs t) = sv_wheels t"
    "sv_pool (fold (\<lambda>c. sv_effect (SvForceClose c)) cs t) = sv_pool t" for cs t
    by (induction cs arbitrary: t) (simp_all add: sv_effect_def)
  show "TcpServer_stop False conns lastOwner s = Inl Blocked" by (simp add: TcpServer_stop_def)
  assume "sv_pool s" "l \<in> set (sv_ioLoops s)" "sv_wheels s l \<noteq> None"
  then show "TcpServer_stop True conns True s = Inl OutOfBounds"
    by (auto simp: TcpServer_stop_def Let_def f)
qed

section \<open>A concrete server\<close>

text \<open>A server in loop 1 with two loops, 2 and 3; two connections; the second one closes.\<close>

definition sample_server :: server where
  "sample_server = (TcpServer_new 1)\<lparr>sv_ioLoops := [2, 3], sv_numIoLoops := 2, sv_pool := True\<rparr>"

definition sample_serving :: server where
  "sample_serving = sample_server\<lparr>sv_next := 2, sv_nextLoopIdx := 0, sv_connSet := {0, 1},
     sv_connLoop := (\<lambda>_. 0)(0 := 2, 1 := 3), sv_tasks := [1],
     sv_log := [SvEstablish 0 2, SvEstablish 1 3]\<rparr>"

lemma sample_server_setup: "setIoLoopNum [2, 3] (TcpServer_new 1) = Inr sample_server"
  by (simp add: setIoLoopNum_def TcpServer_new_def sample_server_def)

lemma sample_server_ready: "sv_ready sample_server"
  by (simp add: sv_ready_def sample_server_def TcpServer_new_def)

lemmas sv_eval = sample_server_def TcpServer_new_def TcpServer_newConnection_def sv_effect_def
  connectionClosed_def sample_serving_def Let_def

lemma sample_serving_reach: "sv_reach sample_server sample_serving {0}"
proof -
  let ?s1 = "sample_server\<lparr>sv_next := 1, sv_nextLoopIdx := 1, sv_connSet := {0},
     sv_connLoop := (\<lambda>_. 0)(0 := 2), sv_log := [SvEstablish 0 2]\<rparr>"
  let ?s2 = "sample_serving\<lparr>sv_tasks := []\<rparr>"
  have "sv_reach sample_server ?s1 (insert (sv_next sample_server) {})"
    by (rule sv_accept [OF sv_begin]) (simp add: sv_eval)
  then have "sv_reach sample_server ?s2 (insert (sv_next ?s1) (insert (sv_next sample_server) {}))"
    by (rule sv_accept) (simp add: sv_eval insert_commute)
  then have "sv_reach sample_server ?s2 {1, 0}" by (simp add: sample_server_def TcpServer_new_def)
  then have "sv_reach sample_server sample_serving ({1, 0} - {1})"
    by (rule sv_close) (simp_all add: sv_eval)
  moreover have "{1, 0} - {1} = {0 :: nat}" by auto
  ultimately show ?thesis by simp
qed

theorem server_connections_witness:
  "sv_connLoop sample_serving 1 = [2, 3] ! (1 mod 2) \<and> sv_connSet sample_serving = {0} \<union> {1} \<and>
   distinct (map fst (destroyed (sv_log sample_serving)))"
  using server_connections [OF sample_server_ready sample_serving_reach]
  by (simp add: sample_serving_def sample_server_def)

end
