(* ===== verification/TcpClient.thy ===== *)
theory TcpClient
  imports ConnectorProps TcpConnection
begin

text \<open>
  The client of src/xiaoNet/net/TcpClient.h and TcpClient.cpp on top of the connector: one
  connection at a time, made by the connector's callback. Connections are numbers, what the
  client asks of them is a log. Callbacks of the user other than the connection error callback
  do not change the client's state and are in ConnectionSetup. In the loop thread throughout.
\<close>

section \<open>State\<close>

datatype cl_effect =
  ClEstablish nat int | ClDestroy nat | ClShutdown nat | ClReplaceClose nat | ClForceClose nat
  | ClOrphan nat

record client =
  cl_connector :: connector
  cl_errorCb :: bool
  cl_retry :: bool
  cl_connect :: bool
  cl_connection :: "nat option"
  cl_next :: nat
  cl_policy :: bool
  cl_sslContext :: bool
  cl_log :: "cl_effect list"

definition TcpClient_new :: client where
  "TcpClient_new = \<lparr>cl_connector = Connector_new False, cl_errorCb = False, cl_retry = False,
     cl_connect = True, cl_connection = None, cl_next = 0, cl_policy = False, cl_sslContext = False,
     cl_log = []\<rparr>"

definition cl_effect :: "cl_effect \<Rightarrow> client \<Rightarrow> client" where
  "cl_effect e c = c\<lparr>cl_log := cl_log c @ [e]\<rparr>"

definition enableRetry :: "client \<Rightarrow> client" where
  "enableRetry c = c\<lparr>cl_retry := True\<rparr>"

definition setConnectionErrorCallback :: "client \<Rightarrow> client" where
  "setConnectionErrorCallback c = c\<lparr>cl_errorCb := True\<rparr>"

definition client_getConnection :: "client \<Rightarrow> nat option" where
  "client_getConnection c = cl_connection c"

definition client_retry :: "client \<Rightarrow> bool" where
  "client_retry c = cl_retry c"

definition TcpClient_setSockOptCallback :: "client \<Rightarrow> client" where
  "TcpClient_setSockOptCallback c = c\<lparr>cl_connector := setSockOptCb (cl_connector c)\<rparr>"

definition TcpClient_enableSSL :: "client \<Rightarrow> client \<times> unit res" where
  "TcpClient_enableSSL c =
     (let c = c\<lparr>cl_policy := True\<rparr> in
      case newSSLContext of Inl e \<Rightarrow> (c, Inl e) | Inr x \<Rightarrow> (c\<lparr>cl_sslContext := True\<rparr>, Inr ()))"

section \<open>Operations\<close>

text \<open>\<open>connect()\<close>; \<open>fd\<close> and \<open>err\<close> are the socket and the result of the system call.\<close>

definition TcpClient_connect :: "int \<Rightarrow> int \<Rightarrow> client \<Rightarrow> client res" where
  "TcpClient_connect fd err c =
     (let c = c\<lparr>cl_connector := setErrorCb (cl_connector c), cl_connect := True\<rparr> in
      bind_res (Connector_start fd err (cl_connector c)) (\<lambda>cn. Inr (c\<lparr>cl_connector := cn\<rparr>)))"

definition TcpClient_disconnect :: "client \<Rightarrow> client" where
  "TcpClient_disconnect c =
     (let c = c\<lparr>cl_connect := False\<rparr> in
      case cl_connection c of None \<Rightarrow> c | Some conn \<Rightarrow> cl_effect (ClShutdown conn) c)"

definition TcpClient_stop :: "client \<Rightarrow> client" where
  "TcpClient_stop c = c\<lparr>cl_connect := False, cl_connector := Connector_stop True (cl_connector c)\<rparr>"

text \<open>A connection the client had is dropped with its last reference.\<close>

definition TcpClient_newConnection :: "int \<Rightarrow> client \<Rightarrow> client res" where
  "TcpClient_newConnection sockfd c =
     assert_then (cl_policy c \<longrightarrow> cl_sslContext c)
       (if cl_policy c then Inl RuntimeError
        else
          (let conn = cl_next c;
               c = (case cl_connection c of None \<Rightarrow> c | Some old \<Rightarrow> cl_effect (ClOrphan old) c)
           in Inr (cl_effect (ClEstablish conn sockfd)
                     (c\<lparr>cl_connection := Some conn, cl_next := Suc conn\<rparr>))))"

definition removeConnection :: "nat \<Rightarrow> client \<Rightarrow> client res" where
  "removeConnection conn c =
     assert_then (cl_connection c = Some conn)
       (let c = cl_effect (ClDestroy conn) (c\<lparr>cl_connection := None\<rparr>) in
        Inr (if cl_retry c \<and> cl_connect c
             then c\<lparr>cl_connector := Connector_restart (cl_connector c)\<rparr> else c))"

text \<open>
  The destructor: the connection gets a close callback of its own, which queues its destruction,
  and is closed.
\<close>

definition TcpClient_destroy :: "client \<Rightarrow> client" where
  "TcpClient_destroy c =
     (case cl_connection c of
        None \<Rightarrow> c\<lparr>cl_connector := Connector_stop True (cl_connector c)\<rparr>
      | Some conn \<Rightarrow> cl_effect (ClForceClose conn) (cl_effect (ClReplaceClose conn) c))"

text \<open>
  Events of the connecting socket: the connector runs its handlers and hands a new socket to
  the client.
\<close>

fun handed :: "cn_effect list \<Rightarrow> int list" where
  "handed [] = []"
| "handed (CnNewConnection fd # es) = fd # handed es"
| "handed (e # es) = handed es"

fun take_over :: "int list \<Rightarrow> client \<Rightarrow> client res" where
  "take_over [] c = Inr c"
| "take_over (fd # fds) c = bind_res (TcpClient_newConnection fd c) (take_over fds)"

definition client_event :: "(int \<Rightarrow> int) \<Rightarrow> (int \<Rightarrow> bool) \<Rightarrow> 32 word \<Rightarrow> client \<Rightarrow> client res" where
  "client_event soErr selfConnect revents c =
     bind_res (connector_event soErr selfConnect revents (cl_connector c))
       (\<lambda>cn. take_over (handed (drop (length (cn_log (cl_connector c))) (cn_log cn)))
               (c\<lparr>cl_connector := cn\<rparr>))"

section \<open>Reconnecting\<close>

lemma handed_failed [simp]:
  "handed (failed fd c) = []" "handed [CnRemove fd, CnNewConnection fd'] = [fd']"
  by (simp_all split: if_splits)

text \<open>A client waiting for its socket: a connecting connector with its channel.\<close>

definition waiting :: "int \<Rightarrow> client \<Rightarrow> bool" where
  "waiting fd c \<longleftrightarrow> cn_status (cl_connector c) = CnConnecting \<and>
     cn_channel (cl_connector c) = Some (connect_channel fd) \<and> cn_connect (cl_connector c) \<and>
     \<not> cn_retry (cl_connector c) \<and> \<not> cl_policy c"

lemma connect_waits:
  assumes "TcpClient_connect fd 0 c = Inr c'" "\<not> cn_retry (cl_connector c)" "\<not> cl_policy c"
  shows "waiting fd c' \<and> cl_connection c' = cl_connection c \<and> cl_retry c' = cl_retry c"
  using assms
  by (auto simp: TcpClient_connect_def Connector_start_def startInLoop_def Connector_connect_def
      goes_on_def connecting_def bind_res_Inr_iff assert_then_Inr_iff waiting_def connect_channel_def
      setErrorCb_def Let_def split: if_splits)

lemma writable_connects:
  assumes "waiting fd c"
  shows "\<exists>c'. client_event (\<lambda>_. 0) (\<lambda>_. False) POLLOUT c = Inr c' \<and>
    cl_connection c' = Some (cl_next c) \<and> cn_status (cl_connector c') = CnConnected \<and>
    cl_retry c' = cl_retry c \<and> cl_connect c' = cl_connect c"
proof -
  have pout: "POLLOUT AND POLLOUT \<noteq> (0 :: 32 word)" "\<not> reports_failure POLLOUT"
    by (simp_all add: poll_defs reports_failure_def)
  have cbs: "handleEvent True (setRevents POLLOUT (connect_channel fd)) = [WriteCb]"
    using connect_callbacks [of POLLOUT fd] pout by simp
  from handleWrite_result [of "cl_connector c" "connect_channel fd" "\<lambda>_. 0" "\<lambda>_. False"] assms
  obtain cn where cn: "handleWrite (\<lambda>_. 0) (\<lambda>_. False) (cl_connector c) = Inr cn"
    "cn_log cn = cn_log (cl_connector c) @ [CnRemove fd, CnNewConnection fd]" "cn_status cn = CnConnected"
    by (auto simp: waiting_def)
  then show ?thesis using assms cbs
    by (auto simp: client_event_def connector_event_def waiting_def TcpClient_newConnection_def Let_def
        cl_effect_def split: option.splits)
qed

text \<open>
  C29. A client connects once: after a connection that was made and closed, with \<open>enableRetry\<close> on,
  closing leaves the connector as it is, with no attempt under way, and another \<open>connect()\<close>
  aborts on the connector's assertion, since its status is still that of a made connection.
\<close>

theorem client_connects_once:
  assumes "TcpClient_connect fd 0 (enableRetry TcpClient_new) = Inr c1"
    and "client_event (\<lambda>_. 0) (\<lambda>_. False) POLLOUT c1 = Inr c2"
    and "cl_connection c2 = Some conn" "removeConnection conn c2 = Inr c3"
  shows "cl_connector c3 = cl_connector c2 \<and> cl_retry c3 \<and> cl_connect c3 \<and> cl_connection c3 = None \<and>
    TcpClient_connect fd' err c3 = Inl AssertFailed"
proof -
  have w: "waiting fd c1" "cl_retry c1" "cl_connect c1"
    using connect_waits [OF assms(1)] assms(1)
    by (auto simp: enableRetry_def TcpClient_new_def Connector_new_def TcpClient_connect_def
        bind_res_Inr_iff Let_def)
  from writable_connects [OF w(1)] assms(2) w(2,3)
  have c2: "cn_status (cl_connector c2) = CnConnected" "cl_retry c2" "cl_connect c2" by auto
  with assms(4) show ?thesis
    by (auto simp: removeConnection_def assert_then_Inr_iff cl_effect_def Connector_restart_def Let_def
        TcpClient_connect_def Connector_start_def startInLoop_def setErrorCb_def)
qed

theorem client_connects_once_witness:
  "\<exists>c1 c2 c3. TcpClient_connect 5 0 (enableRetry TcpClient_new) = Inr c1 \<and>
     client_event (\<lambda>_. 0) (\<lambda>_. False) POLLOUT c1 = Inr c2 \<and> removeConnection 0 c2 = Inr c3 \<and>
     TcpClient_connect 6 0 c3 = Inl AssertFailed"
proof -
  obtain c1 where c1: "TcpClient_connect 5 0 (enableRetry TcpClient_new) = Inr c1" "cl_next c1 = 0"
    by (auto simp: TcpClient_connect_def Connector_start_def startInLoop_def Connector_connect_def
      goes_on_def connecting_def setErrorCb_def enableRetry_def TcpClient_new_def Connector_new_def Let_def)
  have "waiting 5 c1"
    using connect_waits [OF c1(1)] by (simp add: enableRetry_def TcpClient_new_def Connector_new_def)
  from writable_connects [OF this] c1(2) obtain c2 where
    c2: "client_event (\<lambda>_. 0) (\<lambda>_. False) POLLOUT c1 = Inr c2" "cl_connection c2 = Some 0" by auto
  then obtain c3 where c3: "removeConnection 0 c2 = Inr c3"
    by (auto simp: removeConnection_def Let_def)
  from client_connects_once [OF c1(1) c2(1,2) c3] c1(1) c2(1) c3 show ?thesis by blast
qed

end
