(* ===== verification/Socket.thy ===== *)
theory Socket
  imports InetAddress
begin

text \<open>
  The socket wrapper of src/xiaoNet/net/inner/Socket.h and Socket.cpp, as built on Linux. The
  system calls are the fields of the record \<open>sys\<close>, a parameter that acts on a kernel of any type.
  The locale \<open>descriptor_kernel\<close> states what accept(2), open(2) and close(2) document of the
  descriptors of a process, and \<open>posix\<close> is a kernel that satisfies it.
\<close>

section \<open>System calls\<close>

datatype sockopt = TcpNoDelay | ReuseAddr | ReusePort | KeepAlive

datatype fcntl_cmd = F_GETFL | F_SETFL | F_GETFD | F_SETFD

record 'k sys =
  sys_socket :: "16 word \<Rightarrow> 'k \<Rightarrow> int \<times> 'k"
  sys_connect :: "int \<Rightarrow> sockaddr \<Rightarrow> nat \<Rightarrow> 'k \<Rightarrow> int \<times> 'k"
  sys_bind :: "int \<Rightarrow> sockaddr \<Rightarrow> nat \<Rightarrow> 'k \<Rightarrow> int \<times> 'k"
  sys_listen :: "int \<Rightarrow> 'k \<Rightarrow> int \<times> 'k"
  sys_accept :: "int \<Rightarrow> 'k \<Rightarrow> (int \<times> sockaddr) \<times> 'k"
  sys_open :: "'k \<Rightarrow> int \<times> 'k"
  sys_close :: "int \<Rightarrow> 'k \<Rightarrow> 'k"
  sys_shutdown :: "int \<Rightarrow> 'k \<Rightarrow> int \<times> 'k"
  sys_read :: "int \<Rightarrow> nat \<Rightarrow> 'k \<Rightarrow> (int \<times> byte list) \<times> 'k"
  sys_setsockopt :: "int \<Rightarrow> sockopt \<Rightarrow> int \<Rightarrow> 'k \<Rightarrow> int \<times> 'k"
  sys_so_error :: "int \<Rightarrow> 'k \<Rightarrow> int option \<times> 'k"
  sys_getsockname :: "int \<Rightarrow> 'k \<Rightarrow> sockaddr option \<times> 'k"
  sys_getpeername :: "int \<Rightarrow> 'k \<Rightarrow> sockaddr option \<times> 'k"
  sys_fcntl :: "int \<Rightarrow> fcntl_cmd \<Rightarrow> 32 word \<Rightarrow> 'k \<Rightarrow> 32 word \<times> 'k"
  sys_errno :: "'k \<Rightarrow> int"

definition sizeof_sockaddr_in :: nat where "sizeof_sockaddr_in = 16"
definition sizeof_sockaddr_in6 :: nat where "sizeof_sockaddr_in6 = 28"
definition O_NONBLOCK :: "32 word" where "O_NONBLOCK = 0x800"
definition FD_CLOEXEC :: "32 word" where "FD_CLOEXEC = 1"
definition EMFILE :: int where "EMFILE = 24"

definition zero_addr :: sockaddr where
  "zero_addr = \<lparr>sa_family = 0, sa_port = 0, sa_addr4 = 0, sa_addr6 = (0, 0, 0, 0), sa_scope = 0\<rparr>"

text \<open>What the kernel stores over a zeroed structure: 28 bytes for IPv6, 16 for IPv4.\<close>

definition stored :: "sockaddr \<Rightarrow> sockaddr" where
  "stored a = (if sa_family a = AF_INET6 then a
     else zero_addr\<lparr>sa_family := sa_family a, sa_port := sa_port a, sa_addr4 := sa_addr4 a,
            sa_addr6 := (fst (sa_addr6 a), fst (snd (sa_addr6 a)), 0, 0)\<rparr>)"

text \<open>The size both \<open>bind\<close> and \<open>connect\<close> pass.\<close>

definition addr_size :: "InetAddress \<Rightarrow> nat" where
  "addr_size a = (if isIpV6 a then sizeof_sockaddr_in6 else sizeof_sockaddr_in)"

section \<open>Operations\<close>

definition createNonblockingSocketOrDie :: "'k sys \<Rightarrow> 16 word \<Rightarrow> 'k \<Rightarrow> (int \<times> 'k) res" where
  "createNonblockingSocketOrDie ops family k =
     (let (sock, k) = sys_socket ops family k in if sock < 0 then Inl Exited else Inr (sock, k))"

definition getSocketError :: "'k sys \<Rightarrow> int \<Rightarrow> 'k \<Rightarrow> int \<times> 'k" where
  "getSocketError ops fd k =
     (case sys_so_error ops fd k of (None, k) \<Rightarrow> (sys_errno ops k, k) | (Some optval, k) \<Rightarrow> (optval, k))"

definition Socket_connect :: "'k sys \<Rightarrow> int \<Rightarrow> InetAddress \<Rightarrow> 'k \<Rightarrow> int \<times> 'k" where
  "Socket_connect ops fd addr k = sys_connect ops fd (getSockAddr addr) (addr_size addr) k"

definition getLocalAddr :: "'k sys \<Rightarrow> int \<Rightarrow> 'k \<Rightarrow> sockaddr \<times> 'k" where
  "getLocalAddr ops fd k =
     (case sys_getsockname ops fd k of (None, k) \<Rightarrow> (zero_addr, k) | (Some a, k) \<Rightarrow> (stored a, k))"

definition getPeerAddr :: "'k sys \<Rightarrow> int \<Rightarrow> 'k \<Rightarrow> sockaddr \<times> 'k" where
  "getPeerAddr ops fd k =
     (case sys_getpeername ops fd k of (None, k) \<Rightarrow> (zero_addr, k) | (Some a, k) \<Rightarrow> (stored a, k))"

definition isSelfConnect :: "'k sys \<Rightarrow> int \<Rightarrow> 'k \<Rightarrow> bool \<times> 'k" where
  "isSelfConnect ops fd k =
     (let (local, k) = getLocalAddr ops fd k; (peer, k) = getPeerAddr ops fd k in
      (if sa_family local = AF_INET
       then sa_port local = sa_port peer \<and> sa_addr4 local = sa_addr4 peer
       else if sa_family local = AF_INET6
       then sa_port local = sa_port peer \<and> sa_addr6 local = sa_addr6 peer
       else False, k))"

definition bindAddress :: "'k sys \<Rightarrow> int \<Rightarrow> InetAddress \<Rightarrow> 'k \<Rightarrow> 'k res" where
  "bindAddress ops fd addr k =
     assert_then (0 < fd)
       (let (r, k) = sys_bind ops fd (getSockAddr addr) (addr_size addr) k in
        if r = 0 then Inr k else Inl Exited)"

definition Socket_listen :: "'k sys \<Rightarrow> int \<Rightarrow> 'k \<Rightarrow> 'k res" where
  "Socket_listen ops fd k =
     assert_then (0 < fd) (let (r, k) = sys_listen ops fd k in if r < 0 then Inl Exited else Inr k)"

definition Socket_accept :: "'k sys \<Rightarrow> int \<Rightarrow> InetAddress \<Rightarrow> 'k \<Rightarrow> int \<times> InetAddress \<times> 'k" where
  "Socket_accept ops fd peer k =
     (let ((connfd, a), k) = sys_accept ops fd k in
      (connfd, if 0 \<le> connfd then setSockAddrInet6 (stored a) peer else peer, k))"

definition closeWrite :: "'k sys \<Rightarrow> int \<Rightarrow> 'k \<Rightarrow> 'k" where
  "closeWrite ops fd k = snd (sys_shutdown ops fd k)"

text \<open>The \<open>ssize_t\<close> of read(2) is returned as an \<open>int\<close>.\<close>

definition Socket_read :: "'k sys \<Rightarrow> int \<Rightarrow> 64 word \<Rightarrow> 'k \<Rightarrow> (int \<times> byte list) \<times> 'k" where
  "Socket_read ops fd len k =
     (let ((n, bytes), k) = sys_read ops fd (unat len) k
      in ((sint (word_of_int n :: 32 word), bytes), k))"

definition set_option :: "'k sys \<Rightarrow> sockopt \<Rightarrow> int \<Rightarrow> bool \<Rightarrow> 'k \<Rightarrow> 'k" where
  "set_option ops opt fd on k = snd (sys_setsockopt ops fd opt (if on then 1 else 0) k)"

definition setTcpNoDelay :: "'k sys \<Rightarrow> int \<Rightarrow> bool \<Rightarrow> 'k \<Rightarrow> 'k" where
  "setTcpNoDelay ops = set_option ops TcpNoDelay"

definition setReuseAddr :: "'k sys \<Rightarrow> int \<Rightarrow> bool \<Rightarrow> 'k \<Rightarrow> 'k" where
  "setReuseAddr ops = set_option ops ReuseAddr"

definition setReusePort :: "'k sys \<Rightarrow> int \<Rightarrow> bool \<Rightarrow> 'k \<Rightarrow> 'k" where
  "setReusePort ops = set_option ops ReusePort"

definition setKeepAlive :: "'k sys \<Rightarrow> int \<Rightarrow> bool \<Rightarrow> 'k \<Rightarrow> 'k" where
  "setKeepAlive ops = set_option ops KeepAlive"

definition setNonBlockAndCloseOnExec :: "'k sys \<Rightarrow> int \<Rightarrow> 'k \<Rightarrow> 'k" where
  "setNonBlockAndCloseOnExec ops fd k =
     (let (flags, k) = sys_fcntl ops fd F_GETFL 0 k;
          (ret, k) = sys_fcntl ops fd F_SETFL (flags OR O_NONBLOCK) k;
          (flags, k) = sys_fcntl ops fd F_GETFD 0 k;
          (ret, k) = sys_fcntl ops fd F_SETFD (flags OR FD_CLOEXEC) k
      in k)"

definition Socket_destroy :: "'k sys \<Rightarrow> int \<Rightarrow> 'k \<Rightarrow> 'k" where
  "Socket_destroy ops fd k = (if 0 \<le> fd then sys_close ops fd k else k)"

section \<open>The descriptors of the process\<close>

text \<open>
  \<open>held\<close> are the descriptors the process has open, \<open>room\<close> says that it may open another (it is
  below \<open>RLIMIT_NOFILE\<close>), \<open>backlog l\<close> counts the connections waiting at the socket \<open>l\<close>. A new
  descriptor is one that was not open; \<open>accept\<close> takes a connection from the backlog, if one waits
  and there is room, and fails with \<open>EMFILE\<close> without room; \<open>close\<close> of an open descriptor makes
  room; the other calls leave all this alone.
\<close>

locale descriptor_kernel =
  fixes ops :: "'k sys"
    and held :: "'k \<Rightarrow> int set"
    and room :: "'k \<Rightarrow> bool"
    and backlog :: "int \<Rightarrow> 'k \<Rightarrow> nat"
  assumes held_nonneg: "fd \<in> held k \<Longrightarrow> 0 \<le> fd"
    and accept_some: "sys_accept ops l k = ((r, a), k') \<Longrightarrow> 0 \<le> r \<Longrightarrow>
      r \<notin> held k \<and> held k' = insert r (held k) \<and> backlog l k = Suc (backlog l k')"
    and accept_none: "sys_accept ops l k = ((r, a), k') \<Longrightarrow> r < 0 \<Longrightarrow>
      held k' = held k \<and> room k' = room k \<and> backlog l k' = backlog l k"
    and accept_room: "sys_accept ops l k = ((r, a), k') \<Longrightarrow> room k \<Longrightarrow> 0 < backlog l k \<Longrightarrow> 0 \<le> r"
    and accept_full: "sys_accept ops l k = ((r, a), k') \<Longrightarrow> \<not> room k \<Longrightarrow>
      r < 0 \<and> sys_errno ops k' = EMFILE"
    and open_some: "sys_open ops k = (r, k') \<Longrightarrow> 0 \<le> r \<Longrightarrow>
      r \<notin> held k \<and> held k' = insert r (held k) \<and> backlog l k' = backlog l k"
    and open_none: "sys_open ops k = (r, k') \<Longrightarrow> r < 0 \<Longrightarrow>
      held k' = held k \<and> room k' = room k \<and> backlog l k' = backlog l k"
    and open_room: "sys_open ops k = (r, k') \<Longrightarrow> 0 \<le> r \<longleftrightarrow> room k"
    and socket_some: "sys_socket ops f k = (r, k') \<Longrightarrow> 0 \<le> r \<Longrightarrow>
      r \<notin> held k \<and> held k' = insert r (held k)"
    and close_held: "fd \<in> held k \<Longrightarrow>
      held (sys_close ops fd k) = held k - {fd} \<and> room (sys_close ops fd k)"
    and close_other: "fd \<notin> held k \<Longrightarrow>
      held (sys_close ops fd k) = held k \<and> room (sys_close ops fd k) = room k"
    and close_backlog: "l \<noteq> fd \<Longrightarrow> backlog l (sys_close ops fd k) = backlog l k"
    and others_held: "held (snd (sys_bind ops fd sa n k)) = held k"
      "held (snd (sys_listen ops fd k)) = held k"
      "held (snd (sys_setsockopt ops fd opt v k)) = held k"
      "held (snd (sys_getsockname ops fd k)) = held k"
begin

lemma held_close: "held (sys_close ops fd k) = held k - {fd}"
  using close_held [of fd k] close_other [of fd k] by (cases "fd \<in> held k") auto

lemma held_set_option [simp]: "held (set_option ops opt fd on k) = held k"
  by (simp add: set_option_def others_held)

lemma held_setReuseAddr [simp]: "held (setReuseAddr ops fd on k) = held k"
  "held (setReusePort ops fd on k) = held k"
  by (simp_all add: setReuseAddr_def setReusePort_def)

lemma held_bindAddress: "bindAddress ops fd addr k = Inr k' \<Longrightarrow> held k' = held k"
  using others_held(1) [of fd "getSockAddr addr" "addr_size addr" k]
  by (auto simp: bindAddress_def assert_then_Inr_iff split: prod.splits if_splits)

lemma held_Socket_listen: "Socket_listen ops fd k = Inr k' \<Longrightarrow> held k' = held k"
  using others_held(2) [of fd k]
  by (auto simp: Socket_listen_def assert_then_Inr_iff split: prod.splits if_splits)

lemma held_getLocalAddr: "getLocalAddr ops fd k = (a, k') \<Longrightarrow> held k' = held k"
  using others_held(4) [of fd k] by (auto simp: getLocalAddr_def split: prod.splits option.splits)

lemma held_create:
  assumes "createNonblockingSocketOrDie ops f k = Inr (fd, k')"
  shows "0 \<le> fd \<and> fd \<notin> held k \<and> held k' = insert fd (held k)"
  using assms socket_some [of f k fd k']
  by (auto simp: createNonblockingSocketOrDie_def split: prod.splits if_splits)

end

section \<open>A kernel\<close>

text \<open>
  Descriptors below a limit, the lowest free one first. A connection waiting at a socket is the
  address of its peer.
\<close>

record pkernel =
  pk_limit :: nat
  pk_used :: "int \<Rightarrow> bool"
  pk_backlog :: "int \<Rightarrow> sockaddr list"
  pk_errno :: int

definition pk_free :: "pkernel \<Rightarrow> int option" where
  "pk_free k = find (\<lambda>fd. \<not> pk_used k fd) [0..int (pk_limit k) - 1]"

definition pk_alloc :: "pkernel \<Rightarrow> int \<times> pkernel" where
  "pk_alloc k = (case pk_free k of
     None \<Rightarrow> (-1, k\<lparr>pk_errno := EMFILE\<rparr>)
   | Some fd \<Rightarrow> (fd, k\<lparr>pk_used := (pk_used k)(fd := True)\<rparr>))"

definition pk_accept :: "int \<Rightarrow> pkernel \<Rightarrow> (int \<times> sockaddr) \<times> pkernel" where
  "pk_accept l k = (case pk_backlog k l of
     [] \<Rightarrow> ((-1, zero_addr), k\<lparr>pk_errno := (if pk_free k = None then EMFILE else 11)\<rparr>)
   | a # as \<Rightarrow> (case pk_alloc k of (fd, k') \<Rightarrow>
       ((fd, a), if 0 \<le> fd then k'\<lparr>pk_backlog := (pk_backlog k')(l := as)\<rparr> else k')))"

definition posix :: "pkernel sys" where
  "posix = \<lparr>sys_socket = (\<lambda>f. pk_alloc), sys_connect = (\<lambda>fd a n k. (0, k)),
     sys_bind = (\<lambda>fd a n k. (0, k)), sys_listen = (\<lambda>fd k. (0, k)), sys_accept = pk_accept,
     sys_open = pk_alloc,
     sys_close = (\<lambda>fd k. k\<lparr>pk_used := (pk_used k)(fd := False)\<rparr>),
     sys_shutdown = (\<lambda>fd k. (0, k)), sys_read = (\<lambda>fd n k. ((0, []), k)),
     sys_setsockopt = (\<lambda>fd opt v k. (0, k)), sys_so_error = (\<lambda>fd k. (Some 0, k)),
     sys_getsockname = (\<lambda>fd k. (None, k)), sys_getpeername = (\<lambda>fd k. (None, k)),
     sys_fcntl = (\<lambda>fd cmd v k. (0, k)), sys_errno = pk_errno\<rparr>"

definition pk_held :: "pkernel \<Rightarrow> int set" where
  "pk_held k = {fd. 0 \<le> fd \<and> fd < int (pk_limit k) \<and> pk_used k fd}"

definition pk_room :: "pkernel \<Rightarrow> bool" where
  "pk_room k \<longleftrightarrow> pk_free k \<noteq> None"

lemma pk_free_Some: "pk_free k = Some fd \<Longrightarrow> 0 \<le> fd \<and> fd < int (pk_limit k) \<and> \<not> pk_used k fd"
  by (auto simp: pk_free_def find_Some_iff)

lemma pk_free_None: "pk_free k = None \<longleftrightarrow> (\<forall>fd. 0 \<le> fd \<and> fd < int (pk_limit k) \<longrightarrow> pk_used k fd)"
  by (auto simp: pk_free_def find_None_iff)

lemma pk_held_nonneg: "fd \<in> pk_held k \<Longrightarrow> 0 \<le> fd"
  by (simp add: pk_held_def)

lemma pk_alloc_some:
  "pk_alloc k = (r, k') \<Longrightarrow> 0 \<le> r \<Longrightarrow>
   r \<notin> pk_held k \<and> pk_held k' = insert r (pk_held k) \<and> pk_backlog k' = pk_backlog k"
  by (auto simp: pk_alloc_def pk_held_def dest: pk_free_Some split: option.splits)

lemma pk_alloc_none:
  "pk_alloc k = (r, k') \<Longrightarrow> r < 0 \<Longrightarrow>
   pk_held k' = pk_held k \<and> pk_free k' = None \<and> pk_free k = None \<and> pk_errno k' = EMFILE \<and>
   pk_backlog k' = pk_backlog k"
  by (auto simp: pk_alloc_def pk_held_def pk_free_None dest: pk_free_Some split: option.splits)

lemma pk_alloc_room: "pk_alloc k = (r, k') \<Longrightarrow> pk_free k \<noteq> None \<longleftrightarrow> 0 \<le> r"
  by (auto simp: pk_alloc_def dest: pk_free_Some split: option.splits)

lemma posix_sel [simp]:
  "sys_socket posix f = pk_alloc" "sys_open posix = pk_alloc" "sys_accept posix = pk_accept"
  "sys_close posix fd k = k\<lparr>pk_used := (pk_used k)(fd := False)\<rparr>" "sys_errno posix = pk_errno"
  "sys_bind posix fd sa n k = (0, k)" "sys_listen posix fd k = (0, k)"
  "sys_setsockopt posix fd opt v k = (0, k)" "sys_getsockname posix fd k = (None, k)"
  by (simp_all add: posix_def)

lemma pk_close_room: "fd \<in> pk_held k \<Longrightarrow> pk_free (k\<lparr>pk_used := (pk_used k)(fd := False)\<rparr>) \<noteq> None"
  by (auto simp: pk_free_None pk_held_def)

lemma pk_close_same:
  assumes "fd \<notin> pk_held k"
  shows "pk_free (k\<lparr>pk_used := (pk_used k)(fd := False)\<rparr>) = None \<longleftrightarrow> pk_free k = None"
  using assms by (auto simp: pk_free_None pk_held_def)

interpretation posix_kernel: descriptor_kernel posix pk_held pk_room "\<lambda>l k. length (pk_backlog k l)"
proof unfold_locales
  fix l k r a k' assume "sys_accept posix l k = ((r, a), k')" "0 \<le> r"
  then show "r \<notin> pk_held k \<and> pk_held k' = insert r (pk_held k) \<and>
      length (pk_backlog k l) = Suc (length (pk_backlog k' l))"
    by (auto simp: pk_accept_def pk_held_def dest!: pk_alloc_some split: list.splits prod.splits if_splits)
next
  fix l k r a k' assume "sys_accept posix l k = ((r, a), k')" "r < 0"
  then show "pk_held k' = pk_held k \<and> pk_room k' = pk_room k \<and>
      length (pk_backlog k' l) = length (pk_backlog k l)"
    by (auto simp: pk_accept_def pk_held_def pk_room_def pk_free_def dest!: pk_alloc_none
        split: list.splits prod.splits if_splits)
next
  fix l k r a k' assume "sys_accept posix l k = ((r, a), k')" "\<not> pk_room k"
  then show "r < 0 \<and> sys_errno posix k' = EMFILE"
    by (auto simp: pk_accept_def pk_room_def pk_alloc_def split: list.splits)
next
  fix l k r a k' assume "sys_accept posix l k = ((r, a), k')" "pk_room k" "0 < length (pk_backlog k l)"
  then show "0 \<le> r"
    by (auto simp: pk_accept_def pk_room_def dest: pk_alloc_room split: list.splits prod.splits if_splits)
next
  fix fd k assume "fd \<in> pk_held k"
  then show "pk_held (sys_close posix fd k) = pk_held k - {fd} \<and> pk_room (sys_close posix fd k)"
    using pk_close_room [of fd k] by (auto simp: pk_room_def pk_held_def)
next
  fix fd k assume "fd \<notin> pk_held k"
  then show "pk_held (sys_close posix fd k) = pk_held k \<and> pk_room (sys_close posix fd k) = pk_room k"
    using pk_close_same [of fd k] by (auto simp: pk_room_def pk_held_def)
qed (auto simp: pk_room_def dest: pk_alloc_some pk_alloc_none pk_alloc_room pk_held_nonneg)

end
