(* ===== verification/Acceptor.thy ===== *)
theory Acceptor
  imports Socket EpollProps
begin

text \<open>
  The listening socket of a server: src/xiaoNet/net/inner/Acceptor.h and Acceptor.cpp, over the
  system calls of Socket and the poller of its loop, in the loop thread. \<open>ac_chan\<close> is the number
  of its channel in the poller, the calls of the user's callbacks are a log; a callback is
  present or not.
\<close>

section \<open>State and operations\<close>

datatype ac_effect =
  AcBeforeListen int
| AcAfterAccept int
| AcNewConnection int InetAddress

record acceptor =
  ac_idleFd :: int
  ac_sock :: int
  ac_addr :: InetAddress
  ac_chan :: nat
  ac_newCb :: bool
  ac_beforeCb :: bool
  ac_afterCb :: bool
  ac_log :: "ac_effect list"

definition ac_effect :: "ac_effect \<Rightarrow> acceptor \<Rightarrow> acceptor" where
  "ac_effect e a = a\<lparr>ac_log := ac_log a @ [e]\<rparr>"

text \<open>The constructor, with the memory of the channel at \<open>i\<close>.\<close>

definition Acceptor_new :: "'k sys \<Rightarrow> nat \<Rightarrow> InetAddress \<Rightarrow> bool \<Rightarrow> bool \<Rightarrow> 'k \<Rightarrow> Poller \<Rightarrow>
    (acceptor \<times> 'k \<times> Poller) res" where
  "Acceptor_new ops i addr reUseAddr reUsePort k p =
     (let (idle, k) = sys_open ops k in
      bind_res (createNonblockingSocketOrDie ops (sa_family (getSockAddr addr)) k)
        (\<lambda>(sock, k).
           let p = set_chan i (Channel_new sock) p;
               k = setReuseAddr ops sock reUseAddr k;
               k = setReusePort ops sock reUsePort k
           in bind_res (bindAddress ops sock addr k)
                (\<lambda>k.
                   let p = set_chan i (setReadCallback (pl_chans p i)) p;
                       (addr, k) = (if toPort addr = 0
                         then (let (a, k) = getLocalAddr ops sock k in (InetAddress_in6 a, k))
                         else (addr, k))
                   in Inr (\<lparr>ac_idleFd = idle, ac_sock = sock, ac_addr = addr, ac_chan = i,
                            ac_newCb = False, ac_beforeCb = False, ac_afterCb = False, ac_log = []\<rparr>,
                           k, p))))"

definition setNewConnectionCallback :: "acceptor \<Rightarrow> acceptor" where
  "setNewConnectionCallback a = a\<lparr>ac_newCb := True\<rparr>"

definition setBeforeListenSockOptCallback :: "acceptor \<Rightarrow> acceptor" where
  "setBeforeListenSockOptCallback a = a\<lparr>ac_beforeCb := True\<rparr>"

definition setAfterAcceptSockOptCallback :: "acceptor \<Rightarrow> acceptor" where
  "setAfterAcceptSockOptCallback a = a\<lparr>ac_afterCb := True\<rparr>"

text \<open>The destructor, then that of the member \<open>sock_\<close>.\<close>

definition Acceptor_destroy :: "'k sys \<Rightarrow> acceptor \<Rightarrow> 'k \<Rightarrow> Poller \<Rightarrow> ('k \<times> Poller) res" where
  "Acceptor_destroy ops a k p =
     (let i = ac_chan a; p = set_chan i (disableAll (pl_chans p i)) p in
      bind_res (Channel_remove i p)
        (\<lambda>p. let k = sys_close ops (ac_idleFd a) k in Inr (Socket_destroy ops (ac_sock a) k, p)))"

definition Acceptor_listen :: "'k sys \<Rightarrow> acceptor \<Rightarrow> 'k \<Rightarrow> Poller \<Rightarrow> (acceptor \<times> 'k \<times> Poller) res" where
  "Acceptor_listen ops a k p =
     (let a = (if ac_beforeCb a then ac_effect (AcBeforeListen (ac_sock a)) a else a) in
      bind_res (Socket_listen ops (ac_sock a) k)
        (\<lambda>k. bind_res (channel_update enableReading (ac_chan a) p) (\<lambda>p. Inr (a, k, p))))"

text \<open>
  \<open>peer\<close> starts as the default address of \<open>InetAddress\<close> over memory \<open>m\<close>. \<open>errno\<close> is read after the
  line is logged.
\<close>

definition Acceptor_readCallback :: "'k sys \<Rightarrow> sockaddr \<Rightarrow> acceptor \<Rightarrow> 'k \<Rightarrow> acceptor \<times> 'k" where
  "Acceptor_readCallback ops m a k =
     (let peer = InetAddress_port m 0 False False;
          (newsock, peer, k) = Socket_accept ops (ac_sock a) peer k
      in if 0 \<le> newsock then
           (let a = (if ac_afterCb a then ac_effect (AcAfterAccept newsock) a else a) in
            if ac_newCb a then (ac_effect (AcNewConnection newsock peer) a, k)
            else (a, sys_close ops newsock k))
         else if sys_errno ops k = EMFILE then
           (let k = sys_close ops (ac_idleFd a) k;
                (idle, peer, k) = Socket_accept ops (ac_sock a) peer k;
                k = sys_close ops idle k;
                (idle, k) = sys_open ops k
            in (a\<lparr>ac_idleFd := idle\<rparr>, k))
         else (a, k))"

text \<open>An event of the listening socket.\<close>

definition acceptor_event :: "'k sys \<Rightarrow> sockaddr \<Rightarrow> 32 word \<Rightarrow> acceptor \<Rightarrow> 'k \<Rightarrow> Poller \<Rightarrow> acceptor \<times> 'k" where
  "acceptor_event ops m revents a k p =
     (if ReadCb \<in> set (handleEvent True (setRevents revents (pl_chans p (ac_chan a))))
      then Acceptor_readCallback ops m a k else (a, k))"

end
