(* ===== verification/AcceptorProps.thy ===== *)
theory AcceptorProps
  imports Acceptor
begin

text \<open>
  The descriptors of an acceptor over its life, and its behaviour at the descriptor limit. Both
  are proved in the locale \<open>descriptor_kernel\<close>, for any kernel that keeps the documented laws.
\<close>

section \<open>Lives of an acceptor\<close>

text \<open>The sockets a log hands to the new connection callback.\<close>

fun handed_fds :: "ac_effect list \<Rightarrow> int list" where
  "handed_fds [] = []"
| "handed_fds (AcNewConnection fd peer # es) = fd # handed_fds es"
| "handed_fds (e # es) = handed_fds es"

text \<open>
  \<open>base\<close> are the descriptors of the rest of the process, \<open>out\<close> the connections handed over and
  not closed yet. Steps: construction over a poller where the channel and its descriptor are not
  registered, the setters, listening, events, a connection that closes its socket, and anything
  the rest of the process does with its own descriptors and channels.
\<close>

inductive ac_reach :: "'k sys \<Rightarrow> sockaddr \<Rightarrow> ('k \<Rightarrow> int set) \<Rightarrow>
    int set \<Rightarrow> acceptor \<Rightarrow> 'k \<Rightarrow> Poller \<Rightarrow> int set \<Rightarrow> bool" for ops m held where
  ac_new: "Acceptor_new ops i addr ra rp k p = Inr (a, k', p') \<Longrightarrow> pl_inv p \<Longrightarrow>
    ch_index (pl_chans p i) = kNew \<Longrightarrow> pl_channels p (ac_sock a) = None \<Longrightarrow>
    ac_reach ops m held (held k) a k' p' {}"
| ac_set: "ac_reach ops m held base a k p out \<Longrightarrow>
    a' \<in> {setNewConnectionCallback a, setBeforeListenSockOptCallback a, setAfterAcceptSockOptCallback a} \<Longrightarrow>
    ac_reach ops m held base a' k p out"
| ac_listen: "ac_reach ops m held base a k p out \<Longrightarrow> Acceptor_listen ops a k p = Inr (a', k', p') \<Longrightarrow>
    ac_reach ops m held base a' k' p' out"
| ac_event: "ac_reach ops m held base a k p out \<Longrightarrow> acceptor_event ops m revents a k p = (a', k') \<Longrightarrow>
    ac_reach ops m held base a' k' p (out \<union> set (handed_fds (drop (length (ac_log a)) (ac_log a'))))"
| ac_client: "ac_reach ops m held base a k p out \<Longrightarrow> fd \<in> out \<Longrightarrow>
    ac_reach ops m held base a (sys_close ops fd k) p (out - {fd})"
| ac_other: "ac_reach ops m held base a k p out \<Longrightarrow> held k' = base' \<union> (held k - base) \<Longrightarrow>
    base' \<inter> (held k - base) = {} \<Longrightarrow> pl_inv p' \<Longrightarrow> pl_chans p' (ac_chan a) = pl_chans p (ac_chan a) \<Longrightarrow>
    pl_channels p' (ac_sock a) = pl_channels p (ac_sock a) \<Longrightarrow>
    ac_reach ops m held base' a k' p' out"

text \<open>Who owns what: the four groups are disjoint and make up the descriptors of the process.\<close>

definition idle_set :: "acceptor \<Rightarrow> int set" where
  "idle_set a = (if 0 \<le> ac_idleFd a then {ac_idleFd a} else {})"

definition owns :: "int set \<Rightarrow> acceptor \<Rightarrow> int set \<Rightarrow> int set \<Rightarrow> bool" where
  "owns base a out fds \<longleftrightarrow> fds = base \<union> {ac_sock a} \<union> idle_set a \<union> out \<and>
     0 \<le> ac_sock a \<and> ac_sock a \<notin> base \<union> idle_set a \<union> out \<and>
     idle_set a \<inter> (base \<union> out) = {} \<and> base \<inter> out = {}"

definition chan_of :: "acceptor \<Rightarrow> Poller \<Rightarrow> bool" where
  "chan_of a p \<longleftrightarrow> pl_inv p \<and> ch_fd (pl_chans p (ac_chan a)) = ac_sock a \<and>
     (ch_index (pl_chans p (ac_chan a)) \<noteq> kNew \<or> pl_channels p (ac_sock a) = None)"

lemma ac_effect_sel [simp]:
  "ac_idleFd (ac_effect e a) = ac_idleFd a" "ac_sock (ac_effect e a) = ac_sock a"
  "ac_chan (ac_effect e a) = ac_chan a" "ac_newCb (ac_effect e a) = ac_newCb a"
  "ac_afterCb (ac_effect e a) = ac_afterCb a" "ac_log (ac_effect e a) = ac_log a @ [e]"
  by (simp_all add: ac_effect_def)

lemma owns_cong:
  "ac_sock a' = ac_sock a \<Longrightarrow> ac_idleFd a' = ac_idleFd a \<Longrightarrow> owns base a' out fds = owns base a out fds"
  by (simp add: owns_def idle_set_def)

lemma owns_handed: "owns base a out fds \<Longrightarrow> r \<notin> fds \<Longrightarrow> owns base a (insert r out) (insert r fds)"
  unfolding owns_def by auto

lemma owns_idle:
  assumes "owns base a out fds" "\<And>fd. fd \<in> fds \<Longrightarrow> 0 \<le> fd" "ac_sock a' = ac_sock a"
    and "fds' = fds - {ac_idleFd a} \<union> idle_set a'" "0 \<le> ac_idleFd a' \<Longrightarrow> ac_idleFd a' \<notin> fds - {ac_idleFd a}"
  shows "owns base a' out fds'"
proof -
  have own: "fds = base \<union> {ac_sock a} \<union> idle_set a \<union> out" "0 \<le> ac_sock a"
    "ac_sock a \<notin> base \<union> idle_set a \<union> out" "idle_set a \<inter> (base \<union> out) = {}" "base \<inter> out = {}"
    using assms(1) by (simp_all add: owns_def)
  have "fds - {ac_idleFd a} = fds - idle_set a" using assms(2) by (auto simp: idle_set_def)
  also have "\<dots> = base \<union> {ac_sock a} \<union> out" using own by blast
  finally have rest: "fds - {ac_idleFd a} = base \<union> {ac_sock a} \<union> out" .
  have "idle_set a' \<inter> (base \<union> {ac_sock a} \<union> out) = {}"
    using assms(5) unfolding rest by (auto simp: idle_set_def)
  with own(2,3,5) show ?thesis unfolding owns_def assms(3,4) rest by blast
qed

lemma chan_of_cong:
  "ac_sock a' = ac_sock a \<Longrightarrow> ac_chan a' = ac_chan a \<Longrightarrow> chan_of a' p = chan_of a p"
  by (simp add: chan_of_def)

section \<open>What a callback does with descriptors\<close>

context descriptor_kernel begin

lemma Socket_accept_some:
  assumes "Socket_accept ops l peer k = (r, peer', k')" "0 \<le> r"
  shows "r \<notin> held k \<and> held k' = insert r (held k) \<and> backlog l k = Suc (backlog l k')"
  using assms accept_some [of l k r _ k'] by (auto simp: Socket_accept_def split: prod.splits)

lemma Socket_accept_none:
  assumes "Socket_accept ops l peer k = (r, peer', k')" "r < 0"
  shows "held k' = held k \<and> room k' = room k \<and> backlog l k' = backlog l k"
  using assms accept_none [of l k r _ k'] by (auto simp: Socket_accept_def split: prod.splits)

lemma Socket_accept_room:
  "Socket_accept ops l peer k = (r, peer', k') \<Longrightarrow> room k \<Longrightarrow> 0 < backlog l k \<Longrightarrow> 0 \<le> r"
  using accept_room [of l k r _ k'] by (auto simp: Socket_accept_def split: prod.splits)

lemma Socket_accept_full:
  "Socket_accept ops l peer k = (r, peer', k') \<Longrightarrow> \<not> room k \<Longrightarrow> r < 0 \<and> sys_errno ops k' = EMFILE"
  using accept_full [of l k r _ k'] by (auto simp: Socket_accept_def split: prod.splits)

text \<open>The four calls made with the spare descriptor.\<close>

lemma shed:
  assumes acc: "Socket_accept ops l peer (sys_close ops idle k) = (r, peer', k1)"
    and op: "sys_open ops (sys_close ops r k1) = (idle', k2)"
  shows "held k2 = (held k - {idle}) \<union> (if 0 \<le> idle' then {idle'} else {})"
    and "0 \<le> idle' \<Longrightarrow> idle' \<notin> held k - {idle}"
    and "idle \<in> held k \<Longrightarrow> 0 \<le> idle'"
    and "idle \<in> held k \<Longrightarrow> l \<in> held k \<Longrightarrow> l \<noteq> idle \<Longrightarrow> backlog l k2 = backlog l k - 1"
proof -
  let ?closed = "sys_close ops idle k" and ?shed = "sys_close ops r k1"
  have closed: "held ?shed = held k - {idle}"
  proof (cases "0 \<le> r")
    case True
    with Socket_accept_some [OF acc] show ?thesis by (auto simp: held_close)
  next
    case False
    then have "r \<notin> held k1" using held_nonneg by fastforce
    with Socket_accept_none [OF acc] False show ?thesis by (simp add: held_close)
  qed
  have bl: "backlog l k2 = backlog l ?shed"
    using open_some [OF op] open_none [OF op] by (cases "0 \<le> idle'") auto
  show "held k2 = (held k - {idle}) \<union> (if 0 \<le> idle' then {idle'} else {})"
    using open_some [OF op] open_none [OF op] closed by (cases "0 \<le> idle'") auto
  show "0 \<le> idle' \<Longrightarrow> idle' \<notin> held k - {idle}" using open_some [OF op] closed by auto
  assume idle: "idle \<in> held k"
  have room: "room ?shed"
  proof (cases "0 \<le> r")
    case True
    with Socket_accept_some [OF acc] close_held [of r k1] show ?thesis by auto
  next
    case False
    then have "r \<notin> held k1" using held_nonneg by fastforce
    with close_other [OF this] Socket_accept_none [OF acc] False close_held [OF idle]
    show ?thesis by auto
  qed
  then show "0 \<le> idle'" using open_room [OF op] by simp
  assume l: "l \<in> held k" "l \<noteq> idle"
  show "backlog l k2 = backlog l k - 1"
  proof (cases "0 \<le> r")
    case True
    from Socket_accept_some [OF acc True] have "r \<notin> held ?closed" "backlog l ?closed = Suc (backlog l k1)" by auto
    moreover from this l have "l \<noteq> r" by (auto simp: held_close)
    ultimately show ?thesis using close_backlog [of l r k1] close_backlog [of l idle k] l bl by simp
  next
    case False
    then have "l \<noteq> r" using held_nonneg [OF l(1)] by auto
    moreover have "backlog l ?closed = 0"
      using Socket_accept_room [OF acc] close_held [OF idle] False by (cases "backlog l ?closed") auto
    ultimately show ?thesis
      using Socket_accept_none [OF acc] False close_backlog [of l r k1] close_backlog [of l idle k] l bl
      by simp
  qed
qed

lemma readCallback_frame:
  assumes "Acceptor_readCallback ops m a k = (a', k')"
  shows "ac_sock a' = ac_sock a" "ac_chan a' = ac_chan a" "ac_newCb a' = ac_newCb a"
  using assms by (auto simp: Acceptor_readCallback_def Let_def split: prod.splits if_splits)

lemma readCallback_owns:
  assumes run: "Acceptor_readCallback ops m a k = (a', k')" and own: "owns base a out (held k)"
  shows "owns base a' (out \<union> set (handed_fds (drop (length (ac_log a)) (ac_log a')))) (held k')"
proof -
  obtain r peer k1 where acc: "Socket_accept ops (ac_sock a) (InetAddress_port m 0 False False) k = (r, peer, k1)"
    by (metis prod_cases3)
  consider (got) "0 \<le> r" | (full) "r < 0" "sys_errno ops k1 = EMFILE"
    | (failed) "r < 0" "sys_errno ops k1 \<noteq> EMFILE" by linarith
  then show ?thesis
  proof cases
    case got
    have fresh: "r \<notin> held k" "held k1 = insert r (held k)"
      using Socket_accept_some [OF acc got] by auto
    let ?a = "if ac_afterCb a then ac_effect (AcAfterAccept r) a else a"
    show ?thesis
    proof (cases "ac_newCb a")
      case True
      then have "a' = ac_effect (AcNewConnection r peer) ?a" "k' = k1"
        using run acc got by (auto simp: Acceptor_readCallback_def Let_def split: if_splits)
      then show ?thesis
        using owns_handed [OF own fresh(1)] fresh(2) owns_cong [of a' a base] by (auto split: if_splits)
    next
      case False
      then have "a' = ?a" "k' = sys_close ops r k1"
        using run acc got by (auto simp: Acceptor_readCallback_def Let_def split: if_splits)
      moreover have "held (sys_close ops r k1) = held k" using fresh by (auto simp: held_close)
      ultimately show ?thesis using own owns_cong [of a' a base] by (auto split: if_splits)
    qed
  next
    case full
    obtain r2 peer2 k2 where second: "Socket_accept ops (ac_sock a) peer (sys_close ops (ac_idleFd a) k1) = (r2, peer2, k2)"
      by (metis prod_cases3)
    obtain idle k3 where reopen: "sys_open ops (sys_close ops r2 k2) = (idle, k3)" by (metis surj_pair)
    have "a' = a\<lparr>ac_idleFd := idle\<rparr>" "k' = k3"
      using run acc full second reopen by (auto simp: Acceptor_readCallback_def Let_def)
    moreover have "held k1 = held k" using Socket_accept_none [OF acc] full by simp
    ultimately have "owns base a' out (held k')"
      using shed(1,2) [OF second reopen]
      by (intro owns_idle [OF own held_nonneg]) (auto simp: idle_set_def)
    then show ?thesis using \<open>a' = _\<close> by simp
  next
    case failed
    then have "a' = a" "k' = k1"
      using run acc by (auto simp: Acceptor_readCallback_def Let_def)
    then show ?thesis using Socket_accept_none [OF acc] failed own by simp
  qed
qed

lemma event_owns:
  assumes "acceptor_event ops m revents a k p = (a', k')" "owns base a out (held k)"
  shows "owns base a' (out \<union> set (handed_fds (drop (length (ac_log a)) (ac_log a')))) (held k') \<and>
    ac_sock a' = ac_sock a \<and> ac_chan a' = ac_chan a"
  using assms readCallback_owns [of m a k a' k' base out] readCallback_frame [of m a k a' k']
  by (auto simp: acceptor_event_def split: if_splits)

section \<open>Construction, listening, destruction\<close>

lemma new_owns:
  assumes new: "Acceptor_new ops i addr ra rp k p = Inr (a, k', p')" and inv: "pl_inv p"
    and idx: "ch_index (pl_chans p i) = kNew" and free: "pl_channels p (ac_sock a) = None"
  shows "owns (held k) a {} (held k') \<and> chan_of a p'"
proof -
  obtain idle k1 where op: "sys_open ops k = (idle, k1)" by (metis surj_pair)
  with new obtain sock k2 where sock: "createNonblockingSocketOrDie ops (sa_family (getSockAddr addr)) k1 = Inr (sock, k2)"
    by (auto simp: Acceptor_new_def bind_res_Inr_iff)
  let ?opts = "setReusePort ops sock rp (setReuseAddr ops sock ra k2)"
  from new op sock obtain k3 where bound: "bindAddress ops sock addr ?opts = Inr k3"
    and a: "ac_sock a = sock" "ac_idleFd a = idle" "ac_chan a = i" "held k' = held k3"
      "p' = set_chan i (setReadCallback (Channel_new sock)) (set_chan i (Channel_new sock) p)"
    by (auto simp: Acceptor_new_def Let_def bind_res_Inr_iff split: if_splits prod.splits
        dest: held_getLocalAddr)
  have "held k' = insert sock (held k1)" "sock \<notin> held k1" "0 \<le> sock"
    using held_bindAddress [OF bound] held_create [OF sock] a(4) by auto
  moreover have "0 \<le> idle \<and> idle \<notin> held k \<and> held k1 = insert idle (held k) \<or> idle < 0 \<and> held k1 = held k"
    using open_some [OF op] open_none [OF op] by (cases "0 \<le> idle") auto
  ultimately have "owns (held k) a {} (held k')"
    using a by (auto simp: owns_def idle_set_def)
  moreover have "pl_inv p'" unfolding a(5)
    using inv idx free a(1) pl_invD(3) [OF inv]
    unfolding pl_inv_def set_chan_def
    by (auto simp: Channel_new_def setReadCallback_def kNew_def kAdded_def)
  then have "chan_of a p'"
    using a free by (auto simp: chan_of_def Channel_new_def setReadCallback_def)
  ultimately show ?thesis ..
qed

lemma destroy_listening:
  assumes own: "owns base a out (held k)" and ch: "chan_of a p"
    and reg: "pl_channels p (ac_sock a) \<noteq> None"
  shows "\<exists>k' p'. Acceptor_destroy ops a k p = Inr (k', p') \<and> held k' = base \<union> out \<and>
    interest (pl_log p') (ac_sock a) = None"
proof -
  let ?p = "set_chan (ac_chan a) (disableAll (pl_chans p (ac_chan a))) p"
  have "ch_index (pl_chans ?p (ac_chan a)) \<noteq> kNew" "isNoneEvent (pl_chans ?p (ac_chan a))"
    using ch reg by (auto simp: chan_of_def channel_ops isNoneEvent_def)
  from Channel_remove_step [OF disableAll_step this] ch obtain p' where
    p': "Channel_remove (ac_chan a) ?p = Inr p'" "interest (pl_log p') (ac_sock a) = None"
    by (auto simp: chan_of_def channel_ops)
  let ?k = "Socket_destroy ops (ac_sock a) (sys_close ops (ac_idleFd a) k)"
  have "held ?k = held k - idle_set a - {ac_sock a}"
    using own held_nonneg [of "ac_idleFd a" k]
    by (auto simp: Socket_destroy_def held_close owns_def idle_set_def)
  also have "\<dots> = base \<union> out" using own unfolding owns_def by blast
  finally show ?thesis using p' by (simp add: Acceptor_destroy_def Let_def)
qed

end

lemma destroy_unlistened:
  assumes "chan_of a p" "pl_channels p (ac_sock a) = None"
  shows "Acceptor_destroy ops a k p = Inl AssertFailed"
  using assms by (simp add: Acceptor_destroy_def Let_def Channel_remove_def EpollPoller_removeChannel_def
      chan_of_def channel_ops)

lemma listen_chan:
  assumes run: "Acceptor_listen ops a k p = Inr (a', k', p')" and ch: "chan_of a p" and sock: "0 \<le> ac_sock a"
  shows "chan_of a p' \<and> pl_channels p' (ac_sock a) = Some (ac_chan a) \<and>
    ac_sock a' = ac_sock a \<and> ac_idleFd a' = ac_idleFd a \<and> ac_chan a' = ac_chan a"
proof -
  let ?c = "pl_chans p (ac_chan a)" and ?ev = "ch_events (pl_chans p (ac_chan a)) OR kReadEvent"
  have "bit ?ev 0" by (simp add: bit_or_iff bit_kReadEvent)
  then have ev: "?ev \<noteq> kNoneEvent" by (auto simp: kNoneEvent_def)
  from run have up: "channel_update enableReading (ac_chan a) p = Inr p'"
    and a': "a' = (if ac_beforeCb a then ac_effect (AcBeforeListen (ac_sock a)) a else a)"
    by (auto simp: Acceptor_listen_def Let_def bind_res_Inr_iff split: if_splits)
  have "channel_update (updateEvents ?ev) (ac_chan a) p = Inr p'"
    using up by (simp add: channel_update_def enableReading_def updateEvents_def)
  with channel_update_step [of p "ac_chan a" "ac_sock a" ?ev] ch sock ev
  have inv: "pl_inv p'" and int: "interest (pl_log p') (ac_sock a) = Some (?ev, ac_chan a)"
    by (auto simp: chan_of_def)
  from int pl_invD(4) [OF inv] have "ch_fd (pl_chans p' (ac_chan a)) = ac_sock a"
    "ch_index (pl_chans p' (ac_chan a)) = kAdded" by blast+
  with inv pl_invD(3) [OF inv, of "ac_sock a" "ac_chan a"] a' show ?thesis
    by (auto simp: chan_of_def index_defs)
qed

section \<open>At the limit\<close>

context descriptor_kernel begin

text \<open>A round with a connection waiting takes one, and has the spare descriptor again.\<close>

lemma round_drains:
  assumes run: "Acceptor_readCallback ops m a k = (a', k')" and own: "owns base a out (held k)"
    and idle: "0 \<le> ac_idleFd a" and wait: "0 < backlog (ac_sock a) k"
  shows "backlog (ac_sock a) k' = backlog (ac_sock a) k - 1 \<and> 0 \<le> ac_idleFd a' \<and>
    (\<not> room k \<longrightarrow> ac_log a' = ac_log a)"
proof -
  let ?l = "ac_sock a"
  have l: "?l \<in> held k" "?l \<noteq> ac_idleFd a" "ac_idleFd a \<in> held k"
    using own idle by (auto simp: owns_def idle_set_def)
  obtain r peer k1 where acc: "Socket_accept ops ?l (InetAddress_port m 0 False False) k = (r, peer, k1)"
    by (metis prod_cases3)
  show ?thesis
  proof (cases "0 \<le> r")
    case True
    then have room: "room k" using Socket_accept_full [OF acc] by linarith
    have "r \<noteq> ?l" "backlog ?l k = Suc (backlog ?l k1)" using Socket_accept_some [OF acc True] l by auto
    then show ?thesis using run acc True room idle close_backlog [of ?l r k1]
      by (auto simp: Acceptor_readCallback_def Let_def split: if_splits)
  next
    case False
    then have "\<not> room k" using Socket_accept_room [OF acc] wait by auto
    then have full: "r < 0" "sys_errno ops k1 = EMFILE" using Socket_accept_full [OF acc] by auto
    obtain r2 peer2 k2 where second: "Socket_accept ops ?l peer (sys_close ops (ac_idleFd a) k1) = (r2, peer2, k2)"
      by (metis prod_cases3)
    obtain idle k3 where reopen: "sys_open ops (sys_close ops r2 k2) = (idle, k3)" by (metis surj_pair)
    have "a' = a\<lparr>ac_idleFd := idle\<rparr>" "k' = k3"
      using run acc full second reopen by (auto simp: Acceptor_readCallback_def Let_def)
    then show ?thesis
      using shed(3,4) [OF second reopen] Socket_accept_none [OF acc full(1)] l by auto
  qed
qed

text \<open>
  Without the spare descriptor (another thread took its place when it was reopened) a round at the
  limit changes nothing: the poller reports the socket again at once.
\<close>

lemma spare_lost_spins:
  assumes run: "Acceptor_readCallback ops m a k = (a', k')" and idle: "ac_idleFd a < 0" and full: "\<not> room k"
  shows "backlog (ac_sock a) k' = backlog (ac_sock a) k \<or> ac_sock a < 0"
    and "held k' = held k" "ac_log a' = ac_log a" "ac_idleFd a' < 0" "\<not> room k'"
proof -
  let ?l = "ac_sock a"
  obtain r peer k1 where acc: "Socket_accept ops ?l (InetAddress_port m 0 False False) k = (r, peer, k1)"
    by (metis prod_cases3)
  have r: "r < 0" "sys_errno ops k1 = EMFILE" using Socket_accept_full [OF acc full] by auto
  obtain r2 peer2 k2 where second: "Socket_accept ops ?l peer (sys_close ops (ac_idleFd a) k1) = (r2, peer2, k2)"
    by (metis prod_cases3)
  obtain spare k3 where reopen: "sys_open ops (sys_close ops r2 k2) = (spare, k3)" by (metis surj_pair)
  have a': "a' = a\<lparr>ac_idleFd := spare\<rparr>" "k' = k3"
    using run acc r second reopen by (auto simp: Acceptor_readCallback_def Let_def)
  have no: "fd < 0 \<Longrightarrow> fd \<notin> held q" for fd q using held_nonneg [of fd q] by auto
  have k1: "held k1 = held k" "\<not> room k1" "backlog ?l k1 = backlog ?l k"
    using Socket_accept_none [OF acc r(1)] full by auto
  have c1: "held (sys_close ops (ac_idleFd a) k1) = held k" "\<not> room (sys_close ops (ac_idleFd a) k1)"
    using close_other [OF no [OF idle], of k1] k1 by auto
  have r2: "r2 < 0" using Socket_accept_full [OF second c1(2)] by simp
  have k2: "held k2 = held k" "\<not> room k2" "backlog ?l k2 = backlog ?l (sys_close ops (ac_idleFd a) k1)"
    using Socket_accept_none [OF second r2] c1 by auto
  have c2: "held (sys_close ops r2 k2) = held k" "\<not> room (sys_close ops r2 k2)"
    using close_other [OF no [OF r2], of k2] k2 by auto
  then have spare: "spare < 0" using open_room [OF reopen] by auto
  show "held k' = held k" "ac_log a' = ac_log a" "ac_idleFd a' < 0" "\<not> room k'"
    using open_none [OF reopen spare] c2 spare a' by auto
  show "backlog ?l k' = backlog ?l k \<or> ?l < 0"
    using open_none [OF reopen spare, of ?l] k1 k2 close_backlog [of ?l r2 k2] close_backlog [of ?l "ac_idleFd a" k1]
      idle r2 a'(2) by auto
qed

text \<open>Rounds one after the other.\<close>

lemma rounds_drain:
  assumes "owns base a out (held k)" "0 \<le> ac_idleFd a" "n \<le> backlog (ac_sock a) k"
    and "((\<lambda>(a, k). Acceptor_readCallback ops m a k) ^^ n) (a, k) = (a', k')"
  shows "ac_sock a' = ac_sock a \<and> backlog (ac_sock a) k' = backlog (ac_sock a) k - n \<and>
    0 \<le> ac_idleFd a' \<and> (\<exists>out'. owns base a' out' (held k'))"
  using assms(3,4)
proof (induction n arbitrary: a' k')
  case 0
  with assms(1,2) show ?case by auto
next
  case (Suc n)
  obtain a1 k1 where mid: "((\<lambda>(a, k). Acceptor_readCallback ops m a k) ^^ n) (a, k) = (a1, k1)"
    by (metis surj_pair)
  with Suc have run: "Acceptor_readCallback ops m a1 k1 = (a', k')" by simp
  from Suc.IH [OF _ mid] Suc.prems(1) obtain out1 where
    IH: "ac_sock a1 = ac_sock a" "backlog (ac_sock a) k1 = backlog (ac_sock a) k - n" "0 \<le> ac_idleFd a1"
      "owns base a1 out1 (held k1)" by auto
  from round_drains [OF run IH(4,3)] readCallback_owns [OF run IH(4)] readCallback_frame(1) [OF run]
    IH Suc.prems(1) show ?case by auto
qed

end

section \<open>Every life\<close>

context descriptor_kernel begin

lemma ac_reach_owns:
  assumes "ac_reach ops m held base a k p out"
  shows "owns base a out (held k) \<and> chan_of a p"
  using assms
proof (induction rule: ac_reach.induct)
  case (ac_new i addr ra rp k p a k' p')
  then show ?case by (intro new_owns)
next
  case (ac_set base a k p out a')
  then have "ac_sock a' = ac_sock a" "ac_idleFd a' = ac_idleFd a" "ac_chan a' = ac_chan a"
    by (auto simp: setNewConnectionCallback_def setBeforeListenSockOptCallback_def
        setAfterAcceptSockOptCallback_def)
  with ac_set.IH show ?case using owns_cong [of a' a] chan_of_cong [of a' a] by simp
next
  case (ac_listen base a k p out a' k' p')
  then have "0 \<le> ac_sock a" "held k' = held k"
    by (auto simp: owns_def Acceptor_listen_def Let_def bind_res_Inr_iff dest: held_Socket_listen
        split: if_splits)
  with listen_chan [OF ac_listen.hyps(2)] ac_listen.IH show ?case
    using owns_cong [of a' a] chan_of_cong [of a' a] by simp
next
  case (ac_event base a k p out revents a' k')
  then show ?case using event_owns [OF ac_event.hyps(2), of base out] chan_of_cong [of a' a p] by simp
next
  case (ac_client base a k p out fd)
  then show ?case unfolding owns_def held_close by blast
next
  case (ac_other base a k p out k' base' p')
  from ac_other.IH have own: "owns base a out (held k)" by simp
  then have rest: "held k - base = {ac_sock a} \<union> idle_set a \<union> out" unfolding owns_def by blast
  have "owns base' a out (held k')"
    using own ac_other.hyps(2,3) unfolding rest owns_def by blast
  with ac_other show ?case by (simp add: chan_of_def)
qed

end

section \<open>Properties\<close>

text \<open>
  C35. Whatever an acceptor does, the descriptors of the process are those of the rest of the
  process, the listening socket, the spare descriptor and the connections handed over and still
  open, all different: nothing leaks and nothing is closed that belongs to another. Destroying it
  gives back its two descriptors and its place in the poller, if it has listened; the destruction
  of an acceptor that never listened fails an assertion.
\<close>

theorem acceptor_descriptors:
  assumes "descriptor_kernel ops held room backlog" "ac_reach ops m held base a k p out"
  shows "held k = base \<union> {ac_sock a} \<union> idle_set a \<union> out \<and>
    ac_sock a \<notin> base \<union> idle_set a \<union> out \<and> idle_set a \<inter> (base \<union> out) = {} \<and> base \<inter> out = {} \<and>
    (if pl_channels p (ac_sock a) = None then Acceptor_destroy ops a k p = Inl AssertFailed
     else \<exists>k' p'. Acceptor_destroy ops a k p = Inr (k', p') \<and> held k' = base \<union> out \<and>
            interest (pl_log p') (ac_sock a) = None)"
proof -
  note inv = descriptor_kernel.ac_reach_owns [OF assms]
  then show ?thesis
    using descriptor_kernel.destroy_listening [OF assms(1), of base a out k p]
      destroy_unlistened [of a p ops k] by (auto simp: owns_def)
qed


section \<open>A listening acceptor\<close>

definition sample_kernel :: pkernel where
  "sample_kernel = \<lparr>pk_limit = 4, pk_used = (\<lambda>fd. fd \<le> 0), pk_backlog = (\<lambda>_. [zero_addr, zero_addr, zero_addr]),
     pk_errno = 0\<rparr>"

definition sample_chans :: "nat \<Rightarrow> Channel" where
  "sample_chans i = Channel_new 100"

definition sample_addr :: InetAddress where
  "sample_addr = InetAddress_port zero_addr 80 False False"

definition sample_acceptor :: acceptor where
  "sample_acceptor = \<lparr>ac_idleFd = 1, ac_sock = 2, ac_addr = sample_addr, ac_chan = 0, ac_newCb = False,
     ac_beforeCb = False, ac_afterCb = False, ac_log = []\<rparr>"

definition sample_poller :: Poller where
  "sample_poller = set_chan 0 (setReadCallback (Channel_new 2)) (EpollPoller_new sample_chans)"

definition sample_used :: pkernel where
  "sample_used = sample_kernel\<lparr>pk_used := (\<lambda>fd. fd \<le> 2)\<rparr>"

lemma sample_toPort: "toPort sample_addr \<noteq> 0"
  by (simp add: sample_addr_def toPort_def portNetEndian_def InetAddress_port_def)

lemma sample_alloc:
  "pk_alloc sample_kernel = (1, sample_kernel\<lparr>pk_used := (\<lambda>fd. fd \<le> 0)(1 := True)\<rparr>)"
  "pk_alloc (sample_kernel\<lparr>pk_used := (\<lambda>fd. fd \<le> 0)(1 := True)\<rparr>) = (2, sample_used)"
proof -
  have range: "[0..3] = [0, 1, 2, 3 :: int]" by (simp add: upto_rec1)
  show "pk_alloc sample_kernel = (1, sample_kernel\<lparr>pk_used := (\<lambda>fd. fd \<le> 0)(1 := True)\<rparr>)"
    by (simp add: pk_alloc_def pk_free_def sample_kernel_def range)
  show "pk_alloc (sample_kernel\<lparr>pk_used := (\<lambda>fd. fd \<le> 0)(1 := True)\<rparr>) = (2, sample_used)"
    by (auto simp: pk_alloc_def pk_free_def sample_kernel_def sample_used_def range fun_eq_iff)
qed

lemma sample_new:
  "Acceptor_new posix 0 sample_addr True True sample_kernel (EpollPoller_new sample_chans) =
     Inr (sample_acceptor, sample_used, sample_poller)"
  using sample_toPort
  by (simp add: Acceptor_new_def sample_alloc createNonblockingSocketOrDie_def bindAddress_def
      setReuseAddr_def setReusePort_def set_option_def sample_acceptor_def sample_poller_def set_chan_def
      Let_def)

lemma sample_reach:
  "ac_reach posix zero_addr pk_held (pk_held sample_kernel) sample_acceptor sample_used sample_poller {}"
proof (rule ac_new [OF sample_new])
  show "pl_inv (EpollPoller_new sample_chans)"
    by (rule new_inv) (simp add: sample_chans_def Channel_new_def kNew_def)
qed (simp_all add: sample_chans_def Channel_new_def kNew_def EpollPoller_new_def)

lemma sample_fds: "pk_held sample_kernel = {0}" "pk_held sample_used = {0, 1, 2}"
  by (auto simp: pk_held_def sample_kernel_def sample_used_def)

lemma sample_listen:
  "\<exists>p. Acceptor_listen posix sample_acceptor sample_used sample_poller = Inr (sample_acceptor, sample_used, p) \<and>
     pl_channels p 2 \<noteq> None"
  by (simp add: Acceptor_listen_def sample_acceptor_def Socket_listen_def channel_update_def
      EpollPoller_updateChannel_def sample_poller_def EpollPoller_new_def set_chan_def Channel_new_def
      channel_ops setReadCallback_def index_defs EpollPoller_update_def Let_def)

theorem acceptor_descriptors_witness:
  "\<exists>p. (\<exists>k' p'. Acceptor_destroy posix sample_acceptor sample_used p = Inr (k', p') \<and> pk_held k' = {0}) \<and>
     Acceptor_destroy posix sample_acceptor sample_used sample_poller = Inl AssertFailed"
proof -
  obtain p where p: "Acceptor_listen posix sample_acceptor sample_used sample_poller = Inr (sample_acceptor, sample_used, p)"
    "pl_channels p 2 \<noteq> None" using sample_listen by blast
  have fd: "ac_sock sample_acceptor = 2" by (simp add: sample_acceptor_def)
  have none: "pl_channels sample_poller 2 = None" by (simp add: sample_poller_def EpollPoller_new_def)
  from acceptor_descriptors [OF posix_kernel.descriptor_kernel_axioms ac_listen [OF sample_reach p(1)]]
    acceptor_descriptors [OF posix_kernel.descriptor_kernel_axioms sample_reach] p(2) none
  show ?thesis by (auto simp: fd sample_fds)
qed


end
