(* ===== verification/EventLoopThread.thy ===== *)
theory EventLoopThread
  imports Prelude
begin

text \<open>
  A thread with an event loop and the object that owns it: src/xiaoNet/net/EventLoopThread.h and
  EventLoopThread.cpp. Every step of the thread and of its owner on what they share (the three
  promises, the pointer, the flags of the loop, the queue and the wake-up descriptor) is a step
  here; threads interleave. The queue itself, atomic here, is the subject of MpscQueue, and the
  race between queueing and sleeping that of LoopWakeup.
\<close>

section \<open>State\<close>

text \<open>What waits in the loop: the function the thread queues itself, and tasks of others.\<close>

datatype lt_func = SignalLoop | Task nat

text \<open>
  Where the thread is in \<open>loopFuncs\<close>: before the loop exists; before queueing the signal; before
  publishing the pointer; at \<open>promiseForRun_\<close>; at the entry of \<open>loop()\<close>; between the stores of
  \<open>looping_\<close> and \<open>quit_\<close>; at the test of \<open>quit_\<close>; in \<open>poll\<close>; with the wake-up descriptor to read;
  among the functions; leaving the loop; before clearing the pointer; at its end.
\<close>

datatype thr_pc =
  TStart | TQueue | TPublish | TAwaitRun | TEnter | TReset | TTest | TPoll | TRead | TFuncs
| TLeave | TClear | TExit

text \<open>
  Where the owner is: in the constructor; with a thread not run; in \<open>run\<close> before it sets its
  promise; waiting for the loop there; with a running thread; in the destructor before it reads
  the pointer; in \<open>quit\<close> before the store; before the wake-up; at the join of the destructor; at
  that of \<open>wait\<close>; after \<open>wait\<close>; after the destructor. The flags say whether the destructor called.
\<close>

datatype own_pc =
  OConstruct | OBuilt | OSignal bool | OAwaitLoop bool | ORunning | OReadLoop | OQuitStore bool
| OWakeup bool | OJoin | OWait | OWaited | ODestroyed

record lthread =
  lt_pc :: thr_pc
  lt_own :: own_pc
  lt_loopPtr :: bool
  lt_ptrPromise :: bool
  lt_runPromise :: bool
  lt_loopPromise :: bool
  lt_looping :: bool
  lt_quit :: bool
  lt_wake :: nat
  lt_wakers :: nat
  lt_funcs :: "lt_func list"
  lt_queued :: "nat list"
  lt_ran :: "nat list"

definition lt_new :: lthread where
  "lt_new = \<lparr>lt_pc = TStart, lt_own = OConstruct, lt_loopPtr = False, lt_ptrPromise = False,
     lt_runPromise = False, lt_loopPromise = False, lt_looping = False, lt_quit = False,
     lt_wake = 0, lt_wakers = 0, lt_funcs = [], lt_queued = [], lt_ran = []\<rparr>"

section \<open>The thread\<close>

text \<open>
  \<open>loopFuncs\<close>, a step at a time. A promise set twice throws, a wait for a promise or for the
  descriptor is \<open>Blocked\<close>.
\<close>

fun run_func :: "lt_func \<Rightarrow> lthread \<Rightarrow> lthread res" where
  "run_func SignalLoop s =
     (if lt_loopPromise s then Inl RuntimeError else Inr (s\<lparr>lt_loopPromise := True\<rparr>))"
| "run_func (Task t) s = Inr (s\<lparr>lt_ran := lt_ran s @ [t]\<rparr>)"

definition thread_step :: "lthread \<Rightarrow> lthread res" where
  "thread_step s = (case lt_pc s of
     TStart \<Rightarrow> Inr (s\<lparr>lt_pc := TQueue\<rparr>)
   | TQueue \<Rightarrow> Inr (s\<lparr>lt_funcs := lt_funcs s @ [SignalLoop], lt_wake := Suc (lt_wake s), lt_pc := TPublish\<rparr>)
   | TPublish \<Rightarrow> (if lt_ptrPromise s then Inl RuntimeError
                 else Inr (s\<lparr>lt_ptrPromise := True, lt_pc := TAwaitRun\<rparr>))
   | TAwaitRun \<Rightarrow> (if lt_runPromise s then Inr (s\<lparr>lt_pc := TEnter\<rparr>) else Inl Blocked)
   | TEnter \<Rightarrow> assert_then (\<not> lt_looping s) (Inr (s\<lparr>lt_looping := True, lt_pc := TReset\<rparr>))
   | TReset \<Rightarrow> Inr (s\<lparr>lt_quit := False, lt_pc := TTest\<rparr>)
   | TTest \<Rightarrow> Inr (s\<lparr>lt_pc := (if lt_quit s then TLeave else TPoll)\<rparr>)
   | TPoll \<Rightarrow> (if 0 < lt_wake s then Inr (s\<lparr>lt_pc := TRead\<rparr>) else Inl Blocked)
   | TRead \<Rightarrow> Inr (s\<lparr>lt_wake := 0, lt_pc := TFuncs\<rparr>)
   | TFuncs \<Rightarrow> (case lt_funcs s of
        [] \<Rightarrow> Inr (s\<lparr>lt_pc := TTest\<rparr>)
      | f # fs \<Rightarrow> run_func f (s\<lparr>lt_funcs := fs\<rparr>))
   | TLeave \<Rightarrow> Inr (s\<lparr>lt_looping := False, lt_pc := TClear\<rparr>)
   | TClear \<Rightarrow> Inr (s\<lparr>lt_loopPtr := False, lt_pc := TExit\<rparr>)
   | TExit \<Rightarrow> Inl Blocked)"

section \<open>The owner\<close>

definition owner_run :: "lthread \<Rightarrow> lthread res" where
  "owner_run s = (case lt_own s of
     OBuilt \<Rightarrow> Inr (s\<lparr>lt_own := OSignal False\<rparr>) | ORunning \<Rightarrow> Inr s | _ \<Rightarrow> Inl Blocked)"

definition owner_destroy :: "lthread \<Rightarrow> lthread res" where
  "owner_destroy s = (case lt_own s of
     OBuilt \<Rightarrow> Inr (s\<lparr>lt_own := OSignal True\<rparr>)
   | ORunning \<Rightarrow> Inr (s\<lparr>lt_own := OReadLoop\<rparr>)
   | OWaited \<Rightarrow> Inr (s\<lparr>lt_own := OReadLoop\<rparr>)
   | _ \<Rightarrow> Inl Blocked)"

definition owner_wait :: "lthread \<Rightarrow> lthread res" where
  "owner_wait s = (case lt_own s of ORunning \<Rightarrow> Inr (s\<lparr>lt_own := OWait\<rparr>) | _ \<Rightarrow> Inl Blocked)"

text \<open>\<open>getLoop()->quit()\<close>: an access through a null pointer once the loop has ended.\<close>

definition owner_quit :: "lthread \<Rightarrow> lthread res" where
  "owner_quit s = (case lt_own s of
     ORunning \<Rightarrow> if lt_loopPtr s then Inr (s\<lparr>lt_own := OQuitStore False\<rparr>) else Inl OutOfBounds
   | _ \<Rightarrow> Inl Blocked)"

text \<open>The owner inside one of its operations.\<close>

definition owner_step :: "lthread \<Rightarrow> lthread res" where
  "owner_step s = (case lt_own s of
     OConstruct \<Rightarrow> (if lt_ptrPromise s then Inr (s\<lparr>lt_loopPtr := True, lt_own := OBuilt\<rparr>) else Inl Blocked)
   | OSignal d \<Rightarrow> (if lt_runPromise s then Inl RuntimeError
                  else Inr (s\<lparr>lt_runPromise := True, lt_own := OAwaitLoop d\<rparr>))
   | OAwaitLoop d \<Rightarrow> (if lt_loopPromise s then Inr (s\<lparr>lt_own := (if d then OReadLoop else ORunning)\<rparr>)
                     else Inl Blocked)
   | OReadLoop \<Rightarrow> Inr (s\<lparr>lt_own := (if lt_loopPtr s then OQuitStore True else OJoin)\<rparr>)
   | OQuitStore d \<Rightarrow> Inr (s\<lparr>lt_quit := True, lt_own := OWakeup d\<rparr>)
   | OWakeup d \<Rightarrow> Inr (s\<lparr>lt_wake := Suc (lt_wake s), lt_own := (if d then OJoin else ORunning)\<rparr>)
   | OJoin \<Rightarrow> (if lt_pc s = TExit then Inr (s\<lparr>lt_own := ODestroyed\<rparr>) else Inl Blocked)
   | OWait \<Rightarrow> (if lt_pc s = TExit then Inr (s\<lparr>lt_own := OWaited\<rparr>) else Inl Blocked)
   | _ \<Rightarrow> Inl Blocked)"

section \<open>Other threads\<close>

text \<open>
  Any thread with the pointer queues tasks and orders to quit; the wake-up that follows either is
  a step of its own.
\<close>

definition other_queue :: "nat \<Rightarrow> lthread \<Rightarrow> lthread" where
  "other_queue t s = s\<lparr>lt_funcs := lt_funcs s @ [Task t], lt_queued := lt_queued s @ [t],
     lt_wakers := Suc (lt_wakers s)\<rparr>"

definition other_quit :: "lthread \<Rightarrow> lthread" where
  "other_quit s = s\<lparr>lt_quit := True, lt_wakers := Suc (lt_wakers s)\<rparr>"

definition other_wakeup :: "lthread \<Rightarrow> lthread" where
  "other_wakeup s = s\<lparr>lt_wake := Suc (lt_wake s), lt_wakers := lt_wakers s - 1\<rparr>"

text \<open>
  \<open>early\<close> says whether others may order the loop to quit before \<open>run\<close> has returned once. A
  timeout ends \<open>poll\<close> at any time.
\<close>

inductive lt_step :: "bool \<Rightarrow> lthread \<Rightarrow> lthread \<Rightarrow> bool" for early where
  lt_thread: "thread_step s = Inr s' \<Longrightarrow> lt_step early s s'"
| lt_timeout: "lt_pc s = TPoll \<Longrightarrow> lt_step early s (s\<lparr>lt_pc := TFuncs\<rparr>)"
| lt_owner: "owner_step s = Inr s' \<Longrightarrow> lt_step early s s'"
| lt_run: "owner_run s = Inr s' \<Longrightarrow> lt_step early s s'"
| lt_destroy: "owner_destroy s = Inr s' \<Longrightarrow> lt_step early s s'"
| lt_wait: "owner_wait s = Inr s' \<Longrightarrow> lt_step early s s'"
| lt_ownquit: "owner_quit s = Inr s' \<Longrightarrow> lt_step early s s'"
| lt_queue: "lt_loopPtr s \<Longrightarrow> lt_step early s (other_queue t s)"
| lt_quitter: "lt_loopPtr s \<Longrightarrow> early \<or> lt_loopPromise s \<Longrightarrow> lt_step early s (other_quit s)"
| lt_waker: "0 < lt_wakers s \<Longrightarrow> lt_step early s (other_wakeup s)"

inductive lt_reach :: "bool \<Rightarrow> lthread \<Rightarrow> bool" for early where
  lt_init: "lt_reach early lt_new"
| lt_next: "lt_reach early s \<Longrightarrow> lt_step early s s' \<Longrightarrow> lt_reach early s'"

section \<open>The invariant\<close>

fun task_ids :: "lt_func list \<Rightarrow> nat list" where
  "task_ids [] = []"
| "task_ids (Task t # fs) = t # task_ids fs"
| "task_ids (SignalLoop # fs) = task_ids fs"

lemma task_ids_append [simp]: "task_ids (xs @ ys) = task_ids xs @ task_ids ys"
  by (induction xs rule: task_ids.induct) auto

text \<open>Before \<open>promiseForRun_\<close>, inside \<open>loop()\<close> up to the first round of functions, and after.\<close>

definition before_run :: "thr_pc \<Rightarrow> bool" where
  "before_run pc \<longleftrightarrow> pc \<in> {TStart, TQueue, TPublish, TAwaitRun}"

definition after_loop :: "thr_pc \<Rightarrow> bool" where
  "after_loop pc \<longleftrightarrow> pc \<in> {TLeave, TClear, TExit}"

text \<open>The owner has returned from \<open>run\<close>, or has called it and knows the loop runs.\<close>

definition has_run :: "own_pc \<Rightarrow> bool" where
  "has_run oc \<longleftrightarrow> \<not> (oc \<in> {OConstruct, OBuilt} \<or> (\<exists>d. oc = OSignal d \<or> oc = OAwaitLoop d))"

definition unsignalled :: "own_pc \<Rightarrow> bool" where
  "unsignalled oc \<longleftrightarrow> oc \<in> {OConstruct, OBuilt} \<or> (\<exists>d. oc = OSignal d)"

definition ptr_ok :: "lthread \<Rightarrow> bool" where
  "ptr_ok s \<longleftrightarrow> (lt_ptrPromise s \<longleftrightarrow> lt_pc s \<notin> {TStart, TQueue, TPublish}) \<and>
     (lt_loopPtr s \<longleftrightarrow> lt_own s \<noteq> OConstruct \<and> lt_pc s \<noteq> TExit) \<and>
     (lt_own s \<noteq> OConstruct \<longrightarrow> lt_ptrPromise s)"

definition run_ok :: "lthread \<Rightarrow> bool" where
  "run_ok s \<longleftrightarrow> (lt_runPromise s \<longleftrightarrow> \<not> unsignalled (lt_own s)) \<and>
     (\<not> lt_runPromise s \<longrightarrow> before_run (lt_pc s)) \<and> (has_run (lt_own s) \<longrightarrow> lt_loopPromise s)"

definition looping_ok :: "lthread \<Rightarrow> bool" where
  "looping_ok s \<longleftrightarrow> (lt_looping s \<longleftrightarrow> lt_pc s \<in> {TReset, TTest, TPoll, TRead, TFuncs, TLeave})"

text \<open>The signal is the first function of the queue until it has run, and the descriptor is ready.\<close>

definition signal_ok :: "lthread \<Rightarrow> bool" where
  "signal_ok s \<longleftrightarrow>
     (if lt_loopPromise s
      then SignalLoop \<notin> set (lt_funcs s) \<and>
        lt_pc s \<in> {TTest, TPoll, TRead, TFuncs, TLeave, TClear, TExit}
      else if lt_pc s \<in> {TStart, TQueue} then lt_funcs s = []
      else (\<exists>fs. lt_funcs s = SignalLoop # fs \<and> SignalLoop \<notin> set fs) \<and>
        \<not> after_loop (lt_pc s) \<and> (lt_pc s = TFuncs \<or> 0 < lt_wake s) \<and>
        (lt_pc s = TTest \<longrightarrow> \<not> lt_quit s))"

definition quit_ok :: "lthread \<Rightarrow> bool" where
  "quit_ok s \<longleftrightarrow>
     (lt_own s = OJoin \<or> lt_own s = OWakeup True \<or> lt_own s = OWakeup False \<longrightarrow>
        lt_quit s \<or> lt_pc s = TExit) \<and>
     (lt_own s = OJoin \<and> lt_pc s = TPoll \<longrightarrow> 0 < lt_wake s) \<and>
     (lt_own s = OWaited \<or> lt_own s = ODestroyed \<longrightarrow> lt_pc s = TExit)"

definition fifo_ok :: "lthread \<Rightarrow> bool" where
  "fifo_ok s \<longleftrightarrow> lt_ran s @ task_ids (lt_funcs s) = lt_queued s"

definition lt_inv :: "lthread \<Rightarrow> bool" where
  "lt_inv s \<longleftrightarrow> ptr_ok s \<and> run_ok s \<and> looping_ok s \<and> signal_ok s \<and> quit_ok s \<and> fifo_ok s"

lemmas lt_preds = unsignalled_def before_run_def has_run_def after_loop_def

lemma lt_inv_new: "lt_inv lt_new"
  by (simp add: lt_inv_def ptr_ok_def run_ok_def looping_ok_def signal_ok_def quit_ok_def fifo_ok_def
      lt_new_def lt_preds)

lemma run_func_fields:
  "run_func f s = Inr s' \<Longrightarrow> lt_pc s' = lt_pc s \<and> lt_own s' = lt_own s \<and> lt_loopPtr s' = lt_loopPtr s \<and>
     lt_ptrPromise s' = lt_ptrPromise s \<and> lt_runPromise s' = lt_runPromise s \<and>
     lt_looping s' = lt_looping s \<and> lt_quit s' = lt_quit s \<and> lt_wake s' = lt_wake s \<and>
     lt_funcs s' = lt_funcs s \<and> lt_queued s' = lt_queued s \<and>
     lt_loopPromise s' = (lt_loopPromise s \<or> f = SignalLoop) \<and> lt_ran s' = lt_ran s @ task_ids [f]"
  by (cases f) (auto split: if_splits)

lemma funcs_step:
  assumes "thread_step s = Inr s'" "lt_pc s = TFuncs" "lt_funcs s = f # fs"
  shows "lt_pc s' = TFuncs \<and> lt_own s' = lt_own s \<and> lt_loopPtr s' = lt_loopPtr s \<and>
     lt_ptrPromise s' = lt_ptrPromise s \<and> lt_runPromise s' = lt_runPromise s \<and>
     lt_looping s' = lt_looping s \<and> lt_quit s' = lt_quit s \<and> lt_wake s' = lt_wake s \<and>
     lt_funcs s' = fs \<and> lt_queued s' = lt_queued s \<and>
     lt_loopPromise s' = (lt_loopPromise s \<or> f = SignalLoop) \<and> lt_ran s' = lt_ran s @ task_ids [f]"
  using run_func_fields [of f "s\<lparr>lt_funcs := fs\<rparr>" s'] assms by (simp add: thread_step_def)

lemma thread_ptr_ok:
  assumes step: "thread_step s = Inr s'" and inv: "ptr_ok s"
  shows "ptr_ok s'"
proof (cases "lt_pc s = TFuncs \<and> lt_funcs s \<noteq> []")
  case True
  then obtain f fs where "lt_pc s = TFuncs" "lt_funcs s = f # fs" by (cases "lt_funcs s") auto
  with funcs_step [OF step this] inv show ?thesis by (cases f) (auto simp: ptr_ok_def)
next
  case False
  with step inv show ?thesis
    by (cases "lt_pc s") (auto simp: thread_step_def assert_then_Inr_iff ptr_ok_def split: if_splits)
qed

lemma thread_run_ok:
  assumes step: "thread_step s = Inr s'" and inv: "run_ok s"
  shows "run_ok s'"
proof (cases "lt_pc s = TFuncs \<and> lt_funcs s \<noteq> []")
  case True
  then obtain f fs where "lt_pc s = TFuncs" "lt_funcs s = f # fs" by (cases "lt_funcs s") auto
  with funcs_step [OF step this] inv show ?thesis by (cases f) (auto simp: run_ok_def before_run_def)
next
  case False
  with step inv show ?thesis
    by (cases "lt_pc s") (auto simp: thread_step_def assert_then_Inr_iff run_ok_def before_run_def split: if_splits)
qed

lemma thread_looping_ok:
  assumes step: "thread_step s = Inr s'" and inv: "looping_ok s"
  shows "looping_ok s'"
proof (cases "lt_pc s = TFuncs \<and> lt_funcs s \<noteq> []")
  case True
  then obtain f fs where "lt_pc s = TFuncs" "lt_funcs s = f # fs" by (cases "lt_funcs s") auto
  with funcs_step [OF step this] inv show ?thesis by (cases f) (auto simp: looping_ok_def)
next
  case False
  with step inv show ?thesis
    by (cases "lt_pc s") (auto simp: thread_step_def assert_then_Inr_iff looping_ok_def split: if_splits)
qed

lemma thread_signal_ok:
  assumes step: "thread_step s = Inr s'" and inv: "signal_ok s"
  shows "signal_ok s'"
proof (cases "lt_pc s = TFuncs \<and> lt_funcs s \<noteq> []")
  case True
  then obtain f fs where "lt_pc s = TFuncs" "lt_funcs s = f # fs" by (cases "lt_funcs s") auto
  with funcs_step [OF step this] inv show ?thesis
    by (cases f) (simp_all add: signal_ok_def after_loop_def split: if_splits)
next
  case False
  with step inv show ?thesis
    by (cases "lt_pc s") (auto simp: thread_step_def assert_then_Inr_iff signal_ok_def after_loop_def split: if_splits)
qed

lemma thread_quit_ok:
  assumes step: "thread_step s = Inr s'" and inv: "quit_ok s" "run_ok s" "signal_ok s"
  shows "quit_ok s'"
proof (cases "lt_pc s = TFuncs \<and> lt_funcs s \<noteq> []")
  case True
  then obtain f fs where "lt_pc s = TFuncs" "lt_funcs s = f # fs" by (cases "lt_funcs s") auto
  with funcs_step [OF step this] inv(1) show ?thesis by (simp add: quit_ok_def)
next
  case False
  have "\<not> has_run (lt_own s)" if "lt_pc s = TReset"
    using inv(2,3) that by (auto simp: run_ok_def signal_ok_def split: if_splits)
  then have reset: "lt_own s \<noteq> OJoin \<and> lt_own s \<noteq> OWakeup True \<and> lt_own s \<noteq> OWakeup False"
    if "lt_pc s = TReset" using that by (auto simp: has_run_def)
  with step inv(1) False show ?thesis
    by (cases "lt_pc s") (auto simp: thread_step_def assert_then_Inr_iff quit_ok_def split: if_splits)
qed

lemma thread_fifo_ok:
  assumes step: "thread_step s = Inr s'" and inv: "fifo_ok s"
  shows "fifo_ok s'"
proof (cases "lt_pc s = TFuncs \<and> lt_funcs s \<noteq> []")
  case True
  then obtain f fs where "lt_pc s = TFuncs" "lt_funcs s = f # fs" by (cases "lt_funcs s") auto
  with funcs_step [OF step this] inv show ?thesis by (cases f) (auto simp: fifo_ok_def)
next
  case False
  with step inv show ?thesis
    by (cases "lt_pc s") (auto simp: thread_step_def assert_then_Inr_iff fifo_ok_def split: if_splits)
qed

lemma thread_step_inv: "thread_step s = Inr s' \<Longrightarrow> lt_inv s \<Longrightarrow> lt_inv s'"
  unfolding lt_inv_def
  using thread_ptr_ok thread_run_ok thread_looping_ok thread_signal_ok thread_quit_ok thread_fifo_ok by blast

text \<open>The owner does not touch the loop's place, its queue or its signal.\<close>

definition owner_act :: "lthread \<Rightarrow> lthread \<Rightarrow> bool" where
  "owner_act s s' \<longleftrightarrow> Inr s' \<in> {owner_step s, owner_run s, owner_destroy s, owner_wait s, owner_quit s}"

lemmas owner_defs = owner_step_def owner_run_def owner_destroy_def owner_wait_def owner_quit_def

lemma owner_frame:
  assumes "owner_act s s'"
  shows "lt_pc s' = lt_pc s \<and> lt_funcs s' = lt_funcs s \<and> lt_loopPromise s' = lt_loopPromise s \<and>
    lt_ptrPromise s' = lt_ptrPromise s \<and> lt_looping s' = lt_looping s \<and> lt_queued s' = lt_queued s \<and>
    lt_ran s' = lt_ran s \<and> lt_wake s \<le> lt_wake s' \<and> lt_wakers s' = lt_wakers s \<and>
    (lt_loopPtr s' \<longleftrightarrow> lt_loopPtr s \<or> lt_own s = OConstruct) \<and>
    (lt_runPromise s' \<longleftrightarrow> lt_runPromise s \<or> (\<exists>d. lt_own s = OSignal d)) \<and>
    (lt_quit s' \<longleftrightarrow> lt_quit s \<or> (\<exists>d. lt_own s = OQuitStore d))"
  using assms by (cases "lt_own s") (auto simp: owner_act_def owner_defs split: if_splits)

text \<open>Where the owner goes.\<close>

lemma owner_moves:
  assumes "owner_act s s'"
  shows "case lt_own s of
      OConstruct \<Rightarrow> lt_own s' = OBuilt \<and> lt_ptrPromise s
    | OBuilt \<Rightarrow> lt_own s' = OSignal False \<or> lt_own s' = OSignal True
    | OSignal d \<Rightarrow> lt_own s' = OAwaitLoop d
    | OAwaitLoop d \<Rightarrow> lt_loopPromise s \<and> lt_own s' = (if d then OReadLoop else ORunning)
    | ORunning \<Rightarrow> lt_own s' \<in> {ORunning, OReadLoop, OWait, OQuitStore False}
    | OReadLoop \<Rightarrow> lt_own s' = (if lt_loopPtr s then OQuitStore True else OJoin)
    | OQuitStore d \<Rightarrow> lt_own s' = OWakeup d \<and> lt_quit s'
    | OWakeup d \<Rightarrow> lt_own s' = (if d then OJoin else ORunning) \<and> 0 < lt_wake s'
    | OJoin \<Rightarrow> lt_own s' = ODestroyed \<and> lt_pc s = TExit
    | OWait \<Rightarrow> lt_own s' = OWaited \<and> lt_pc s = TExit
    | OWaited \<Rightarrow> lt_own s' = OReadLoop
    | ODestroyed \<Rightarrow> False"
  using assms by (cases "lt_own s") (auto simp: owner_act_def owner_defs split: if_splits)

lemma owner_leaves: "owner_act s s' \<Longrightarrow> lt_own s' = OConstruct \<Longrightarrow> False"
  using owner_moves [of s s'] by (cases "lt_own s") (auto split: if_splits)

lemma owner_inv:
  assumes act: "owner_act s s'" and inv: "lt_inv s"
  shows "lt_inv s'"
proof -
  note mv = owner_moves [OF act]
  have ok: "ptr_ok s" "run_ok s" "looping_ok s" "signal_ok s" "quit_ok s" "fifo_ok s"
    using inv by (simp_all add: lt_inv_def)
  have fr: "lt_pc s' = lt_pc s" "lt_funcs s' = lt_funcs s" "lt_loopPromise s' = lt_loopPromise s"
    "lt_ptrPromise s' = lt_ptrPromise s" "lt_looping s' = lt_looping s" "lt_queued s' = lt_queued s"
    "lt_ran s' = lt_ran s" "lt_loopPtr s' \<longleftrightarrow> lt_loopPtr s \<or> lt_own s = OConstruct"
    "lt_runPromise s' \<longleftrightarrow> lt_runPromise s \<or> (\<exists>d. lt_own s = OSignal d)"
    "lt_quit s' \<longleftrightarrow> lt_quit s \<or> (\<exists>d. lt_own s = OQuitStore d)" and wake: "lt_wake s \<le> lt_wake s'"
    using owner_frame [OF act] by blast+
  have early: "lt_own s = OConstruct \<Longrightarrow> lt_pc s \<noteq> TExit"
    using ok(2) by (auto simp: run_ok_def unsignalled_def before_run_def)
  have "ptr_ok s'"
    using ok(1) mv early by (cases "lt_own s") (simp_all add: ptr_ok_def fr split: if_splits, auto)
  moreover have "run_ok s'"
    using ok(2) mv by (cases "lt_own s") (auto simp: run_ok_def unsignalled_def has_run_def fr split: if_splits)
  moreover have "looping_ok s'" using ok(3) by (simp add: looping_ok_def fr)
  moreover have "\<not> lt_loopPromise s \<Longrightarrow> lt_quit s' = lt_quit s"
    using ok(2) by (auto simp: run_ok_def has_run_def fr)
  then have "signal_ok s'" using ok(4) wake by (auto simp: signal_ok_def fr split: if_splits)
  moreover have "quit_ok s'"
    using ok(1,5) mv by (cases "lt_own s") (auto simp: quit_ok_def ptr_ok_def fr split: if_splits)
  moreover have "fifo_ok s'" using ok(6) by (simp add: fifo_ok_def fr)
  ultimately show ?thesis by (simp add: lt_inv_def)
qed

lemma owner_actI:
  "owner_step s = Inr s' \<Longrightarrow> owner_act s s'" "owner_run s = Inr s' \<Longrightarrow> owner_act s s'"
  "owner_destroy s = Inr s' \<Longrightarrow> owner_act s s'" "owner_wait s = Inr s' \<Longrightarrow> owner_act s s'"
  "owner_quit s = Inr s' \<Longrightarrow> owner_act s s'"
  by (simp_all add: owner_act_def)

lemma timeout_inv:
  assumes "lt_inv s" "lt_pc s = TPoll"
  shows "lt_inv (s\<lparr>lt_pc := TFuncs\<rparr>)"
proof -
  have ok: "ptr_ok s" "run_ok s" "looping_ok s" "signal_ok s" "quit_ok s" "fifo_ok s"
    using assms(1) by (simp_all add: lt_inv_def)
  have "ptr_ok (s\<lparr>lt_pc := TFuncs\<rparr>)" "run_ok (s\<lparr>lt_pc := TFuncs\<rparr>)"
    using ok(1,2) assms(2) by (simp_all add: ptr_ok_def run_ok_def, auto simp: before_run_def)
  moreover have "signal_ok (s\<lparr>lt_pc := TFuncs\<rparr>)" using ok(4) assms(2) by (auto simp: signal_ok_def after_loop_def split: if_splits)
  moreover have "looping_ok (s\<lparr>lt_pc := TFuncs\<rparr>)" "quit_ok (s\<lparr>lt_pc := TFuncs\<rparr>)" "fifo_ok (s\<lparr>lt_pc := TFuncs\<rparr>)"
    using ok(3,5,6) assms(2) by (simp_all add: looping_ok_def quit_ok_def fifo_ok_def)
  ultimately show ?thesis by (simp add: lt_inv_def)
qed

lemma other_wakeup_inv:
  assumes "lt_inv s"
  shows "lt_inv (other_wakeup s)"
proof -
  have ok: "ptr_ok s" "run_ok s" "looping_ok s" "signal_ok s" "quit_ok s" "fifo_ok s"
    using assms(1) by (simp_all add: lt_inv_def)
  have "ptr_ok (other_wakeup s)" "run_ok (other_wakeup s)"
    using ok(1,2) by (simp_all add: ptr_ok_def run_ok_def other_wakeup_def, auto simp: before_run_def)
  moreover have "signal_ok (other_wakeup s)" using ok(4) by (auto simp: signal_ok_def other_wakeup_def after_loop_def split: if_splits)
  moreover have "looping_ok (other_wakeup s)" "quit_ok (other_wakeup s)" "fifo_ok (other_wakeup s)"
    using ok(3,5,6) by (simp_all add: looping_ok_def quit_ok_def fifo_ok_def other_wakeup_def)
  ultimately show ?thesis by (simp add: lt_inv_def)
qed

lemma other_queue_inv:
  assumes "lt_inv s" "lt_pc s \<notin> {TStart, TQueue}"
  shows "lt_inv (other_queue t s)"
proof -
  have ok: "ptr_ok s" "run_ok s" "looping_ok s" "signal_ok s" "quit_ok s" "fifo_ok s"
    using assms(1) by (simp_all add: lt_inv_def)
  have "ptr_ok (other_queue t s)" "run_ok (other_queue t s)"
    using ok(1,2) assms(2) by (simp_all add: ptr_ok_def run_ok_def other_queue_def, auto simp: before_run_def)
  moreover have "signal_ok (other_queue t s)" using ok(4) assms(2) by (auto simp: signal_ok_def other_queue_def after_loop_def split: if_splits)
  moreover have "looping_ok (other_queue t s)" "quit_ok (other_queue t s)" "fifo_ok (other_queue t s)"
    using ok(3,5,6) assms(2) by (simp_all add: looping_ok_def quit_ok_def fifo_ok_def other_queue_def)
  ultimately show ?thesis by (simp add: lt_inv_def)
qed

lemma other_quit_inv:
  assumes "lt_inv s" "lt_loopPromise s"
  shows "lt_inv (other_quit s)"
proof -
  have ok: "ptr_ok s" "run_ok s" "looping_ok s" "signal_ok s" "quit_ok s" "fifo_ok s"
    using assms(1) by (simp_all add: lt_inv_def)
  have "ptr_ok (other_quit s)" "run_ok (other_quit s)"
    using ok(1,2) assms(2) by (simp_all add: ptr_ok_def run_ok_def other_quit_def, auto simp: before_run_def)
  moreover have "signal_ok (other_quit s)" using ok(4) assms(2) by (auto simp: signal_ok_def other_quit_def after_loop_def split: if_splits)
  moreover have "looping_ok (other_quit s)" "quit_ok (other_quit s)" "fifo_ok (other_quit s)"
    using ok(3,5,6) assms(2) by (simp_all add: looping_ok_def quit_ok_def fifo_ok_def other_quit_def)
  ultimately show ?thesis by (simp add: lt_inv_def)
qed

lemma lt_reach_inv: "lt_reach False s \<Longrightarrow> lt_inv s"
proof (induction rule: lt_reach.induct)
  case (lt_next s s')
  note inv = lt_next.IH
  then have "lt_loopPtr s \<Longrightarrow> lt_pc s \<notin> {TStart, TQueue}" by (auto simp: lt_inv_def ptr_ok_def)
  with lt_next.hyps(2) inv show ?case
    by cases (auto intro: thread_step_inv timeout_inv other_wakeup_inv other_queue_inv other_quit_inv owner_inv owner_actI)
qed (rule lt_inv_new)

end
