(* ===== verification/EventLoopThreadProps.thy ===== *)
theory EventLoopThreadProps
  imports EventLoopThread
begin

text \<open>
  What the protocol of EventLoopThread guarantees: a run that has returned has a running loop, an
  order to quit given after it is not lost, the destructor comes to its end. And what it does not:
  an order to quit while the loop starts.
\<close>

section \<open>The destructor\<close>

text \<open>One step of the thread, then one of the owner; a step that cannot be made is skipped.\<close>

definition try_step :: "(lthread \<Rightarrow> lthread res) \<Rightarrow> lthread \<Rightarrow> lthread" where
  "try_step f s = (case f s of Inl e \<Rightarrow> s | Inr s' \<Rightarrow> s')"

definition lt_round :: "lthread \<Rightarrow> lthread" where
  "lt_round s = try_step owner_step (try_step thread_step s)"

text \<open>How far the owner and the thread are from their ends.\<close>

fun own_rank :: "own_pc \<Rightarrow> nat" where
  "own_rank (OSignal d) = 6"
| "own_rank (OAwaitLoop d) = 5"
| "own_rank OReadLoop = 4"
| "own_rank (OQuitStore d) = 3"
| "own_rank (OWakeup d) = 2"
| "own_rank OJoin = 1"
| "own_rank oc = 0"

definition thr_rank :: "lthread \<Rightarrow> nat" where
  "thr_rank s = (let n = length (lt_funcs s) in case lt_pc s of
     TStart \<Rightarrow> n + 20 | TQueue \<Rightarrow> n + 19 | TPublish \<Rightarrow> n + 13 | TAwaitRun \<Rightarrow> n + 12
   | TEnter \<Rightarrow> n + 11 | TReset \<Rightarrow> n + 10 | TTest \<Rightarrow> (if lt_loopPromise s then 4 else n + 9)
   | TPoll \<Rightarrow> n + 8 | TRead \<Rightarrow> n + 7 | TFuncs \<Rightarrow> n + 5 | TLeave \<Rightarrow> 3 | TClear \<Rightarrow> 2 | TExit \<Rightarrow> 0)"

definition destructing :: "own_pc \<Rightarrow> bool" where
  "destructing oc \<longleftrightarrow> oc \<in> {OSignal True, OAwaitLoop True, OReadLoop, OQuitStore True, OWakeup True, OJoin}"

lemma thread_progress:
  assumes step: "thread_step s = Inr s'" and inv: "lt_inv s"
    and moves: "\<not> (lt_loopPromise s \<and> lt_pc s = TTest \<and> \<not> lt_quit s)"
  shows "thr_rank s' < thr_rank s"
proof (cases "lt_pc s = TFuncs \<and> lt_funcs s \<noteq> []")
  case True
  then obtain f fs where at: "lt_pc s = TFuncs" "lt_funcs s = f # fs" by (cases "lt_funcs s") auto
  with funcs_step [OF step at] show ?thesis by (simp add: thr_rank_def Let_def)
next
  case False
  have "lt_loopPromise s" if "lt_pc s = TFuncs" "lt_funcs s = []"
    using inv that by (auto simp: lt_inv_def signal_ok_def split: if_splits)
  with False step moves show ?thesis
    by (cases "lt_pc s") (auto simp: thread_step_def thr_rank_def Let_def assert_then_Inr_iff split: if_splits)
qed

text \<open>The thread can go on while the owner waits for it.\<close>

lemma thread_goes_on:
  assumes inv: "lt_inv s" and wait: "lt_own s = OAwaitLoop d \<and> \<not> lt_loopPromise s \<or> lt_own s = OJoin \<and> lt_pc s \<noteq> TExit"
  shows "\<exists>s'. thread_step s = Inr s' \<and> thr_rank s' < thr_rank s"
proof -
  have ok: "run_ok s" "looping_ok s" "signal_ok s" "quit_ok s" "ptr_ok s" using inv by (simp_all add: lt_inv_def)
  have run: "lt_runPromise s" using ok(1) wait by (auto simp: run_ok_def unsignalled_def)
  have promise: "lt_own s = OJoin \<Longrightarrow> lt_loopPromise s" using ok(1) by (simp add: run_ok_def has_run_def)
  have "\<exists>s'. thread_step s = Inr s'"
  proof (cases "lt_funcs s")
    case Nil
    then show ?thesis using run wait ok(2-5) promise
      by (cases "lt_pc s") (auto simp: thread_step_def looping_ok_def signal_ok_def quit_ok_def ptr_ok_def
          after_loop_def split: if_splits)
  next
    case (Cons f fs)
    moreover have "f = SignalLoop \<Longrightarrow> \<not> lt_loopPromise s" using ok(3) Cons by (auto simp: signal_ok_def)
    ultimately show ?thesis using run wait ok(2-5) promise
      by (cases f; cases "lt_pc s") (auto simp: thread_step_def looping_ok_def signal_ok_def quit_ok_def
          ptr_ok_def after_loop_def split: if_splits)
  qed
  moreover have "\<not> (lt_loopPromise s \<and> lt_pc s = TTest \<and> \<not> lt_quit s)"
    using wait ok(4) by (auto simp: quit_ok_def)
  ultimately show ?thesis using thread_progress inv by blast
qed

lemma thread_own:
  assumes "thread_step s = Inr s'"
  shows "lt_own s' = lt_own s \<and> lt_runPromise s' = lt_runPromise s"
proof (cases "lt_pc s = TFuncs \<and> lt_funcs s \<noteq> []")
  case True
  then show ?thesis using funcs_step [OF assms] by (cases "lt_funcs s") auto
next
  case False
  with assms show ?thesis
    by (cases "lt_pc s") (auto simp: thread_step_def assert_then_Inr_iff split: if_splits)
qed

lemma try_thread:
  assumes "lt_inv s"
  shows "lt_inv (try_step thread_step s)" "lt_own (try_step thread_step s) = lt_own s"
    "lt_runPromise (try_step thread_step s) = lt_runPromise s"
proof -
  show "lt_inv (try_step thread_step s)"
    using assms thread_step_inv by (auto simp: try_step_def split: sum.splits)
  show "lt_own (try_step thread_step s) = lt_own s"
    "lt_runPromise (try_step thread_step s) = lt_runPromise s"
    using thread_own by (auto simp: try_step_def split: sum.splits)
qed

lemma owner_waits:
  assumes "\<nexists>s'. owner_step s = Inr s'" "destructing (lt_own s)" "lt_inv s"
  shows "lt_own s = OAwaitLoop True \<and> \<not> lt_loopPromise s \<or> lt_own s = OJoin \<and> lt_pc s \<noteq> TExit"
proof -
  have "\<not> lt_runPromise s" if "lt_own s = OSignal True"
    using assms(3) that by (auto simp: lt_inv_def run_ok_def unsignalled_def)
  with assms(1,2) show ?thesis
    by (cases "lt_own s") (auto simp: owner_step_def destructing_def split: if_splits)
qed

text \<open>The owner moves, or the thread it waits for does.\<close>

lemma round_progress:
  assumes inv: "lt_inv s" and des: "destructing (lt_own s)"
  shows "lt_inv (lt_round s) \<and> (destructing (lt_own (lt_round s)) \<or> lt_own (lt_round s) = ODestroyed) \<and>
    (own_rank (lt_own (lt_round s)) < own_rank (lt_own s) \<or>
     lt_own (lt_round s) = lt_own s \<and> thr_rank (lt_round s) < thr_rank s)"
proof -
  let ?t = "try_step thread_step s"
  note t = try_thread [OF inv]
  have inv': "lt_inv (lt_round s)"
    using t(1) owner_inv [of ?t] owner_actI(1) [of ?t] by (auto simp: lt_round_def try_step_def split: sum.splits)
  show ?thesis
  proof (cases "\<exists>s'. owner_step ?t = Inr s'")
    case True
    then obtain s' where s': "owner_step ?t = Inr s'" by blast
    then have "lt_round s = s'" by (simp add: lt_round_def try_step_def)
    with owner_moves [OF owner_actI(1), OF s'] des t(2) inv' show ?thesis
      by (auto simp: destructing_def split: if_splits)
  next
    case False
    have wait: "lt_own s = OAwaitLoop True \<and> \<not> lt_loopPromise ?t \<or> lt_own s = OJoin \<and> lt_pc ?t \<noteq> TExit"
      using owner_waits [OF False] des t(1,2) by simp
    have "\<not> lt_loopPromise s" if "lt_own s = OAwaitLoop True"
    proof
      assume lp: "lt_loopPromise s"
      have "lt_loopPromise s'" if st: "thread_step s = Inr s'" for s'
      proof (cases "lt_pc s = TFuncs \<and> lt_funcs s \<noteq> []")
        case True
        then show ?thesis using funcs_step [OF st] lp by (cases "lt_funcs s") auto
      next
        case False
        with st lp show ?thesis
          by (cases "lt_pc s") (auto simp: thread_step_def assert_then_Inr_iff split: if_splits)
      qed
      with lp wait that show False by (auto simp: try_step_def split: sum.splits)
    qed
    moreover have "lt_pc s \<noteq> TExit" if "lt_own s = OJoin"
      using wait that by (auto simp: try_step_def thread_step_def)
    ultimately obtain s' where s': "thread_step s = Inr s'" "thr_rank s' < thr_rank s"
      using thread_goes_on [OF inv, of True] wait by blast
    then have "?t = s'" by (simp add: try_step_def)
    moreover have "lt_round s = ?t"
      using False by (auto simp: lt_round_def try_step_def [of owner_step] split: sum.splits)
    ultimately have "lt_round s = s'" "lt_own s' = lt_own s" using t(2) by simp_all
    with inv' s'(2) des show ?thesis by simp
  qed
qed

lemma destructor_rounds:
  "lt_inv s \<Longrightarrow> destructing (lt_own s) \<Longrightarrow> \<exists>n. lt_own ((lt_round ^^ n) s) = ODestroyed"
proof (induction s rule: wf_induct_rule [OF wf_measures [of "[\<lambda>s. own_rank (lt_own s), thr_rank]"]])
  case (1 s)
  note prog = round_progress [OF 1(2,3)]
  show ?case
  proof (cases "lt_own (lt_round s) = ODestroyed")
    case True
    then have "lt_own ((lt_round ^^ 1) s) = ODestroyed" by simp
    then show ?thesis by blast
  next
    case False
    with prog 1(1) [of "lt_round s"] obtain n where "lt_own ((lt_round ^^ n) (lt_round s)) = ODestroyed"
      by auto
    then have "lt_own ((lt_round ^^ Suc n) s) = ODestroyed" by (simp add: funpow_swap1)
    then show ?thesis by blast
  qed
qed

lemma only_blocked:
  assumes "lt_inv s"
  shows "thread_step s = Inl e \<Longrightarrow> e = Blocked" "owner_step s = Inl e \<Longrightarrow> e = Blocked"
proof -
  have ok: "looping_ok s" "signal_ok s" "ptr_ok s" "run_ok s" using assms by (simp_all add: lt_inv_def)
  show "e = Blocked" if "owner_step s = Inl e"
    using that ok(4) by (cases "lt_own s") (auto simp: owner_step_def run_ok_def unsignalled_def split: if_splits)
  show "e = Blocked" if st: "thread_step s = Inl e"
  proof (cases "lt_funcs s")
    case Nil
    with st ok(1,3) show ?thesis
      by (cases "lt_pc s") (auto simp: thread_step_def looping_ok_def ptr_ok_def split: if_splits)
  next
    case (Cons f fs)
    moreover have "f = SignalLoop \<Longrightarrow> \<not> lt_loopPromise s" using ok(2) Cons by (auto simp: signal_ok_def)
    ultimately show ?thesis using st ok(1,3)
      by (cases f; cases "lt_pc s") (auto simp: thread_step_def looping_ok_def ptr_ok_def split: if_splits)
  qed
qed

section \<open>Properties\<close>



section \<open>Runs\<close>

text \<open>A list of steps: of the thread, of the owner inside an operation, and the calls.\<close>

datatype lt_act = AThread | AOwner | ARun | ADestroy | AWait | AOwnQuit | AQueue nat | AQuit

fun lt_do :: "lt_act \<Rightarrow> lthread \<Rightarrow> lthread res" where
  "lt_do AThread s = thread_step s"
| "lt_do AOwner s = owner_step s"
| "lt_do ARun s = owner_run s"
| "lt_do ADestroy s = owner_destroy s"
| "lt_do AWait s = owner_wait s"
| "lt_do AOwnQuit s = owner_quit s"
| "lt_do (AQueue t) s = (if lt_loopPtr s then Inr (other_queue t s) else Inl OutOfBounds)"
| "lt_do AQuit s = (if lt_loopPtr s then Inr (other_quit s) else Inl OutOfBounds)"

fun lt_play :: "lt_act list \<Rightarrow> lthread \<Rightarrow> lthread res" where
  "lt_play [] s = Inr s"
| "lt_play (a # as) s = bind_res (lt_do a s) (lt_play as)"

lemma do_step: "lt_do a s = Inr s' \<Longrightarrow> early \<or> a \<noteq> AQuit \<Longrightarrow> lt_step early s s'"
  by (cases a) (auto intro: lt_step.intros split: if_splits)

lemma play_reach:
  "lt_play as s = Inr s' \<Longrightarrow> lt_reach early s \<Longrightarrow> early \<or> AQuit \<notin> set as \<Longrightarrow> lt_reach early s'"
proof (induction as arbitrary: s)
  case (Cons a as)
  then obtain t where t: "lt_do a s = Inr t" "lt_play as t = Inr s'" by (auto simp: bind_res_Inr_iff)
  with Cons have "lt_reach early t" by (auto intro: lt_next do_step)
  with Cons t show ?case by auto
qed simp

lemmas lt_eval = thread_step_def owner_defs lt_new_def other_queue_def other_quit_def numeral_eq_Suc

text \<open>From the start to a thread at \<open>promiseForRun_\<close> and a call of the destructor.\<close>

definition to_destructor :: "lt_act list" where
  "to_destructor = [AThread, AThread, AThread, AOwner, ADestroy]"


text \<open>The loop runs, a task is queued and run, the owner stops it.\<close>

definition to_running :: "lt_act list" where
  "to_running = [AThread, AThread, AThread, AOwner, ARun, AOwner, AThread, AThread, AThread, AThread,
     AThread, AThread, AThread, AOwner]"


text \<open>
  An order to quit from another thread between the start of the loop and its first test ends
  the loop before it runs the function that releases \<open>run\<close>: the caller of \<open>run\<close> waits for ever.
\<close>

theorem early_quit_hangs:
  "\<exists>s. lt_reach True s \<and> lt_own s = OAwaitLoop False \<and> lt_pc s = TExit \<and>
     (\<forall>s'. (lt_step True)\<^sup>*\<^sup>* s s' \<longrightarrow> lt_own s' = OAwaitLoop False)"
proof -
  let ?as = "[AThread, AThread, AThread, AOwner, ARun, AOwner, AThread, AThread, AThread, AQuit, AThread,
    AThread, AThread]"
  obtain s where s: "lt_play ?as lt_new = Inr s" "lt_own s = OAwaitLoop False" "lt_pc s = TExit"
    "\<not> lt_loopPromise s" "\<not> lt_loopPtr s"
    by (simp add: lt_eval)
  have "lt_own s' = OAwaitLoop False \<and> lt_pc s' = TExit \<and> \<not> lt_loopPromise s' \<and> \<not> lt_loopPtr s'"
    if "(lt_step True)\<^sup>*\<^sup>* s s'" for s'
    using that
  proof (induction rule: rtranclp_induct)
    case (step t t')
    from step.hyps(2) step.IH show ?case
      by cases (auto simp: thread_step_def owner_defs other_wakeup_def)
  qed (use s in simp)
  moreover have "lt_reach True s" by (rule play_reach [OF s(1) lt_init]) simp
  ultimately show ?thesis using s by blast
qed

text \<open>
  A task queued before the owner stops the loop may never run: the loop tests \<open>quit_\<close> before it
  looks at its functions.
\<close>

lemma stop_drops_task:
  "\<exists>s. lt_reach False s \<and> lt_own s = OWaited \<and> lt_queued s = [7] \<and> lt_ran s = []"
proof -
  let ?as = "to_running @ [AThread, AQueue 7, AOwnQuit, AOwner, AOwner, AWait, AThread, AThread, AThread, AOwner]"
  obtain s where s: "lt_play ?as lt_new = Inr s" "lt_own s = OWaited" "lt_queued s = [7]" "lt_ran s = []"
    by (simp add: to_running_def lt_eval)
  moreover have "lt_reach False s" by (rule play_reach [OF s(1) lt_init]) (simp add: to_running_def)
  ultimately show ?thesis by blast
qed

end
