(* ===== verification/EventLoopThreadPool.thy ===== *)
theory EventLoopThreadPool
  imports EventLoopThreadProps
begin

text \<open>
  The pool of src/xiaoNet/net/EventLoopThreadPool.h and EventLoopThreadPool.cpp: event loop threads
  built, run and waited for one after the other, while all of them take their own steps, and the
  round robin of \<open>getNextLoop\<close>. A loop is the number of its thread.
\<close>

section \<open>State and operations\<close>

text \<open>Where the owner of the pool is: in its constructor, \<open>start\<close> or \<open>wait\<close> at a thread, or outside.\<close>

datatype pool_pc = PBuild nat | PIdle | PStart nat | PWait nat

record thread_pool =
  ep_threadNum :: nat
  ep_threads :: "lthread list"
  ep_loopIndex :: nat
  ep_pc :: pool_pc
  ep_started :: bool

definition EventLoopThreadPool_new :: "nat \<Rightarrow> thread_pool" where
  "EventLoopThreadPool_new n = \<lparr>ep_threadNum = n, ep_threads = [], ep_loopIndex = 0, ep_pc = PBuild 0,
     ep_started = False\<rparr>"

definition set_thread :: "nat \<Rightarrow> lthread \<Rightarrow> thread_pool \<Rightarrow> thread_pool" where
  "set_thread i t p = p\<lparr>ep_threads := (ep_threads p)[i := t]\<rparr>"

text \<open>
  A step of the owner: the constructor of the next thread, \<open>run\<close> (once per thread, nothing after
  that) and \<open>wait\<close>, which throws for a thread that was joined before.
\<close>

definition pool_owner :: "thread_pool \<Rightarrow> thread_pool res" where
  "pool_owner p = (case ep_pc p of
     PBuild i \<Rightarrow>
       (if i < length (ep_threads p) then
          (let t = ep_threads p ! i in
           if lt_own t = OBuilt then Inr (p\<lparr>ep_pc := PBuild (Suc i)\<rparr>)
           else bind_res (owner_step t) (\<lambda>t. Inr (set_thread i t p)))
        else if i < ep_threadNum p then Inr (p\<lparr>ep_threads := ep_threads p @ [lt_new]\<rparr>)
        else Inr (p\<lparr>ep_pc := PIdle\<rparr>))
   | PIdle \<Rightarrow> Inl Blocked
   | PStart i \<Rightarrow>
       (if i < length (ep_threads p) then
          (let t = ep_threads p ! i in
           if lt_own t = ORunning \<or> lt_own t = OWaited then Inr (p\<lparr>ep_pc := PStart (Suc i)\<rparr>)
           else bind_res (if lt_own t = OBuilt then owner_run t else owner_step t)
                  (\<lambda>t. Inr (set_thread i t p)))
        else Inr (p\<lparr>ep_pc := PIdle, ep_started := True\<rparr>))
   | PWait i \<Rightarrow>
       (if i < length (ep_threads p) then
          (let t = ep_threads p ! i in
           if lt_own t = OWait then
             bind_res (owner_step t) (\<lambda>t. Inr ((set_thread i t p)\<lparr>ep_pc := PWait (Suc i)\<rparr>))
           else if lt_own t = OWaited then Inl RuntimeError
           else bind_res (owner_wait t) (\<lambda>t. Inr (set_thread i t p)))
        else Inr (p\<lparr>ep_pc := PIdle\<rparr>)))"

definition pool_start :: "thread_pool \<Rightarrow> thread_pool" where
  "pool_start p = p\<lparr>ep_pc := PStart 0\<rparr>"

definition pool_wait :: "thread_pool \<Rightarrow> thread_pool" where
  "pool_wait p = p\<lparr>ep_pc := PWait 0\<rparr>"

definition pool_size :: "thread_pool \<Rightarrow> nat" where
  "pool_size p = length (ep_threads p)"

text \<open>The pointer \<open>EventLoopThread::getLoop\<close> gives is null once the loop has ended.\<close>

definition thread_getLoop :: "nat \<Rightarrow> thread_pool \<Rightarrow> nat option" where
  "thread_getLoop i p = (if lt_loopPtr (ep_threads p ! i) then Some i else None)"

definition getNextLoop :: "thread_pool \<Rightarrow> nat option \<times> thread_pool" where
  "getNextLoop p =
     (if 0 < pool_size p
      then (let index = ep_loopIndex p; p = p\<lparr>ep_loopIndex := sz_add index 1\<rparr>
            in (thread_getLoop (index mod pool_size p) p, p))
      else (None, p))"

definition pool_getLoop :: "nat \<Rightarrow> thread_pool \<Rightarrow> nat option" where
  "pool_getLoop i p = (if i < pool_size p then thread_getLoop i p else None)"

definition pool_getLoops :: "thread_pool \<Rightarrow> nat option list" where
  "pool_getLoops p = map (\<lambda>i. thread_getLoop i p) [0..<pool_size p]"

section \<open>Steps\<close>

inductive pool_step :: "thread_pool \<Rightarrow> thread_pool \<Rightarrow> bool" where
  pool_thread: "i < length (ep_threads p) \<Longrightarrow> lt_step False (ep_threads p ! i) t \<Longrightarrow>
    lt_own t = lt_own (ep_threads p ! i) \<Longrightarrow> pool_step p (set_thread i t p)"
| pool_own: "pool_owner p = Inr p' \<Longrightarrow> pool_step p p'"
| pool_starts: "ep_pc p = PIdle \<Longrightarrow> pool_step p (pool_start p)"
| pool_waits: "ep_pc p = PIdle \<Longrightarrow> ep_started p \<Longrightarrow> pool_step p (pool_wait p)"
| pool_next: "pool_step p (snd (getNextLoop p))"

inductive pool_reach :: "nat \<Rightarrow> thread_pool \<Rightarrow> bool" for n where
  pool_init: "pool_reach n (EventLoopThreadPool_new n)"
| pool_more: "pool_reach n p \<Longrightarrow> pool_step p p' \<Longrightarrow> pool_reach n p'"

section \<open>The invariant\<close>

text \<open>How many threads the owner has been through, and where the others are.\<close>

definition ready :: "thread_pool \<Rightarrow> nat \<Rightarrow> bool" where
  "ready p i \<longleftrightarrow> lt_own (ep_threads p ! i) \<in> {ORunning, OWait, OWaited}"

definition pool_inv :: "nat \<Rightarrow> thread_pool \<Rightarrow> bool" where
  "pool_inv n p \<longleftrightarrow> ep_threadNum p = n \<and> length (ep_threads p) \<le> n \<and>
     (\<forall>t\<in>set (ep_threads p). lt_reach False t) \<and>
     (ep_started p \<longrightarrow> (\<forall>i<length (ep_threads p). ready p i)) \<and>
     (case ep_pc p of
        PBuild i \<Rightarrow> i \<le> length (ep_threads p) \<and> \<not> ep_started p \<and> length (ep_threads p) \<le> Suc i
      | PStart i \<Rightarrow> length (ep_threads p) = n \<and> (\<forall>j<i. j < length (ep_threads p) \<longrightarrow> ready p j)
      | _ \<Rightarrow> length (ep_threads p) = n)"

lemma reach_own:
  assumes "lt_reach False t"
  shows "owner_step t = Inr t' \<Longrightarrow> lt_reach False t'" "owner_run t = Inr t' \<Longrightarrow> lt_reach False t'"
    "owner_wait t = Inr t' \<Longrightarrow> lt_reach False t'"
  using assms by (auto intro: lt_next lt_step.intros)

lemma set_thread_sel [simp]:
  "ep_threadNum (set_thread i t p) = ep_threadNum p" "ep_pc (set_thread i t p) = ep_pc p"
  "ep_started (set_thread i t p) = ep_started p" "ep_threads (set_thread i t p) = (ep_threads p)[i := t]"
  by (simp_all add: set_thread_def)

lemma set_thread_inv:
  assumes "pool_inv n p" "i < length (ep_threads p)" "lt_reach False t"
    and "ready p i \<Longrightarrow> lt_own t \<in> {ORunning, OWait, OWaited}"
  shows "pool_inv n (set_thread i t p)"
proof -
  have "ready p j \<Longrightarrow> ready (set_thread i t p) j" if "j < length (ep_threads p)" for j
    using assms(2,4) that by (cases "j = i") (auto simp: ready_def)
  moreover have "\<forall>t'\<in>set ((ep_threads p)[i := t]). lt_reach False t'"
    using assms(1,3) set_update_subset_insert [of "ep_threads p" i t] by (auto simp: pool_inv_def)
  ultimately show ?thesis using assms(1) by (auto simp: pool_inv_def split: pool_pc.splits)
qed

lemma own_ready:
  assumes "owner_step t = Inr t' \<or> owner_wait t = Inr t'" "lt_own t \<in> {ORunning, OWait, OWaited}"
  shows "lt_own t' \<in> {ORunning, OWait, OWaited}"
  using assms by (auto simp: owner_step_def owner_wait_def split: if_splits)

lemma pool_owner_inv:
  assumes run: "pool_owner p = Inr p'" and inv: "pool_inv n p"
  shows "pool_inv n p'"
proof -
  have reach: "i < length (ep_threads p) \<Longrightarrow> lt_reach False (ep_threads p ! i)" for i
    using inv by (simp add: pool_inv_def)
  have upd: "pool_inv n (set_thread i t p)"
    if "i < length (ep_threads p)" "owner_step (ep_threads p ! i) = Inr t \<or> owner_wait (ep_threads p ! i) = Inr t" for i t
    using that reach_own(1,3) [OF reach, of i t] own_ready [OF that(2)]
    by (intro set_thread_inv [OF inv]) (auto simp: ready_def)
  have updr: "pool_inv n (set_thread i t p)"
    if "i < length (ep_threads p)" "owner_run (ep_threads p ! i) = Inr t" "lt_own (ep_threads p ! i) = OBuilt" for i t
    using that reach_own(2) [OF reach, of i t] by (intro set_thread_inv [OF inv]) (auto simp: ready_def)
  show ?thesis
  proof (cases "ep_pc p")
    case (PBuild i)
    show ?thesis
    proof (cases "i < length (ep_threads p) \<and> lt_own (ep_threads p ! i) \<noteq> OBuilt")
      case True
      with PBuild run obtain t where "owner_step (ep_threads p ! i) = Inr t" "p' = set_thread i t p"
        by (auto simp: pool_owner_def Let_def bind_res_Inr_iff)
      with upd True show ?thesis by blast
    next
      case False
      with PBuild run inv show ?thesis
        by (auto simp: pool_owner_def Let_def pool_inv_def less_Suc_eq lt_init ready_def split: if_splits)
    qed
  next
    case (PStart i)
    show ?thesis
    proof (cases "i < length (ep_threads p) \<and> \<not> ready p i")
      case True
      with PStart run obtain t where "p' = set_thread i t p"
        "owner_step (ep_threads p ! i) = Inr t \<or>
         owner_run (ep_threads p ! i) = Inr t \<and> lt_own (ep_threads p ! i) = OBuilt"
        by (auto simp: pool_owner_def Let_def bind_res_Inr_iff ready_def split: if_splits)
      with upd updr True show ?thesis by blast
    next
      case False
      have "lt_own (ep_threads p ! i) = OWait \<Longrightarrow> i < length (ep_threads p) \<Longrightarrow>
          \<exists>t. owner_step (ep_threads p ! i) = Inr t \<and> p' = set_thread i t p"
        using PStart run by (auto simp: pool_owner_def Let_def bind_res_Inr_iff)
      then have "pool_inv n p'" if "lt_own (ep_threads p ! i) = OWait" "i < length (ep_threads p)"
        using upd that by blast
      moreover have "pool_inv n p'" if "lt_own (ep_threads p ! i) \<noteq> OWait" "i < length (ep_threads p)"
        using False PStart run inv that
        by (auto simp: pool_owner_def Let_def pool_inv_def less_Suc_eq ready_def split: if_splits)
      moreover have "pool_inv n p'" if at: "\<not> i < length (ep_threads p)"
      proof -
        have "ready p j" if "j < length (ep_threads p)" for j
          using inv PStart that at by (simp add: pool_inv_def)
        moreover have "p' = p\<lparr>ep_pc := PIdle, ep_started := True\<rparr>"
          using PStart run at by (simp add: pool_owner_def)
        ultimately show ?thesis using inv PStart by (simp add: pool_inv_def ready_def)
      qed
      ultimately show ?thesis by blast
    qed
  next
    case (PWait i)
    have pc: "pool_inv n (q\<lparr>ep_pc := PWait j\<rparr>)" if "pool_inv n q" "ep_pc q = PWait i" for q j
      using that by (simp add: pool_inv_def ready_def)
    show ?thesis
    proof (cases "i < length (ep_threads p)")
      case True
      with PWait run obtain t where
        "owner_step (ep_threads p ! i) = Inr t \<or> owner_wait (ep_threads p ! i) = Inr t"
        "p' = set_thread i t p \<or> p' = (set_thread i t p)\<lparr>ep_pc := PWait (Suc i)\<rparr>"
        by (auto simp: pool_owner_def Let_def bind_res_Inr_iff split: if_splits)
      then show ?thesis using upd [OF True, of t] pc [of "set_thread i t p"] PWait by auto
    next
      case False
      with PWait run have "p' = p\<lparr>ep_pc := PIdle\<rparr>" by (simp add: pool_owner_def)
      with PWait inv show ?thesis by (simp add: pool_inv_def ready_def)
    qed
  qed (use run in \<open>simp add: pool_owner_def\<close>)
qed

lemma pool_reach_inv: "pool_reach n p \<Longrightarrow> pool_inv n p"
proof (induction rule: pool_reach.induct)
  case (pool_more p p')
  from pool_more.hyps(2) show ?case
  proof cases
    case (pool_thread i t)
    then have "lt_reach False (ep_threads p ! i)" using pool_more.IH by (simp add: pool_inv_def)
    then have "lt_reach False t" using pool_thread(3) by (rule lt_next)
    then show ?thesis unfolding pool_thread(1)
      using pool_thread by (intro set_thread_inv [OF pool_more.IH]) (auto simp: ready_def)
  next
    case pool_own
    then show ?thesis using pool_owner_inv pool_more.IH by blast
  next
    case pool_next
    then show ?thesis using pool_more.IH
      by (auto simp: getNextLoop_def Let_def pool_inv_def ready_def split: pool_pc.splits)
  qed (use pool_more.IH in \<open>auto simp: pool_inv_def pool_start_def pool_wait_def ready_def\<close>)
qed (simp add: pool_inv_def EventLoopThreadPool_new_def ready_def)

section \<open>Round robin\<close>

fun next_loops :: "nat \<Rightarrow> thread_pool \<Rightarrow> nat option list \<times> thread_pool" where
  "next_loops 0 p = ([], p)"
| "next_loops (Suc m) p =
     (let (l, p) = getNextLoop p; (ls, p) = next_loops m p in (l # ls, p))"

lemma next_loops_map:
  assumes "0 < pool_size p" "ep_loopIndex p < sz_modulus"
  shows "fst (next_loops m p) =
    map (\<lambda>j. thread_getLoop ((ep_loopIndex p + j) mod sz_modulus mod pool_size p) p) [0..<m]"
  using assms
proof (induction m arbitrary: p)
  case (Suc m)
  let ?p = "p\<lparr>ep_loopIndex := sz_add (ep_loopIndex p) 1\<rparr>"
  have get: "thread_getLoop i ?p = thread_getLoop i p" for i by (simp add: thread_getLoop_def)
  have size: "pool_size ?p = pool_size p" by (simp add: pool_size_def)
  have idx: "ep_loopIndex ?p = (ep_loopIndex p + 1) mod sz_modulus" "0 < sz_modulus"
    using Suc.prems(2) by (simp_all add: sz_add_def)
  have "fst (next_loops m ?p) =
      map (\<lambda>j. thread_getLoop ((ep_loopIndex p + 1 + j) mod sz_modulus mod pool_size p) p) [0..<m]"
    using Suc.IH [of ?p] Suc.prems(1) idx unfolding size get by (simp add: mod_add_left_eq)
  moreover have "[0..<Suc m] = 0 # map Suc [0..<m]" by (simp add: upt_conv_Cons map_Suc_upt)
  moreover have "fst (next_loops (Suc m) p) =
      thread_getLoop (ep_loopIndex p mod pool_size p) p # fst (next_loops m ?p)"
    using Suc.prems(1) by (simp add: getNextLoop_def Let_def size get del: One_nat_def split: prod.splits)
  ultimately show ?case using Suc.prems(2) by (simp add: o_def)
qed simp

lemma count_Some: "count_list (map Some xs) (Some i) = count_list xs i"
  by (induction xs) auto

lemma count_residues: "i < n \<Longrightarrow> count_list (map (\<lambda>j. j mod n) [a..<a + n]) i = 1"
proof (induction a)
  case 0
  have "map (\<lambda>j. j mod n) [0..<n] = [0..<n]" by (rule map_idI) simp
  moreover have "count_list [0..<n] i = (if i < n then 1 else 0)" by (induction n) auto
  ultimately show ?case using 0 by simp
next
  case (Suc a)
  have "[a..<a + n] = a # [Suc a..<a + n]" using Suc.prems by (simp add: upt_conv_Cons)
  moreover have "[Suc a..<Suc a + n] = [Suc a..<a + n] @ [a + n]" using Suc.prems by simp
  ultimately show ?case using Suc by (auto split: if_splits)
qed

lemma count_rounds: "i < n \<Longrightarrow> count_list (map (\<lambda>j. j mod n) [a..<a + k * n]) i = k"
proof (induction k)
  case (Suc k)
  have "a + Suc k * n = a + k * n + n" by simp
  then have "[a..<a + Suc k * n] = [a..<a + k * n] @ [a + k * n..<a + k * n + n]"
    using upt_add_eq_append [of a "a + k * n" n] by (simp only: le_add1)
  with Suc count_residues [of i n "a + k * n"] show ?case by simp
qed simp

text \<open>
  A pool that has started hands out its loops in turn: while no loop has ended, k calls of
  \<open>getNextLoop\<close> for each thread of the pool give every loop exactly k times (as long as the index
  does not wrap), each of a thread whose loop runs.
\<close>

theorem pool_round_robin:
  assumes "pool_reach n p" "ep_started p" "0 < n" "\<forall>t\<in>set (ep_threads p). lt_pc t \<noteq> TExit"
    and "ep_loopIndex p + k * n \<le> sz_modulus" "0 < k" "i < n"
  shows "count_list (fst (next_loops (k * n) p)) (Some i) = k \<and> lt_loopPromise (ep_threads p ! i)"
proof -
  note inv = pool_reach_inv [OF assms(1)]
  have size: "pool_size p = n"
  proof (cases "ep_pc p")
    case (PBuild j)
    with inv assms(2) show ?thesis by (simp add: pool_inv_def)
  qed (use inv in \<open>simp_all add: pool_inv_def pool_size_def\<close>)
  have ok: "lt_inv (ep_threads p ! j)" "ready p j" if "j < n" for j
    using inv that size lt_reach_inv assms(2) by (auto simp: pool_inv_def pool_size_def)
  have ptr: "lt_loopPtr (ep_threads p ! j)" if "j < n" for j
    using ok [OF that] assms(4) that size
    by (auto simp: lt_inv_def ptr_ok_def ready_def pool_size_def)
  have get: "thread_getLoop (j mod n) p = Some (j mod n)" for j
    using ptr [of "j mod n"] assms(3) by (simp add: thread_getLoop_def)
  have "0 < k * n" using assms(3,6) by simp
  with assms(5) have bound: "ep_loopIndex p < sz_modulus" by linarith
  have "fst (next_loops (k * n) p) =
      map (\<lambda>j. thread_getLoop ((ep_loopIndex p + j) mod n) p) [0..<k * n]"
    unfolding next_loops_map [OF assms(3) [folded size] bound] size
    by (rule map_cong [OF refl]) (use assms(5) in simp)
  also have "\<dots> = map Some (map (\<lambda>j. j mod n) [ep_loopIndex p..<ep_loopIndex p + k * n])"
    unfolding get by (rule nth_equalityI) auto
  finally have "count_list (fst (next_loops (k * n) p)) (Some i) =
      count_list (map (\<lambda>j. j mod n) [ep_loopIndex p..<ep_loopIndex p + k * n]) i"
    by (simp only: count_Some)
  with count_rounds [OF assms(7)] ok [OF assms(7)] show ?thesis
    by (auto simp: lt_inv_def run_ok_def has_run_def ready_def)
qed

section \<open>A pool of one\<close>

datatype pool_act = PThread nat | POwner | PStarts

fun pool_do :: "pool_act \<Rightarrow> thread_pool \<Rightarrow> thread_pool res" where
  "pool_do (PThread i) p =
     (if i < length (ep_threads p)
      then bind_res (thread_step (ep_threads p ! i)) (\<lambda>t. Inr (set_thread i t p)) else Inl OutOfBounds)"
| "pool_do POwner p = pool_owner p"
| "pool_do PStarts p = (if ep_pc p = PIdle then Inr (pool_start p) else Inl Blocked)"

fun pool_play :: "pool_act list \<Rightarrow> thread_pool \<Rightarrow> thread_pool res" where
  "pool_play [] p = Inr p"
| "pool_play (a # as) p = bind_res (pool_do a p) (pool_play as)"

lemma pool_do_step: "pool_do a p = Inr p' \<Longrightarrow> pool_step p p'"
proof (cases a)
  case (PThread i)
  assume run: "pool_do a p = Inr p'"
  with PThread obtain t where t: "i < length (ep_threads p)" "thread_step (ep_threads p ! i) = Inr t"
    "p' = set_thread i t p" by (auto simp: bind_res_Inr_iff split: if_splits)
  have "lt_own t = lt_own (ep_threads p ! i)"
    using thread_own [OF t(2)] by simp
  with t show ?thesis by (auto intro: pool_thread lt_thread)
qed (auto intro: pool_step.intros split: if_splits)

lemma pool_play_reach: "pool_play as p = Inr p' \<Longrightarrow> pool_reach n p \<Longrightarrow> pool_reach n p'"
proof (induction as arbitrary: p)
  case (Cons a as)
  then obtain q where "pool_do a p = Inr q" "pool_play as q = Inr p'" by (auto simp: bind_res_Inr_iff)
  with Cons pool_more [OF Cons.prems(2) pool_do_step] show ?case by blast
qed simp

definition one_thread :: "pool_act list" where
  "one_thread = [POwner, PThread 0, PThread 0, PThread 0, POwner, POwner, POwner, PStarts,
     POwner, POwner, PThread 0, PThread 0, PThread 0, PThread 0, PThread 0, PThread 0, PThread 0, POwner,
     POwner, POwner]"

lemmas pool_eval = one_thread_def EventLoopThreadPool_new_def pool_owner_def set_thread_def pool_start_def
  lt_eval

lemma one_thread_run:
  "\<exists>p. pool_play one_thread (EventLoopThreadPool_new 1) = Inr p \<and> ep_started p \<and> ep_loopIndex p = 0 \<and>
     (\<forall>t\<in>set (ep_threads p). lt_pc t \<noteq> TExit)"
  by (simp add: pool_eval)

theorem pool_round_robin_witness:
  "\<exists>p. pool_play one_thread (EventLoopThreadPool_new 1) = Inr p \<and>
     count_list (fst (next_loops (3 * 1) p)) (Some 0) = 3"
proof -
  obtain p where p: "pool_play one_thread (EventLoopThreadPool_new 1) = Inr p" "ep_started p"
    "ep_loopIndex p = 0" "\<forall>t\<in>set (ep_threads p). lt_pc t \<noteq> TExit" using one_thread_run by blast
  have reach: "pool_reach 1 p" by (rule pool_play_reach [OF p(1) pool_init])
  have idx: "ep_loopIndex p + 3 * 1 \<le> sz_modulus" unfolding p(3) by simp
  from pool_round_robin [OF reach p(2) _ p(4) idx, of 0] p(1) show ?thesis by auto
qed

end
