(* ===== verification/SerialTaskQueue.thy ===== *)
theory SerialTaskQueue
  imports EventLoopThreadProps
begin

text \<open>
  The serial queue of src/xiaoNet/utils/SerialTaskQueue.h and SerialTaskQueue.cpp, an event loop
  thread that runs tasks, and \<open>syncTaskInQueue\<close> of TaskQueue.h. Tasks are numbers; they are queued
  from threads other than that of the loop, where \<open>runInLoop\<close> queues.
\<close>

section \<open>State and operations\<close>

text \<open>Where the owner is: in the constructor, outside, in \<open>stop\<close> before and after \<open>quit\<close>, in the destructor, after it.\<close>

datatype sq_pc = SqBuild | SqIdle | SqQuit | SqJoin | SqDestroy | SqGone

record serial_queue =
  sq_thread :: lthread
  sq_stop :: bool
  sq_destroying :: bool
  sq_pc :: sq_pc

definition SerialTaskQueue_new :: serial_queue where
  "SerialTaskQueue_new = \<lparr>sq_thread = lt_new, sq_stop = False, sq_destroying = False, sq_pc = SqBuild\<rparr>"

definition sq_thread_do :: "(lthread \<Rightarrow> lthread res) \<Rightarrow> serial_queue \<Rightarrow> serial_queue res" where
  "sq_thread_do f q = bind_res (f (sq_thread q)) (\<lambda>t. Inr (q\<lparr>sq_thread := t\<rparr>))"

definition SerialTaskQueue_runTaskInQueue :: "nat \<Rightarrow> serial_queue \<Rightarrow> serial_queue res" where
  "SerialTaskQueue_runTaskInQueue task q =
     (if lt_loopPtr (sq_thread q) then Inr (q\<lparr>sq_thread := other_queue task (sq_thread q)\<rparr>)
      else Inl OutOfBounds)"

text \<open>\<open>waitAllTasksFinished\<close> is \<open>syncTaskInQueue\<close> with an empty task; both return when it has run.\<close>

definition syncTaskInQueue :: "nat \<Rightarrow> serial_queue \<Rightarrow> serial_queue res" where
  "syncTaskInQueue task q = SerialTaskQueue_runTaskInQueue task q"

definition sync_returns :: "nat \<Rightarrow> serial_queue \<Rightarrow> bool" where
  "sync_returns task q \<longleftrightarrow> task \<in> set (lt_ran (sq_thread q))"

definition isRunningTask :: "serial_queue \<Rightarrow> bool" where
  "isRunningTask q \<longleftrightarrow> lt_loopPtr (sq_thread q) \<and> lt_pc (sq_thread q) = TFuncs"

definition SerialTaskQueue_stop :: "serial_queue \<Rightarrow> serial_queue res" where
  "SerialTaskQueue_stop q = sq_thread_do owner_quit (q\<lparr>sq_stop := True, sq_pc := SqQuit\<rparr>)"

definition SerialTaskQueue_destroy :: "serial_queue \<Rightarrow> serial_queue res" where
  "SerialTaskQueue_destroy q =
     (let q = q\<lparr>sq_destroying := True\<rparr> in
      if \<not> sq_stop q then SerialTaskQueue_stop q
      else sq_thread_do owner_destroy (q\<lparr>sq_pc := SqDestroy\<rparr>))"

text \<open>
  The owner inside an operation: the constructor runs the thread, \<open>stop\<close> waits for it, and the
  destructor of the member follows.
\<close>

definition sq_owner :: "serial_queue \<Rightarrow> serial_queue res" where
  "sq_owner q = (case sq_pc q of
     SqBuild \<Rightarrow>
       (if lt_own (sq_thread q) = ORunning then Inr (q\<lparr>sq_pc := SqIdle\<rparr>)
        else if lt_own (sq_thread q) = OBuilt then sq_thread_do owner_run q
        else sq_thread_do owner_step q)
   | SqQuit \<Rightarrow>
       (if lt_own (sq_thread q) = ORunning then sq_thread_do owner_wait (q\<lparr>sq_pc := SqJoin\<rparr>)
        else sq_thread_do owner_step q)
   | SqJoin \<Rightarrow>
       (if lt_own (sq_thread q) = OWaited then
          (if sq_destroying q then sq_thread_do owner_destroy (q\<lparr>sq_pc := SqDestroy\<rparr>)
           else Inr (q\<lparr>sq_pc := SqIdle\<rparr>))
        else sq_thread_do owner_step q)
   | SqDestroy \<Rightarrow>
       (if lt_own (sq_thread q) = ODestroyed then Inr (q\<lparr>sq_pc := SqGone\<rparr>)
        else sq_thread_do owner_step q)
   | _ \<Rightarrow> Inl Blocked)"

inductive sq_step :: "serial_queue \<Rightarrow> serial_queue \<Rightarrow> bool" where
  sq_loop: "lt_step False (sq_thread q) t \<Longrightarrow> lt_own t = lt_own (sq_thread q) \<Longrightarrow> sq_step q (q\<lparr>sq_thread := t\<rparr>)"
| sq_run: "SerialTaskQueue_runTaskInQueue task q = Inr q' \<Longrightarrow> sq_step q q'"
| sq_sync: "syncTaskInQueue task q = Inr q' \<Longrightarrow> sq_step q q'"
| sq_stops: "sq_pc q = SqIdle \<Longrightarrow> \<not> sq_stop q \<Longrightarrow> SerialTaskQueue_stop q = Inr q' \<Longrightarrow> sq_step q q'"
| sq_destroys: "sq_pc q = SqIdle \<Longrightarrow> SerialTaskQueue_destroy q = Inr q' \<Longrightarrow> sq_step q q'"
| sq_own: "sq_owner q = Inr q' \<Longrightarrow> sq_step q q'"

inductive sq_reach :: "serial_queue \<Rightarrow> bool" where
  sq_init: "sq_reach SerialTaskQueue_new"
| sq_more: "sq_reach q \<Longrightarrow> sq_step q q' \<Longrightarrow> sq_reach q'"

section \<open>The queue uses its thread as the protocol allows\<close>

lemma thread_do:
  assumes "sq_thread_do f q = Inr q'" "f \<in> {owner_step, owner_run, owner_wait, owner_quit, owner_destroy}"
  shows "lt_step False (sq_thread q) (sq_thread q')"
  using assms by (auto simp: sq_thread_do_def bind_res_Inr_iff intro: lt_step.intros)

lemma serial_queue_step: "SerialTaskQueue_runTaskInQueue task q = Inr q' \<Longrightarrow> lt_step False (sq_thread q) (sq_thread q')"
  by (auto simp: SerialTaskQueue_runTaskInQueue_def intro: lt_queue split: if_splits)

lemma serial_stop_step:
  "SerialTaskQueue_stop q = Inr q' \<Longrightarrow> lt_step False (sq_thread q) (sq_thread q')"
  "SerialTaskQueue_destroy q = Inr q' \<Longrightarrow> lt_step False (sq_thread q) (sq_thread q')"
  by (auto simp: SerialTaskQueue_stop_def SerialTaskQueue_destroy_def Let_def dest!: thread_do split: if_splits)

lemma owner_thread:
  assumes "sq_owner q = Inr q'"
  shows "lt_step False (sq_thread q) (sq_thread q') \<or> sq_thread q' = sq_thread q"
  using assms by (auto simp: sq_owner_def dest!: thread_do split: sq_pc.splits if_splits)

lemma sq_reach_thread: "sq_reach q \<Longrightarrow> lt_reach False (sq_thread q)"
proof (induction rule: sq_reach.induct)
  case (sq_more q q')
  from sq_more.hyps(2) have "lt_step False (sq_thread q) (sq_thread q') \<or> sq_thread q' = sq_thread q"
    by cases (auto simp: syncTaskInQueue_def dest: serial_queue_step serial_stop_step owner_thread)
  with sq_more.IH show ?case by (auto intro: lt_next)
qed (simp add: SerialTaskQueue_new_def lt_init)

section \<open>Properties\<close>


section \<open>Runs\<close>

datatype sq_act = SqThread | SqOwner | SqTask nat | SqStop

fun sq_do :: "sq_act \<Rightarrow> serial_queue \<Rightarrow> serial_queue res" where
  "sq_do SqThread q = sq_thread_do thread_step q"
| "sq_do SqOwner q = sq_owner q"
| "sq_do (SqTask t) q = syncTaskInQueue t q"
| "sq_do SqStop q = (if sq_pc q = SqIdle \<and> \<not> sq_stop q then SerialTaskQueue_stop q else Inl Blocked)"

fun sq_play :: "sq_act list \<Rightarrow> serial_queue \<Rightarrow> serial_queue res" where
  "sq_play [] q = Inr q"
| "sq_play (a # as) q = bind_res (sq_do a q) (sq_play as)"

lemma sq_do_step: "sq_do a q = Inr q' \<Longrightarrow> sq_step q q'"
proof (cases a)
  case SqThread
  assume "sq_do a q = Inr q'"
  with SqThread obtain t where t: "thread_step (sq_thread q) = Inr t" "q' = q\<lparr>sq_thread := t\<rparr>"
    by (auto simp: sq_thread_do_def bind_res_Inr_iff)
  then show ?thesis using thread_own [OF t(1)] by (auto intro: sq_loop lt_thread)
qed (auto intro: sq_step.intros split: if_splits)

lemma sq_play_steps: "sq_play as q = Inr q' \<Longrightarrow> sq_step\<^sup>*\<^sup>* q q'"
proof (induction as arbitrary: q)
  case (Cons a as)
  then obtain r where "sq_do a q = Inr r" "sq_play as r = Inr q'" by (auto simp: bind_res_Inr_iff)
  with Cons.IH sq_do_step show ?case by (meson converse_rtranclp_into_rtranclp)
qed simp

lemma sq_steps_reach: "sq_step\<^sup>*\<^sup>* q q' \<Longrightarrow> sq_reach q \<Longrightarrow> sq_reach q'"
  by (induction rule: rtranclp_induct) (auto intro: sq_more)

lemmas sq_eval = SerialTaskQueue_new_def sq_thread_do_def sq_owner_def syncTaskInQueue_def
  SerialTaskQueue_runTaskInQueue_def SerialTaskQueue_stop_def lt_eval

definition sq_built :: "sq_act list" where
  "sq_built = [SqThread, SqThread, SqThread, SqOwner, SqOwner, SqOwner, SqThread, SqThread, SqThread,
     SqThread, SqThread, SqThread, SqThread, SqOwner, SqOwner]"


text \<open>Nothing happens to a thread that has ended.\<close>

lemma ended_step:
  assumes "lt_step False t t'" "lt_pc t = TExit" "\<not> lt_loopPtr t" "lt_own t \<noteq> OConstruct"
  shows "lt_pc t' = TExit \<and> \<not> lt_loopPtr t' \<and> lt_own t' \<noteq> OConstruct \<and> lt_ran t' = lt_ran t"
  using assms(1)
proof cases
  case lt_thread
  with assms(2) show ?thesis by (simp add: thread_step_def)
next
  case lt_waker
  with assms show ?thesis by (simp add: other_wakeup_def)
qed (use assms in \<open>auto dest!: owner_actI dest: owner_frame owner_leaves\<close>)

lemma sq_step_thread: "sq_step q q' \<Longrightarrow> lt_step False (sq_thread q) (sq_thread q') \<or> sq_thread q' = sq_thread q"
  by (erule sq_step.cases) (auto simp: syncTaskInQueue_def dest: serial_queue_step serial_stop_step owner_thread)

lemma ended_steps:
  assumes "sq_step\<^sup>*\<^sup>* q q'" "lt_pc (sq_thread q) = TExit" "\<not> lt_loopPtr (sq_thread q)" "lt_own (sq_thread q) \<noteq> OConstruct"
  shows "lt_pc (sq_thread q') = TExit \<and> \<not> lt_loopPtr (sq_thread q') \<and> lt_own (sq_thread q') \<noteq> OConstruct \<and>
    lt_ran (sq_thread q') = lt_ran (sq_thread q)"
  using assms(1)
proof (induction rule: rtranclp_induct)
  case (step q1 q2)
  with sq_step_thread [OF step.hyps(2)] ended_step [of "sq_thread q1" "sq_thread q2"] show ?case by auto
qed (use assms in simp)

text \<open>
  \<open>stop\<close> may strand tasks: a task queued before it is called, and waited for with
  \<open>syncTaskInQueue\<close>, may never run, since the loop leaves at the first test of its flag. The caller
  waits for ever.
\<close>

lemma serial_stop_strands:
  "\<exists>q0 q. sq_reach q0 \<and> \<not> sq_stop q0 \<and> lt_queued (sq_thread q0) = [7] \<and> sq_step\<^sup>*\<^sup>* q0 q \<and>
     sq_pc q = SqIdle \<and> sq_stop q \<and> (\<forall>q'. sq_step\<^sup>*\<^sup>* q q' \<longrightarrow> \<not> sync_returns 7 q')"
proof -
  obtain q0 where q0: "sq_play (sq_built @ [SqThread, SqTask 7]) SerialTaskQueue_new = Inr q0"
    "\<not> sq_stop q0" "lt_queued (sq_thread q0) = [7]"
    and next0: "\<exists>q. sq_play [SqStop, SqOwner, SqOwner, SqOwner, SqThread, SqThread, SqThread, SqOwner, SqOwner] q0 = Inr q \<and>
      sq_pc q = SqIdle \<and> sq_stop q \<and> lt_pc (sq_thread q) = TExit \<and> \<not> lt_loopPtr (sq_thread q) \<and>
      lt_own (sq_thread q) \<noteq> OConstruct \<and> lt_ran (sq_thread q) = []"
    by (simp add: sq_built_def sq_eval)
  from next0 obtain q where
    run: "sq_play [SqStop, SqOwner, SqOwner, SqOwner, SqThread, SqThread, SqThread, SqOwner, SqOwner] q0 = Inr q"
    and q: "sq_pc q = SqIdle" "sq_stop q" "lt_pc (sq_thread q) = TExit" "\<not> lt_loopPtr (sq_thread q)"
      "lt_own (sq_thread q) \<noteq> OConstruct" "lt_ran (sq_thread q) = []" by blast
  have "sq_reach q0" by (rule sq_steps_reach [OF sq_play_steps [OF q0(1)] sq_init])
  moreover have "\<not> sync_returns 7 q'" if "sq_step\<^sup>*\<^sup>* q q'" for q'
    using ended_steps [OF that q(3-5)] q(6) by (simp add: sync_returns_def)
  ultimately show ?thesis using q0(2,3) q(1,2) sq_play_steps [OF run] by blast
qed

end
