(* ===== verification/TlsProvider.thy ===== *)
theory TlsProvider
  imports MsgBufferInts BufferNode
begin

text \<open>
  The part of src/xiaoNet/net/inner/TLSProvider.h that is code: the buffer of encrypted data that
  waits for the socket, and the callbacks. The virtual functions have no implementation in the
  repository. Also the policy of src/xiaoNet/net/TLSPolicy.h.
\<close>

section \<open>Policies\<close>

record TLSPolicy =
  pol_sslConfCmds :: "(string \<times> string) list"
  pol_hostname :: string
  pol_certPath :: string
  pol_keyPath :: string
  pol_caPath :: string
  pol_alpnProtocols :: "string list"
  pol_useOldTLS :: bool
  pol_validate :: bool
  pol_allowBrokenChain :: bool
  pol_useSystemCertStore :: bool

definition TLSPolicy_new :: TLSPolicy where
  "TLSPolicy_new = \<lparr>pol_sslConfCmds = [], pol_hostname = '''', pol_certPath = '''', pol_keyPath = '''',
     pol_caPath = '''', pol_alpnProtocols = [], pol_useOldTLS = False, pol_validate = True,
     pol_allowBrokenChain = False, pol_useSystemCertStore = True\<rparr>"

definition setConfCmds :: "(string \<times> string) list \<Rightarrow> TLSPolicy \<Rightarrow> TLSPolicy" where
  "setConfCmds cmds p = p\<lparr>pol_sslConfCmds := cmds\<rparr>"

definition setHostname :: "string \<Rightarrow> TLSPolicy \<Rightarrow> TLSPolicy" where
  "setHostname h p = p\<lparr>pol_hostname := h\<rparr>"

definition setCertPath :: "string \<Rightarrow> TLSPolicy \<Rightarrow> TLSPolicy" where
  "setCertPath path p = p\<lparr>pol_certPath := path\<rparr>"

definition setKeyPath :: "string \<Rightarrow> TLSPolicy \<Rightarrow> TLSPolicy" where
  "setKeyPath path p = p\<lparr>pol_keyPath := path\<rparr>"

definition setCaPath :: "string \<Rightarrow> TLSPolicy \<Rightarrow> TLSPolicy" where
  "setCaPath path p = p\<lparr>pol_caPath := path\<rparr>"

definition setUseOldTLS :: "bool \<Rightarrow> TLSPolicy \<Rightarrow> TLSPolicy" where
  "setUseOldTLS b p = p\<lparr>pol_useOldTLS := b\<rparr>"

definition setAlpnProtocols :: "string list \<Rightarrow> TLSPolicy \<Rightarrow> TLSPolicy" where
  "setAlpnProtocols ps p = p\<lparr>pol_alpnProtocols := ps\<rparr>"

definition setUseSystemCertStore :: "bool \<Rightarrow> TLSPolicy \<Rightarrow> TLSPolicy" where
  "setUseSystemCertStore b p = p\<lparr>pol_useSystemCertStore := b\<rparr>"

definition setValidate :: "bool \<Rightarrow> TLSPolicy \<Rightarrow> TLSPolicy" where
  "setValidate b p = p\<lparr>pol_validate := b\<rparr>"

definition setAllowBrokenChain :: "bool \<Rightarrow> TLSPolicy \<Rightarrow> TLSPolicy" where
  "setAllowBrokenChain b p = p\<lparr>pol_allowBrokenChain := b\<rparr>"

definition defaultServerPolicy :: "string \<Rightarrow> string \<Rightarrow> TLSPolicy" where
  "defaultServerPolicy cert key =
     setKeyPath key (setCertPath cert (setUseSystemCertStore False (setUseOldTLS False
       (setValidate False TLSPolicy_new))))"

definition defaultClientPolicy :: "string \<Rightarrow> TLSPolicy" where
  "defaultClientPolicy hostname =
     setHostname hostname (setUseSystemCertStore True (setUseOldTLS False (setValidate True TLSPolicy_new)))"

lemmas policy_defs = TLSPolicy_new_def setConfCmds_def setHostname_def setCertPath_def setKeyPath_def
  setCaPath_def setUseOldTLS_def setAlpnProtocols_def setUseSystemCertStore_def setValidate_def
  setAllowBrokenChain_def defaultServerPolicy_def defaultClientPolicy_def

text \<open>A client validates what a server does not: the default policies differ in nothing else but names.\<close>

lemma default_policies:
  "defaultClientPolicy h = (defaultServerPolicy c k)
     \<lparr>pol_validate := True, pol_useSystemCertStore := True, pol_hostname := h, pol_certPath := '''',
      pol_keyPath := ''''\<rparr>"
  by (simp add: policy_defs)

section \<open>Providers\<close>

text \<open>
  The constructor initialises none of the members it has arguments for: the connection is null.
  \<open>tp_writeCb\<close> and the like say whether a callback was set. Certificates are numbers.
\<close>

record tls_provider =
  tp_conn :: "nat option"
  tp_writeCb :: bool
  tp_errorCb :: bool
  tp_handshakeCb :: bool
  tp_messageCb :: bool
  tp_closeCb :: bool
  tp_recvBuffer :: MsgBuffer
  tp_peerCertificate :: "nat option"
  tp_applicationProtocol :: string
  tp_sniName :: string
  tp_writeBuffer :: MsgBuffer

definition TLSProvider_new :: "nat \<Rightarrow> tls_provider res" where
  "TLSProvider_new conn =
     bind_res (MsgBuffer_new kBufferDefaultLength)
       (\<lambda>b. Inr \<lparr>tp_conn = None, tp_writeCb = False, tp_errorCb = False, tp_handshakeCb = False,
                tp_messageCb = False, tp_closeCb = False, tp_recvBuffer = b, tp_peerCertificate = None,
                tp_applicationProtocol = '''', tp_sniName = '''', tp_writeBuffer = b\<rparr>)"

definition setWriteCb :: "tls_provider \<Rightarrow> tls_provider" where
  "setWriteCb p = p\<lparr>tp_writeCb := True\<rparr>"

definition provider_setErrorCallback :: "tls_provider \<Rightarrow> tls_provider" where
  "provider_setErrorCallback p = p\<lparr>tp_errorCb := True\<rparr>"

definition provider_setHandshakeCallback :: "tls_provider \<Rightarrow> tls_provider" where
  "provider_setHandshakeCallback p = p\<lparr>tp_handshakeCb := True\<rparr>"

definition provider_setMessageCallback :: "tls_provider \<Rightarrow> tls_provider" where
  "provider_setMessageCallback p = p\<lparr>tp_messageCb := True\<rparr>"

definition provider_setCloseCallback :: "tls_provider \<Rightarrow> tls_provider" where
  "provider_setCloseCallback p = p\<lparr>tp_closeCb := True\<rparr>"

text \<open>What the derived class learns in the handshake.\<close>

definition setPeerCertificate :: "nat \<Rightarrow> tls_provider \<Rightarrow> tls_provider" where
  "setPeerCertificate cert p = p\<lparr>tp_peerCertificate := Some cert\<rparr>"

definition setApplicationProtocol :: "string \<Rightarrow> tls_provider \<Rightarrow> tls_provider" where
  "setApplicationProtocol protocol p = p\<lparr>tp_applicationProtocol := protocol\<rparr>"

definition setSniName :: "string \<Rightarrow> tls_provider \<Rightarrow> tls_provider" where
  "setSniName nm p = p\<lparr>tp_sniName := nm\<rparr>"

text \<open>\<open>write\<close> is the callback, on the connection, the data and a world; its result is a \<open>ssize_t\<close>.\<close>

type_synonym 'w tls_write = "nat option \<Rightarrow> byte list \<Rightarrow> 'w \<Rightarrow> int \<times> 'w"

definition sendBufferedData :: "'w tls_write \<Rightarrow> tls_provider \<Rightarrow> 'w \<Rightarrow> (bool \<times> tls_provider \<times> 'w) res" where
  "sendBufferedData write p w =
     (let b = tp_writeBuffer p in
      if readableBytes b = 0 then Inr (True, p, w)
      else if \<not> tp_writeCb p then Inl OutOfBounds
      else bind_res (MsgBuffer_peek b (readableBytes b))
        (\<lambda>data. let (n, w) = write (tp_conn p) data w in
           if n = -1 then Inr (False, p, w)
           else if size_of_int n \<noteq> readableBytes b
           then Inr (False, p\<lparr>tp_writeBuffer := MsgBuffer_retrieve b (size_of_int n)\<rparr>, w)
           else Inr (True, p\<lparr>tp_writeBuffer := retrieveAll b\<rparr>, w)))"

definition appendToWriteBuffer :: "byte list \<Rightarrow> tls_provider \<Rightarrow> tls_provider res" where
  "appendToWriteBuffer bs p =
     bind_res (ensureWritableBytes (length bs) (tp_writeBuffer p))
       (\<lambda>b. bind_res (MsgBuffer_append b bs) (\<lambda>b. Inr (p\<lparr>tp_writeBuffer := b\<rparr>)))"

section \<open>A run\<close>

datatype tls_op = TlsAppend "byte list" | TlsSend

text \<open>What one send delivers: the bytes the callback says it took.\<close>

definition taken :: "'w tls_write \<Rightarrow> tls_provider \<Rightarrow> 'w \<Rightarrow> byte list" where
  "taken write p w =
     (let data = mb_content (tp_writeBuffer p); n = fst (write (tp_conn p) data w)
      in if data = [] \<or> n = -1 then [] else take (size_of_int n) data)"

fun tls_run :: "'w tls_write \<Rightarrow> tls_op list \<Rightarrow> tls_provider \<Rightarrow> 'w \<Rightarrow> (byte list \<times> tls_provider \<times> 'w) res" where
  "tls_run write [] p w = Inr ([], p, w)"
| "tls_run write (TlsAppend bs # ops) p w =
     bind_res (appendToWriteBuffer bs p) (\<lambda>p. tls_run write ops p w)"
| "tls_run write (TlsSend # ops) p w =
     bind_res (sendBufferedData write p w) (\<lambda>(ok, p', w').
       bind_res (tls_run write ops p' w') (\<lambda>(out, r). Inr (taken write p w @ out, r)))"

fun tls_bytes :: "tls_op list \<Rightarrow> byte list" where
  "tls_bytes [] = []"
| "tls_bytes (TlsAppend bs # ops) = bs @ tls_bytes ops"
| "tls_bytes (TlsSend # ops) = tls_bytes ops"

fun tls_bounded :: "tls_op list \<Rightarrow> bool" where
  "tls_bounded [] = True"
| "tls_bounded (TlsAppend bs # ops) = (length bs \<le> alloc_max \<and> tls_bounded ops)"
| "tls_bounded (TlsSend # ops) = tls_bounded ops"

text \<open>A callback that reports an error as -1 and otherwise how many of the bytes it took.\<close>

definition honest :: "'w tls_write \<Rightarrow> bool" where
  "honest write \<longleftrightarrow> (\<forall>c data w. -1 \<le> fst (write c data w) \<and> fst (write c data w) \<le> int (length data))"

lemma append_buffer:
  assumes "mb_wf (tp_writeBuffer p)" "length bs \<le> alloc_max"
  shows "appendToWriteBuffer bs p = Inl AllocError \<or>
    (\<exists>b. appendToWriteBuffer bs p = Inr (p\<lparr>tp_writeBuffer := b\<rparr>) \<and> mb_wf b \<and>
       mb_content b = mb_content (tp_writeBuffer p) @ bs)"
proof -
  from ensure_room [OF assms] consider "ensureWritableBytes (length bs) (tp_writeBuffer p) = Inl AllocError"
    | b where "ensureWritableBytes (length bs) (tp_writeBuffer p) = Inr b" "mb_wf b"
        "mb_content b = mb_content (tp_writeBuffer p)" by blast
  then show ?thesis
  proof cases
    case (2 b)
    with append_result [OF 2(2) assms(2)] show ?thesis by (auto simp: appendToWriteBuffer_def)
  qed (simp add: appendToWriteBuffer_def)
qed

lemma send_buffer:
  assumes wf: "mb_wf (tp_writeBuffer p)" and cb: "tp_writeCb p" and hon: "honest write"
  shows "\<exists>ok b w'. sendBufferedData write p w = Inr (ok, p\<lparr>tp_writeBuffer := b\<rparr>, w') \<and> mb_wf b \<and>
    taken write p w @ mb_content b = mb_content (tp_writeBuffer p) \<and> (ok \<longleftrightarrow> mb_content b = [])"
proof -
  let ?b = "tp_writeBuffer p"
  let ?data = "mb_content (tp_writeBuffer p)"
  obtain n w' where cbk: "write (tp_conn p) ?data w = (n, w')" by (metis surj_pair)
  have n: "-1 \<le> n" "n \<le> int (length ?data)" using hon cbk unfolding honest_def by (metis fst_conv)+
  have len: "readableBytes ?b = length ?data" using wf by (rule readable_content)
  have bound: "length ?data < sz_modulus"
    unfolding len [symmetric] by (simp add: readableBytes_def sz_sub_def)
  have peek: "MsgBuffer_peek ?b (length ?data) = Inr ?data"
    using peek_prefix [OF wf, of "length ?data"] len by simp
  have result: "\<exists>ok b w'. sendBufferedData write p w = Inr (ok, p\<lparr>tp_writeBuffer := b\<rparr>, w') \<and> mb_wf b \<and>
      taken write p w @ mb_content b = ?data \<and> (ok \<longleftrightarrow> mb_content b = [])"
    if "sendBufferedData write p w = Inr (ok, p\<lparr>tp_writeBuffer := b\<rparr>, w1)" "mb_wf b"
      "taken write p w @ mb_content b = ?data" "ok \<longleftrightarrow> mb_content b = []" for ok b w1
    using that by blast
  consider (empty) "?data = []" | (fail) "?data \<noteq> []" "n = -1"
    | (part) "?data \<noteq> []" "0 \<le> n" "n < int (length ?data)" | (all) "?data \<noteq> []" "n = int (length ?data)"
    using n by linarith
  then show ?thesis
  proof cases
    case empty
    then show ?thesis
      by (intro result [of True ?b w]) (simp_all add: sendBufferedData_def taken_def len wf)
  next
    case fail
    then show ?thesis using cbk cb peek
      by (intro result [of False ?b w']) (simp_all add: sendBufferedData_def taken_def len wf)
  next
    case part
    have "n mod int sz_modulus = n" using part bound by (intro mod_pos_pos_trivial) linarith+
    with part have "size_of_int n = nat n" "nat n < length ?data"
      unfolding size_of_int_def by linarith+
    with part show ?thesis using cbk cb peek
      by (intro result [of False "MsgBuffer_retrieve ?b (nat n)" w'])
        (simp_all add: sendBufferedData_def taken_def len Let_def retrieve_wf [OF wf] retrieve_content [OF wf])
  next
    case all
    have "n mod int sz_modulus = n" using all bound by (intro mod_pos_pos_trivial) linarith+
    with all have "size_of_int n = length ?data" unfolding size_of_int_def by linarith
    with all show ?thesis using cbk cb peek
      by (intro result [of True "retrieveAll ?b" w'])
        (simp_all add: sendBufferedData_def taken_def len Let_def retrieveAll_wf [OF wf] retrieveAll_content)
  qed
qed

text \<open>
  C40. The data a provider encrypts reaches the socket as a stream: whatever the callback takes at
  each attempt, errors included, the bytes taken and those still buffered are the bytes appended,
  in order.
\<close>

theorem tls_buffer_stream:
  assumes "TLSProvider_new conn = Inr p" "honest write" "tls_bounded ops"
  shows "tls_run write ops (setWriteCb p) w = Inl AllocError \<or>
    (\<exists>out p' w'. tls_run write ops (setWriteCb p) w = Inr (out, p', w') \<and>
       out @ mb_content (tp_writeBuffer p') = tls_bytes ops)"
proof -
  have run: "tls_run write ops q w = Inl AllocError \<or>
      (\<exists>out p' w'. tls_run write ops q w = Inr (out, p', w') \<and>
         out @ mb_content (tp_writeBuffer p') = mb_content (tp_writeBuffer q) @ tls_bytes ops)"
    if "mb_wf (tp_writeBuffer q)" "tp_writeCb q" "tls_bounded ops" for q ops w
    using that
  proof (induction ops arbitrary: q w)
    case (Cons op ops)
    show ?case
    proof (cases op)
      case (TlsAppend bs)
      with Cons.prems append_buffer [of q bs] consider "appendToWriteBuffer bs q = Inl AllocError"
        | b where "appendToWriteBuffer bs q = Inr (q\<lparr>tp_writeBuffer := b\<rparr>)" "mb_wf b"
            "mb_content b = mb_content (tp_writeBuffer q) @ bs" by auto
      then show ?thesis
      proof cases
        case (2 b)
        with Cons.IH [of "q\<lparr>tp_writeBuffer := b\<rparr>" w] Cons.prems TlsAppend show ?thesis by auto
      qed (simp add: TlsAppend)
    next
      case TlsSend
      from send_buffer [OF Cons.prems(1,2) assms(2), of w] obtain ok b w' where
        b: "sendBufferedData write q w = Inr (ok, q\<lparr>tp_writeBuffer := b\<rparr>, w')" "mb_wf b"
          "taken write q w @ mb_content b = mb_content (tp_writeBuffer q)" by blast
      with Cons.IH [of "q\<lparr>tp_writeBuffer := b\<rparr>" w'] Cons.prems TlsSend show ?thesis
        by (auto simp flip: b(3))
    qed
  qed simp
  from assms(1) obtain b where b: "MsgBuffer_new kBufferDefaultLength = Inr b" "tp_writeBuffer p = b"
    by (auto simp: TLSProvider_new_def bind_res_Inr_iff)
  with new_result [of kBufferDefaultLength] have "mb_wf b" "mb_content b = []"
    by (auto simp: kBufferDefaultLength_def kBufferOffset_def)
  with run [of "setWriteCb p" ops w] b(2) assms(3) show ?thesis by (simp add: setWriteCb_def)
qed

definition two_at_a_time :: "unit tls_write" where
  "two_at_a_time c data w = (int (min 2 (length data)), w)"

theorem tls_buffer_stream_witness:
  "\<exists>p. TLSProvider_new 3 = Inr p \<and>
     (let ops = [TlsAppend [1, 2, 3], TlsSend, TlsAppend [4], TlsSend] in
      tls_run two_at_a_time ops (setWriteCb p) () = Inl AllocError \<or>
      (\<exists>out p' w'. tls_run two_at_a_time ops (setWriteCb p) () = Inr (out, p', w') \<and>
         out @ mb_content (tp_writeBuffer p') = [1, 2, 3, 4]))"
proof -
  obtain p where p: "TLSProvider_new 3 = Inr p"
    using new_ok [of kBufferDefaultLength]
    by (auto simp: TLSProvider_new_def kBufferDefaultLength_def kBufferOffset_def)
  moreover have "honest two_at_a_time" by (simp add: honest_def two_at_a_time_def)
  ultimately show ?thesis
    using tls_buffer_stream [OF p, of two_at_a_time "[TlsAppend [1, 2, 3], TlsSend, TlsAppend [4], TlsSend]" "()"]
    by (simp add: Let_def)
qed

text \<open>
  The connection given to the constructor is never used: every call of the callback is made with
  a null connection, which \<open>onSslWrite\<close> dereferences.
\<close>

lemma send_keeps_conn:
  assumes "sendBufferedData write p w = Inr (ok, p', w')" "tp_conn p = None"
  shows "tp_conn p' = None"
proof -
  have "tp_conn p' = None"
    if "(case write None x w of (n, w) \<Rightarrow> if n = -1 then Inr (False, p, w)
      else if size_of_int n \<noteq> m then Inr (False, p\<lparr>tp_writeBuffer := b n\<rparr>, w)
      else Inr (True, p\<lparr>tp_writeBuffer := b'\<rparr>, w)) = (Inr (ok, p', w') :: (bool \<times> tls_provider \<times> 'a) res)"
    for x m b b'
    using that assms(2) by (cases "write None x w") (auto split: if_splits)
  with assms show ?thesis
    by (auto simp: sendBufferedData_def Let_def bind_res_Inr_iff split: if_splits)
qed

lemma connection_unused:
  assumes "tp_conn p = None" "\<And>data w. write None data w = write' None data w"
  shows "tls_run write ops p w = tls_run write' ops p w"
  using assms(1)
proof (induction ops arbitrary: p w)
  case (Cons op ops)
  have "tp_conn p' = None" if "appendToWriteBuffer bs p = Inr p'" for bs p'
    using that Cons.prems by (auto simp: appendToWriteBuffer_def bind_res_Inr_iff)
  moreover have "sendBufferedData write p w = sendBufferedData write' p w" "taken write p w = taken write' p w"
    by (simp_all only: sendBufferedData_def taken_def Cons.prems assms(2))
  moreover have "tp_conn p' = None" if "sendBufferedData write' p w = Inr (ok, p', w')" for ok p' w'
    using that Cons.prems by (rule send_keeps_conn)
  ultimately show ?case
    by (cases op) (auto simp: Cons.IH bind_res_def split: sum.splits)
qed simp

end
