(* ===== verification/SslCallbacks.thy ===== *)
theory SslCallbacks
  imports TcpConnection TlsProvider
begin

text \<open>
  The functions src/xiaoNet/net/inner/TcpConnectionImpl.cpp installs in a TLS provider as its
  callbacks: the two that touch the connection only. The others are in TlsConnection. No provider
  of the repository calls them.
\<close>

section \<open>The callbacks\<close>

definition onSslWrite :: "'w env \<Rightarrow> byte list \<Rightarrow> 'w conn \<Rightarrow> int \<times> 'w conn" where
  "onSslWrite e data c = writeRaw e data c"

definition onSslMessage :: "'w env \<Rightarrow> MsgBuffer \<Rightarrow> 'w conn \<Rightarrow> MsgBuffer \<times> 'w conn" where
  "onSslMessage e buffer c =
     (if tc_recvCb c then
        (let (b, w) = env_recv e buffer (tc_world c)
         in (b, log_eff (EffRecvCb (mb_content buffer)) (c\<lparr>tc_world := w\<rparr>)))
      else (buffer, c))"

section \<open>The write callback and the buffer of the provider\<close>

text \<open>
  The write callback as \<open>sendBufferedData\<close> calls it, were the connection not null; the connection
  is the world.
\<close>

definition ssl_write :: "'w env \<Rightarrow> 'w conn tls_write" where
  "ssl_write e conn data c = onSslWrite e data c"

text \<open>
  The write callback never reports an error, since \<open>writeRaw\<close> turns every failure into a count of
  zero: the provider takes a dead connection for one that is busy and keeps its data.
\<close>

theorem ssl_failure_is_busy:
  assumes "mb_wf (tp_writeBuffer p)" "tp_writeCb p" "mb_content (tp_writeBuffer p) \<noteq> []"
    and "os_write (env_os e) (tc_fd c) (mb_content (tp_writeBuffer p)) (tc_world c) = (IoError err, w)"
  shows "\<exists>c'. sendBufferedData (ssl_write e) p c = Inr (False, p, c')"
proof -
  let ?data = "mb_content (tp_writeBuffer p)"
  have len: "readableBytes (tp_writeBuffer p) = length ?data" using assms(1) by (rule readable_content)
  have peek: "MsgBuffer_peek (tp_writeBuffer p) (length ?data) = Inr ?data"
    using peek_prefix [OF assms(1), of "length ?data"] len by simp
  obtain c' where w: "ssl_write e (tp_conn p) ?data c = (0, c')"
    using assms(4) by (simp add: ssl_write_def onSslWrite_def writeRaw_def Let_def)
  have "MsgBuffer_retrieve (tp_writeBuffer p) 0 = tp_writeBuffer p"
    using assms(1,3) len by (auto simp: MsgBuffer_retrieve_def mb_wf_def sz_add_exact)
  with assms(2,3) w peek len show ?thesis
    by (simp add: sendBufferedData_def size_of_int_def)
qed

end
