(* ===== verification/TlsConnection.thy ===== *)
theory TlsConnection
  imports SslCallbacks TcpConnectionProps
begin

text \<open>
  The connection of src/xiaoNet/net/inner/TcpConnectionImpl.cpp with the branches on
  \<open>tlsProviderPtr_\<close>. The provider of a build with \<open>USE_OPENSSL\<close> or \<open>USE_BOTAN\<close> is a class of no
  file of the repository: its virtual functions and the two factories are the argument \<open>v\<close>, a
  record of functions on the whole connection, since they may call it back. The base class, its
  buffer and \<open>sendBufferedData\<close> are those of TlsProvider. Without a provider every operation is
  the one of TcpConnection, which is the theorem of this theory.
\<close>

section \<open>State\<close>

text \<open>\<open>tt_upgrade\<close> says whether \<open>upgradeCallback_\<close> is set.\<close>

record 'w tconn =
  tt_conn :: "'w conn"
  tt_provider :: "tls_provider option"
  tt_upgrade :: bool

text \<open>
  The functions of the derived class; \<open>recvData\<close> is given the read buffer of the connection,
  \<open>vt_new\<close> is \<open>newTLSProvider\<close> and \<open>vt_context\<close> says whether \<open>newSSLContext\<close> throws.
\<close>

record 'w tls_class =
  vt_recvData :: "'w tconn \<Rightarrow> 'w tconn"
  vt_sendData :: "byte list \<Rightarrow> 'w tconn \<Rightarrow> int \<times> 'w tconn"
  vt_close :: "'w tconn \<Rightarrow> 'w tconn"
  vt_startEncryption :: "'w tconn \<Rightarrow> 'w tconn"
  vt_context :: "'w tconn \<Rightarrow> unit res"
  vt_new :: "'w tconn \<Rightarrow> tls_provider res"

definition on_conn :: "('w conn \<Rightarrow> 'w conn) \<Rightarrow> 'w tconn \<Rightarrow> 'w tconn" where
  "on_conn f t = t\<lparr>tt_conn := f (tt_conn t)\<rparr>"

definition with_conn :: "'w tconn \<Rightarrow> 'w conn res \<Rightarrow> 'w tconn res" where
  "with_conn t r = bind_res r (\<lambda>c. Inr (t\<lparr>tt_conn := c\<rparr>))"

definition with_count :: "'w tconn \<Rightarrow> (int \<times> 'w conn) res \<Rightarrow> (int \<times> 'w tconn) res" where
  "with_count t r = bind_res r (\<lambda>(n, c). Inr (n, t\<lparr>tt_conn := c\<rparr>))"

text \<open>\<open>getBufferedData().readableBytes()\<close>, of interest only with a provider.\<close>

definition buffered :: "'w tconn \<Rightarrow> nat" where
  "buffered t = (case tt_provider t of None \<Rightarrow> 0 | Some p \<Rightarrow> readableBytes (tp_writeBuffer p))"

text \<open>The callbacks a connection gives its provider.\<close>

definition install_callbacks :: "tls_provider \<Rightarrow> tls_provider" where
  "install_callbacks p = provider_setCloseCallback (provider_setMessageCallback
     (provider_setHandshakeCallback (provider_setErrorCallback (setWriteCb p))))"

text \<open>The constructor, and the destructor, which sends a close alert.\<close>

definition t_new :: "'w tls_class \<Rightarrow> bool \<Rightarrow> int \<Rightarrow> 'w \<Rightarrow> 'w tconn res" where
  "t_new v policy fd w =
     bind_res (TcpConnectionImpl_new False fd w)
       (\<lambda>c. let t = \<lparr>tt_conn = c, tt_provider = None, tt_upgrade = False\<rparr> in
            if policy then bind_res (vt_new v t) (\<lambda>p. Inr (t\<lparr>tt_provider := Some (install_callbacks p)\<rparr>))
            else Inr t)"

definition t_destroy :: "'w tls_class \<Rightarrow> 'w tconn \<Rightarrow> 'w tconn" where
  "t_destroy v t =
     (if tt_provider t \<noteq> None \<and> tc_status (tt_conn t) = Connected then vt_close v t else t)"

definition applicationProtocol :: "'w tconn \<Rightarrow> string" where
  "applicationProtocol t = (case tt_provider t of None \<Rightarrow> '''' | Some p \<Rightarrow> tp_applicationProtocol p)"

definition peerCertificate :: "'w tconn \<Rightarrow> nat option" where
  "peerCertificate t = (case tt_provider t of None \<Rightarrow> None | Some p \<Rightarrow> tp_peerCertificate p)"

definition sniName :: "'w tconn \<Rightarrow> string" where
  "sniName t = (case tt_provider t of None \<Rightarrow> '''' | Some p \<Rightarrow> tp_sniName p)"

section \<open>Writing\<close>

definition t_writeInLoop :: "'w tls_class \<Rightarrow> 'w env \<Rightarrow> byte list \<Rightarrow> 'w tconn \<Rightarrow> int \<times> 'w tconn" where
  "t_writeInLoop v e data t =
     (if tt_provider t \<noteq> None then vt_sendData v data t
      else (let (n, c) = writeRaw e data (tt_conn t) in (n, t\<lparr>tt_conn := c\<rparr>)))"

text \<open>The second test of the high water mark.\<close>

definition t_highWater :: "'w tconn \<Rightarrow> 'w tconn" where
  "t_highWater t =
     (if tc_highWaterCb (tt_conn t) \<and> tt_provider t \<noteq> None \<and>
         tc_highWaterMarkLen (tt_conn t) < buffered t
      then on_conn (log_eff (EffHighWater (int (buffered t)))) t else t)"

text \<open>
  A provider that claims to have taken more than it was given makes \<open>length -= sendLen\<close> wrap around
  and the rest of the function read past the message. \<open>enqueue_rest\<close> is the code from the test
  of the last node to the first test of the high water mark.
\<close>

definition t_sendInLoop :: "'w tls_class \<Rightarrow> 'w env \<Rightarrow> byte list \<Rightarrow> 'w tconn \<Rightarrow> 'w tconn res" where
  "t_sendInLoop v e data t =
     (if tc_status (tt_conn t) \<noteq> Connected then Inr t
      else
        (let (sendLen, t) =
               (if \<not> isWriting (tc_chan (tt_conn t)) \<and> tc_writeList (tt_conn t) = []
                then t_writeInLoop v e data t else (0, t))
         in
         if sendLen < 0 then Inr t
         else if tt_provider t \<noteq> None \<and> int (length data) < sendLen then Inl OutOfBounds
         else
           (let rest = drop (nat sendLen) data in
            if 0 < length rest \<and> tc_status (tt_conn t) = Connected
            then bind_res (with_conn t (enqueue_rest rest (tt_conn t))) (\<lambda>t. Inr (t_highWater t))
            else Inr t)))"

fun t_sendNode_loop :: "nat \<Rightarrow> 'w tls_class \<Rightarrow> 'w env \<Rightarrow> nat \<Rightarrow> int \<Rightarrow> 'w tconn \<Rightarrow>
    (int \<times> 'w tconn) res" where
  "t_sendNode_loop 0 v e i hasSent t = Inl OutOfFuel"
| "t_sendNode_loop (Suc k) v e i hasSent t =
     (let c = tt_conn t in
      if node_remainingBytes (tc_nodes c i) \<le> 0 then Inr (hasSent, t)
      else bind_res (node_getData (env_os e) (tc_nodes c i) (tc_world c))
        (\<lambda>(data, nd, w).
           let t = on_conn (\<lambda>c. (set_node i nd c)\<lparr>tc_world := w\<rparr>) t in
           if data = [] then Inr (hasSent, on_conn (set_node i (node_done nd)) t)
           else
             (let (nWritten, t) = t_writeInLoop v e data t in
              if 0 \<le> nWritten then
                bind_res (node_retrieve (tc_nodes (tt_conn t) i) (nat nWritten))
                  (\<lambda>nd. let t = on_conn (set_node i nd) t in
                     if nat nWritten < length data then Inr (hasSent + nWritten, t)
                     else t_sendNode_loop k v e i (hasSent + nWritten) t)
              else Inr (-1, t))))"

text \<open>With a provider a file is read and encrypted like any other node: no sendfile(2).\<close>

definition t_sendNodeInLoop :: "nat \<Rightarrow> 'w tls_class \<Rightarrow> 'w env \<Rightarrow> nat \<Rightarrow> 'w tconn \<Rightarrow>
    (int \<times> 'w tconn) res" where
  "t_sendNodeInLoop k v e i t =
     (if node_isFile (tc_nodes (tt_conn t) i) \<and> tt_provider t = None
      then with_count t (sendFileNode e i (tt_conn t))
      else t_sendNode_loop k v e i 0 t)"

section \<open>Closing\<close>

text \<open>
  \<open>shutdown\<close> in the loop thread. With a provider the wish to close is remembered, while the other
  branch evaluates \<open>closeOnEmpty_ - true\<close>.
\<close>

definition t_shutdownInLoop :: "'w tls_class \<Rightarrow> 'w tconn \<Rightarrow> 'w tconn" where
  "t_shutdownInLoop v t =
     (if tc_status (tt_conn t) = Connected then
        (if tt_provider t \<noteq> None \<and> (buffered t \<noteq> 0 \<or> tc_writeList (tt_conn t) \<noteq> [])
         then on_conn (\<lambda>c. c\<lparr>tc_closeOnEmpty := True\<rparr>) t
         else
           (let t = (if tt_provider t \<noteq> None then vt_close v t else t) in
            if tt_provider t = None \<and> tc_writeList (tt_conn t) \<noteq> [] then t
            else
              (let t = on_conn (\<lambda>c. c\<lparr>tc_status := Disconnecting\<rparr>) t in
               if \<not> isWriting (tc_chan (tt_conn t)) then on_conn (log_eff EffShutdownWrite) t else t)))
      else t)"

definition t_forceCloseInLoop :: "'w tls_class \<Rightarrow> 'w tconn \<Rightarrow> 'w tconn" where
  "t_forceCloseInLoop v t =
     (if tc_status (tt_conn t) = Connected \<or> tc_status (tt_conn t) = Disconnecting then
        (let t = on_conn (\<lambda>c. handleClose (c\<lparr>tc_status := Disconnecting\<rparr>)) t
         in if tt_provider t \<noteq> None then vt_close v t else t)
      else t)"

text \<open>The user's connection callback waits for the end of the handshake.\<close>

definition t_connectEstablishedInLoop :: "'w tls_class \<Rightarrow> 'w tconn \<Rightarrow> 'w tconn res" where
  "t_connectEstablishedInLoop v t =
     assert_then (tc_status (tt_conn t) = Connecting)
       (let t = on_conn (\<lambda>c. (upd_chan enableReading (c\<lparr>tc_chan := tie (tc_chan c)\<rparr>))
                               \<lparr>tc_status := Connected\<rparr>) t
        in Inr (if tt_provider t \<noteq> None then vt_startEncryption v t
                else if tc_connectionCb (tt_conn t)
                then on_conn (\<lambda>c. log_eff (EffConnectionCb (tc_status c)) c) t else t))"

section \<open>Events\<close>

definition t_readCallback :: "'w tls_class \<Rightarrow> 'w env \<Rightarrow> readv_result \<Rightarrow> 'w tconn \<Rightarrow> 'w tconn res" where
  "t_readCallback v e r t =
     bind_res (readFd r 0 (tc_readBuffer (tt_conn t)))
       (\<lambda>(n, ret, b).
          let t = on_conn (\<lambda>c. c\<lparr>tc_readBuffer := b,
                    tc_errno := (case r of ReadvError err \<Rightarrow> err | ReadvBytes bs \<Rightarrow> tc_errno c)\<rparr>) t
          in
          if n < 0 then
            (if tc_errno (tt_conn t) = EPIPE \<or> tc_errno (tt_conn t) = ECONNRESET then Inr t
             else if tc_errno (tt_conn t) = EAGAIN then Inr t
             else Inr (on_conn handleClose t))
          else
            (let t = on_conn (extendLife e) (if n = 0 then on_conn handleClose t else t) in
             if 0 < n then
               (let t = on_conn (\<lambda>c. c\<lparr>tc_bytesReceived := sz_add (tc_bytesReceived c) (nat n)\<rparr>) t in
                if tt_provider t \<noteq> None then Inr (vt_recvData v t)
                else if tc_recvCb (tt_conn t) then
                  (let c = tt_conn t; (b, w) = env_recv e (tc_readBuffer c) (tc_world c) in
                   Inr (t\<lparr>tt_conn := log_eff (EffRecvCb (mb_content (tc_readBuffer c)))
                          (c\<lparr>tc_readBuffer := b, tc_world := w\<rparr>)\<rparr>))
                else Inr t)
             else Inr t))"

text \<open>
  \<open>sendBufferedData\<close> of the provider, through \<open>onSslWrite\<close>; a provider whose class did not set
  \<open>conn_\<close> calls it with a null connection.
\<close>

definition t_sendBufferedData :: "'w env \<Rightarrow> 'w tconn \<Rightarrow> (bool \<times> 'w tconn) res" where
  "t_sendBufferedData e t =
     (case tt_provider t of
        None \<Rightarrow> Inr (True, t)
      | Some p \<Rightarrow>
          if buffered t \<noteq> 0 \<and> tp_conn p = None then Inl OutOfBounds
          else bind_res (sendBufferedData (ssl_write e) p (tt_conn t))
            (\<lambda>(ok, p, c). Inr (ok, t\<lparr>tt_conn := c, tt_provider := Some p\<rparr>)))"

fun t_flush_loop :: "nat \<Rightarrow> 'w tls_class \<Rightarrow> 'w env \<Rightarrow> 'w tconn \<Rightarrow> (bool \<times> 'w tconn) res" where
  "t_flush_loop 0 v e t = Inl OutOfFuel"
| "t_flush_loop (Suc k) v e t =
     (case tc_writeList (tt_conn t) of
        [] \<Rightarrow> Inr (True, t)
      | i # rest \<Rightarrow>
          let nd = tc_nodes (tt_conn t) i in
          if node_remainingBytes nd = 0 then
            (if \<not> node_isAsync nd \<or> \<not> node_available nd
             then t_flush_loop k v e (on_conn (\<lambda>c. c\<lparr>tc_writeList := rest\<rparr>) t)
             else Inr (False, on_conn (upd_chan disableWriting) t))
          else bind_res (t_sendNodeInLoop k v e i t)
            (\<lambda>(n, t). if 0 < node_remainingBytes (tc_nodes (tt_conn t) i) \<or> n < 0 then Inr (False, t)
                      else t_flush_loop k v e t))"

definition t_writeCallback :: "nat \<Rightarrow> 'w tls_class \<Rightarrow> 'w env \<Rightarrow> 'w tconn \<Rightarrow> 'w tconn res" where
  "t_writeCallback k v e t =
     (if isWriting (tc_chan (tt_conn t)) then
        bind_res (t_sendBufferedData e t)
          (\<lambda>(sentAll, t).
             if \<not> sentAll then Inr t
             else bind_res (t_flush_loop k v e t)
               (\<lambda>(emptied, t).
                  if emptied then
                    assert_then (tc_writeList (tt_conn t) = [])
                      (if tt_provider t = None \<or> buffered t = 0 then
                         (let t = on_conn (upd_chan disableWriting) t in
                          Inr (if tc_closeOnEmpty (tt_conn t) then t_shutdownInLoop v t else t))
                       else Inr t)
                  else Inr t))
      else Inr t)"

section \<open>Files and streams\<close>

definition t_sendNodeOrQueue :: "nat \<Rightarrow> 'w tls_class \<Rightarrow> 'w env \<Rightarrow> nat \<Rightarrow> 'w tconn \<Rightarrow> 'w tconn res" where
  "t_sendNodeOrQueue k v e i t =
     (if tc_writeList (tt_conn t) = [] then
        bind_res (t_sendNodeInLoop k v e i t)
          (\<lambda>(n, t). Inr (if 0 < node_remainingBytes (tc_nodes (tt_conn t) i) \<and> 0 \<le> n
                         then on_conn (push_node i) t else t))
      else Inr (on_conn (push_node i) t))"

definition t_sendFile :: "nat \<Rightarrow> 'w tls_class \<Rightarrow> 'w env \<Rightarrow> bool \<Rightarrow> int \<Rightarrow> int option \<Rightarrow> int \<Rightarrow> int \<Rightarrow>
    'w tconn \<Rightarrow> 'w tconn res" where
  "t_sendFile k v e inLoop fd st_size offset len t =
     bind_res (newFileBufferNode fd st_size offset len)
       (\<lambda>nd. if \<not> node_available nd then Inr t
             else assert_then (node_isFile nd \<and> 0 < node_remainingBytes nd)
               (let (i, c) = new_node nd (tt_conn t); t = t\<lparr>tt_conn := c\<rparr> in
                if inLoop then t_sendNodeOrQueue k v e i t
                else Inr (on_conn (queue_task (TaskSendNode i)) t)))"

definition t_sendStream :: "nat \<Rightarrow> 'w tls_class \<Rightarrow> 'w env \<Rightarrow> bool \<Rightarrow> nat \<Rightarrow> 'w tconn \<Rightarrow> 'w tconn res" where
  "t_sendStream k v e inLoop cb t =
     bind_res (newStreamBufferNode cb)
       (\<lambda>nd. let (i, c) = new_node nd (tt_conn t); t = t\<lparr>tt_conn := c\<rparr> in
             if inLoop then
               (if tc_writeList c = [] then t_sendNodeOrQueue k v e i t else Inr t)
             else Inr (on_conn (queue_task (TaskSendNode i)) t))"

definition t_asyncOpenInLoop :: "nat \<Rightarrow> 'w tls_class \<Rightarrow> 'w env \<Rightarrow> nat \<Rightarrow> bool \<Rightarrow> 'w tconn \<Rightarrow>
    'w tconn res" where
  "t_asyncOpenInLoop k v e i disableKickoff t =
     (let t = (if disableKickoff then on_conn (disable_kickoff e) t else t) in
      if tc_writeList (tt_conn t) = [] \<and> 0 < node_remainingBytes (tc_nodes (tt_conn t) i) then
        bind_res (t_sendNodeInLoop k v e i t)
          (\<lambda>(n, t). Inr (if 0 \<le> n \<and> (0 < node_remainingBytes (tc_nodes (tt_conn t) i) \<or>
                                      node_available (tc_nodes (tt_conn t) i))
                         then on_conn (push_node i) t else t))
      else Inr (on_conn (push_node i) t))"

text \<open>Closing a stream does not touch the provider.\<close>

definition t_sendAsyncDataInLoop :: "'w tls_class \<Rightarrow> 'w env \<Rightarrow> nat \<Rightarrow> byte list option \<Rightarrow> 'w tconn \<Rightarrow>
    'w tconn res" where
  "t_sendAsyncDataInLoop v e i data t =
     (let c = tt_conn t; front = (tc_writeList c \<noteq> [] \<and> hd (tc_writeList c) = i) in
      case data of
        Some bs \<Rightarrow>
          if 0 < length bs then
            (if front \<and> node_remainingBytes (tc_nodes c i) = 0 then
               (let (nWritten, t) = t_writeInLoop v e bs t in
                if nWritten < 0 then Inr t
                else if nat nWritten < length bs then
                  bind_res (node_append (tc_nodes (tt_conn t) i) (drop (nat nWritten) bs))
                    (\<lambda>nd. Inr (on_conn (set_node i nd) t))
                else Inr t)
             else bind_res (node_append (tc_nodes c i) bs) (\<lambda>nd. Inr (on_conn (set_node i nd) t)))
          else Inr t
      | None \<Rightarrow> with_conn t (sendAsyncDataInLoop e i None c))"

section \<open>Tasks and events\<close>

fun t_run_task :: "nat \<Rightarrow> 'w tls_class \<Rightarrow> 'w env \<Rightarrow> conn_task \<Rightarrow> 'w tconn \<Rightarrow> 'w tconn res" where
  "t_run_task k v e (TaskSend bs) t = t_sendInLoop v e bs t"
| "t_run_task k v e (TaskSendNode i) t = t_sendNodeOrQueue k v e i t"
| "t_run_task k v e (TaskAsyncOpen i dis) t = t_asyncOpenInLoop k v e i dis t"
| "t_run_task k v e (TaskAsyncData i data) t = t_sendAsyncDataInLoop v e i data t"
| "t_run_task k v e TaskShutdown t = Inr (t_shutdownInLoop v t)"
| "t_run_task k v e TaskForceClose t = Inr (t_forceCloseInLoop v t)"
| "t_run_task k v e TaskEstablish t = t_connectEstablishedInLoop v t"

fun t_run_callback :: "nat \<Rightarrow> 'w tls_class \<Rightarrow> 'w env \<Rightarrow> readv_result \<Rightarrow> callback \<Rightarrow> 'w tconn \<Rightarrow>
    'w tconn res" where
  "t_run_callback k v e r ReadCb t = t_readCallback v e r t"
| "t_run_callback k v e r WriteCb t = t_writeCallback k v e t"
| "t_run_callback k v e r CloseCb t = Inr (on_conn handleClose t)"
| "t_run_callback k v e r ErrorCb t = Inr t"
| "t_run_callback k v e r EventCb t = Inr t"

fun t_run_callbacks :: "nat \<Rightarrow> 'w tls_class \<Rightarrow> 'w env \<Rightarrow> readv_result \<Rightarrow> callback list \<Rightarrow> 'w tconn \<Rightarrow>
    'w tconn res" where
  "t_run_callbacks k v e r [] t = Inr t"
| "t_run_callbacks k v e r (cb # cbs) t =
     bind_res (t_run_callback k v e r cb t) (t_run_callbacks k v e r cbs)"

definition t_handleEvent :: "nat \<Rightarrow> 'w tls_class \<Rightarrow> 'w env \<Rightarrow> bool \<Rightarrow> 32 word \<Rightarrow> readv_result \<Rightarrow>
    'w tconn \<Rightarrow> 'w tconn res" where
  "t_handleEvent k v e alive revents r t =
     (let t = on_conn (\<lambda>c. c\<lparr>tc_chan := setRevents revents (tc_chan c)\<rparr>) t
      in t_run_callbacks k v e r (handleEvent alive (tc_chan (tt_conn t))) t)"

section \<open>Encryption of an open connection, and the callbacks of a provider\<close>

text \<open>
  \<open>given\<close> says whether the caller's function is not empty. It is stored after the provider was
  started: a handshake that ends inside \<open>startEncryption\<close> does not find it.
\<close>

definition t_startEncryption :: "'w tls_class \<Rightarrow> bool \<Rightarrow> 'w tconn \<Rightarrow> 'w tconn res" where
  "t_startEncryption v given t =
     (if tt_provider t \<noteq> None \<or> tt_upgrade t then Inr t
      else bind_res (vt_context v t) (\<lambda>_. bind_res (vt_new v t)
        (\<lambda>p. Inr ((vt_startEncryption v (t\<lparr>tt_provider := Some (install_callbacks p)\<rparr>))\<lparr>tt_upgrade := given\<rparr>))))"

datatype ssl_event = SslErrorCb | SslUpgradeCb

text \<open>\<open>given\<close>: the user gave a callback for errors.\<close>

definition onSslError :: "'w tls_class \<Rightarrow> bool \<Rightarrow> bool \<Rightarrow> 'w tconn \<Rightarrow> ssl_event list \<times> 'w tconn" where
  "onSslError v given inLoop t =
     (if given then [SslErrorCb] else [],
      if inLoop then t_forceCloseInLoop v t else on_conn (queue_task TaskForceClose) t)"

definition onHandshakeFinished :: "'w tconn \<Rightarrow> ssl_event list \<times> 'w tconn" where
  "onHandshakeFinished t =
     (if tt_upgrade t then ([SslUpgradeCb], t\<lparr>tt_upgrade := False\<rparr>)
      else ([], if tc_connectionCb (tt_conn t)
                then on_conn (\<lambda>c. log_eff (EffConnectionCb (tc_status c)) c) t else t))"

definition onSslCloseAlert :: "'w tls_class \<Rightarrow> bool \<Rightarrow> 'w tconn \<Rightarrow> 'w tconn" where
  "onSslCloseAlert v inLoop t =
     (if inLoop then t_shutdownInLoop v t else on_conn (queue_task TaskShutdown) t)"

section \<open>Without a provider\<close>

definition plain :: "bool \<Rightarrow> 'w conn \<Rightarrow> 'w tconn" where
  "plain u c = \<lparr>tt_conn = c, tt_provider = None, tt_upgrade = u\<rparr>"

named_theorems plain_simps \<open>operations of a connection without a provider\<close>

lemma plain_fields [simp]:
  "tt_conn (plain u c) = c" "tt_provider (plain u c) = None" "on_conn f (plain u c) = plain u (f c)"
  "plain u c\<lparr>tt_conn := c'\<rparr> = plain u c'"
  by (simp_all add: plain_def on_conn_def)

lemma with_conn_simps [simp]:
  "with_conn t (Inl x) = Inl x" "with_conn t (Inr c) = Inr (t\<lparr>tt_conn := c\<rparr>)"
  "with_conn t (bind_res r f) = bind_res r (\<lambda>c. with_conn t (f c))"
  "with_conn t (assert_then b r) = assert_then b (with_conn t r)"
  by (auto simp: with_conn_def bind_res_def assert_then_def split: sum.splits)

lemma with_count_simps [simp]:
  "with_count t (Inl x) = Inl x" "with_count t (Inr (n, c)) = Inr (n, t\<lparr>tt_conn := c\<rparr>)"
  "with_count t (bind_res r f) = bind_res r (\<lambda>c. with_count t (f c))"
  by (auto simp: with_count_def bind_res_def split: sum.splits)

lemma bind_bind [plain_simps]: "bind_res (bind_res m f) g = bind_res m (\<lambda>x. bind_res (f x) g)"
  by (cases m) simp_all

lemma bind_with_conn [simp]: "bind_res (with_conn t r) f = bind_res r (\<lambda>c. f (t\<lparr>tt_conn := c\<rparr>))"
  by (auto simp: with_conn_def bind_res_def split: sum.splits)

lemma bind_with_count [simp]:
  "bind_res (with_count t r) f = bind_res r (\<lambda>(n, c). f (n, t\<lparr>tt_conn := c\<rparr>))"
  by (auto simp: with_count_def bind_res_def split: sum.splits)

lemma plain_write [plain_simps]:
  "t_writeInLoop v e data (plain u c) = (let (n, c) = writeInLoop e data c in (n, plain u c))"
  by (simp add: t_writeInLoop_def writeInLoop_def)

lemma plain_highWater [plain_simps]: "t_highWater (plain u c) = plain u c"
  by (simp add: t_highWater_def)

lemma with_plain [plain_simps]: "with_conn (plain u c) r = bind_res r (\<lambda>c. Inr (plain u c))"
  by (simp add: with_conn_def)

lemma count_plain [plain_simps]: "with_count (plain u c) r = bind_res r (\<lambda>(n, c). Inr (n, plain u c))"
  by (simp add: with_count_def)

lemma plain_sendInLoop [plain_simps]:
  "t_sendInLoop v e data (plain u c) = with_conn (plain u c) (sendInLoop e data c)"
  by (cases "writeInLoop e data c")
    (auto simp: t_sendInLoop_def sendInLoop_alt plain_simps Let_def)

lemma plain_sendNode_loop [plain_simps]:
  "t_sendNode_loop k v e i n (plain u c) = with_count (plain u c) (sendNode_loop k e i n c)"
proof (induction k arbitrary: n c)
  case (Suc k)
  show ?case
    by (auto simp: Let_def Suc plain_simps bind_res_def split: sum.splits prod.splits)
qed simp

lemma plain_sendNodeInLoop [plain_simps]:
  "t_sendNodeInLoop k v e i (plain u c) = with_count (plain u c) (sendNodeInLoop k e i c)"
  by (simp add: t_sendNodeInLoop_def sendNodeInLoop_def plain_simps)

lemma plain_shutdown [plain_simps]:
  "t_shutdownInLoop v (plain u c) = plain u (shutdownInLoop c)"
  by (simp add: t_shutdownInLoop_def shutdownInLoop_def Let_def)

lemma plain_forceClose [plain_simps]:
  "t_forceCloseInLoop v (plain u c) = plain u (forceCloseInLoop c)"
  by (simp add: t_forceCloseInLoop_def forceCloseInLoop_def Let_def)

lemma plain_establish [plain_simps]:
  "t_connectEstablishedInLoop v (plain u c) = with_conn (plain u c) (connectEstablishedInLoop c)"
  by (simp add: t_connectEstablishedInLoop_def connectEstablishedInLoop_def Let_def)

lemma plain_readCallback [plain_simps]:
  "t_readCallback v e r (plain u c) = with_conn (plain u c) (readCallback e r c)"
  by (auto simp: t_readCallback_def readCallback_def Let_def bind_res_def with_conn_def split: sum.splits prod.splits)

lemma plain_flush_loop [plain_simps]:
  "t_flush_loop k v e (plain u c) =
     bind_res (flush_loop k e c) (\<lambda>(b, c). Inr (b, plain u c))"
proof (induction k arbitrary: c)
  case (Suc k)
  show ?case
    by (auto simp: Let_def Suc plain_simps bind_res_def split: sum.splits prod.splits list.splits)
qed simp

lemma plain_writeCallback [plain_simps]:
  "t_writeCallback k v e (plain u c) = with_conn (plain u c) (writeCallback k e c)"
  by (auto simp: t_writeCallback_def writeCallback_def t_sendBufferedData_def plain_simps Let_def
      bind_res_def with_conn_def assert_then_def split: sum.splits prod.splits)

lemma plain_sendNodeOrQueue [plain_simps]:
  "t_sendNodeOrQueue k v e i (plain u c) = with_conn (plain u c) (sendNodeOrQueue k e i c)"
  by (auto simp: t_sendNodeOrQueue_def sendNodeOrQueue_def plain_simps bind_res_def split: sum.splits)

lemma plain_asyncOpen [plain_simps]:
  "t_asyncOpenInLoop k v e i d (plain u c) = with_conn (plain u c) (asyncOpenInLoop k e i d c)"
  by (auto simp: t_asyncOpenInLoop_def asyncOpenInLoop_def plain_simps Let_def bind_res_def split: sum.splits)

lemma plain_asyncData [plain_simps]:
  "t_sendAsyncDataInLoop v e i data (plain u c) = with_conn (plain u c) (sendAsyncDataInLoop e i data c)"
  by (cases data)
    (auto simp: t_sendAsyncDataInLoop_def sendAsyncDataInLoop_def [of e i "Some _"] plain_simps Let_def
      split: prod.splits)

lemma plain_sendFile [plain_simps]:
  "t_sendFile k v e l fd st off len (plain u c) = with_conn (plain u c) (sendFile k e l fd st off len c)"
  by (auto simp: t_sendFile_def sendFile_def new_node_def plain_simps Let_def bind_res_def
      assert_then_def split: sum.splits)

lemma plain_sendStream [plain_simps]:
  "t_sendStream k v e l cb (plain u c) = with_conn (plain u c) (sendStream k e l cb c)"
  by (auto simp: t_sendStream_def sendStream_def new_node_def plain_simps Let_def bind_res_def
      split: sum.splits)

lemma plain_task: "t_run_task k v e x (plain u c) = with_conn (plain u c) (run_task k e x c)"
  by (cases x) (simp_all add: plain_simps)

lemma plain_callback: "t_run_callback k v e r cb (plain u c) = with_conn (plain u c) (run_callback k e r cb c)"
  by (cases cb) (simp_all add: plain_simps)

lemma plain_callbacks:
  "t_run_callbacks k v e r cbs (plain u c) = with_conn (plain u c) (run_callbacks k e r cbs c)"
  by (induction cbs arbitrary: c) (auto simp: plain_callback plain_simps bind_res_def split: sum.splits)

lemma plain_event [plain_simps]:
  "t_handleEvent k v e alive revents r (plain u c) = with_conn (plain u c) (conn_handleEvent k e alive revents r c)"
  by (simp add: t_handleEvent_def conn_handleEvent_def plain_callbacks plain_simps Let_def)

text \<open>What may happen to a connection: calls, in the loop thread or not, tasks and events.\<close>

datatype conn_input =
  InTask conn_task
| InQueue conn_task
| InEvent bool "32 word" readv_result
| InSendFile bool int "int option" int int
| InSendStream bool nat
| InDestroyed

fun conn_take :: "nat \<Rightarrow> 'w env \<Rightarrow> conn_input \<Rightarrow> 'w conn \<Rightarrow> 'w conn res" where
  "conn_take k e (InTask x) c = run_task k e x c"
| "conn_take k e (InQueue x) c = Inr (queue_task x c)"
| "conn_take k e (InEvent alive revents r) c = conn_handleEvent k e alive revents r c"
| "conn_take k e (InSendFile l fd st off len) c = sendFile k e l fd st off len c"
| "conn_take k e (InSendStream l cb) c = sendStream k e l cb c"
| "conn_take k e InDestroyed c = connectDestroyed c"

fun t_take :: "nat \<Rightarrow> 'w tls_class \<Rightarrow> 'w env \<Rightarrow> conn_input \<Rightarrow> 'w tconn \<Rightarrow> 'w tconn res" where
  "t_take k v e (InTask x) t = t_run_task k v e x t"
| "t_take k v e (InQueue x) t = Inr (on_conn (queue_task x) t)"
| "t_take k v e (InEvent alive revents r) t = t_handleEvent k v e alive revents r t"
| "t_take k v e (InSendFile l fd st off len) t = t_sendFile k v e l fd st off len t"
| "t_take k v e (InSendStream l cb) t = t_sendStream k v e l cb t"
| "t_take k v e InDestroyed t = with_conn t (connectDestroyed (tt_conn t))"

fun conn_script :: "nat \<Rightarrow> 'w env \<Rightarrow> conn_input list \<Rightarrow> 'w conn \<Rightarrow> 'w conn res" where
  "conn_script k e [] c = Inr c"
| "conn_script k e (x # xs) c = bind_res (conn_take k e x c) (conn_script k e xs)"

fun t_script :: "nat \<Rightarrow> 'w tls_class \<Rightarrow> 'w env \<Rightarrow> conn_input list \<Rightarrow> 'w tconn \<Rightarrow> 'w tconn res" where
  "t_script k v e [] t = Inr t"
| "t_script k v e (x # xs) t = bind_res (t_take k v e x t) (t_script k v e xs)"

lemma plain_input: "t_take k v e x (plain u c) = with_conn (plain u c) (conn_take k e x c)"
  by (cases x) (simp_all add: plain_task plain_simps)

lemma plain_script:
  "t_script k v e xs (plain u c) = with_conn (plain u c) (conn_script k e xs c)"
  by (induction xs arbitrary: c) (auto simp: plain_input plain_simps bind_res_def split: sum.splits)


section \<open>A shutdown that waits\<close>

text \<open>
  With a provider a shutdown asked for while encrypted data waits is carried out by the write event
  that sends the last of it: the provider is closed, the connection is disconnecting, and the
  socket's write side is shut down unless the alert of the provider left it watching for writing.
  A connection without a provider loses the same shutdown.
\<close>

lemma all_sent:
  assumes "mb_wf (tp_writeBuffer p)" "tp_writeCb p" "mb_content (tp_writeBuffer p) \<noteq> []"
    and "length (mb_content (tp_writeBuffer p)) < 2147483648"
    and "os_write (env_os e) (tc_fd c) (mb_content (tp_writeBuffer p)) (tc_world c) =
      (IoCount (length (mb_content (tp_writeBuffer p))), w)"
  shows "\<exists>c'. sendBufferedData (ssl_write e) p c =
      Inr (True, p\<lparr>tp_writeBuffer := retrieveAll (tp_writeBuffer p)\<rparr>, c') \<and> same_queue c c'"
proof -
  let ?data = "mb_content (tp_writeBuffer p)"
  have len: "readableBytes (tp_writeBuffer p) = length ?data" using assms(1) by (rule readable_content)
  have peek: "MsgBuffer_peek (tp_writeBuffer p) (length ?data) = Inr ?data"
    using peek_prefix [OF assms(1), of "length ?data"] len by simp
  have "to_int32 (int (length ?data)) = int (length ?data)" using assms(4) by (simp add: to_int32_exact)
  then obtain c' where w: "ssl_write e (tp_conn p) ?data c = (int (length ?data), c')" "same_queue c c'"
    using assms(5) by (simp add: ssl_write_def onSslWrite_def writeRaw_def Let_def same_queue_def)
  have "size_of_int (int (length ?data)) = length ?data"
    using assms(4) by (simp add: size_of_int_def)
  with assms(2,3) w peek len show ?thesis by (simp add: sendBufferedData_def)
qed

lemma deferred_shutdown:
  fixes t :: "'w tconn"
  assumes p: "tt_provider t = Some p" "tp_conn p = Some x" "mb_wf (tp_writeBuffer p)" "tp_writeCb p"
      "mb_content (tp_writeBuffer p) \<noteq> []" "length (mb_content (tp_writeBuffer p)) < 2147483648"
    and c: "tc_status (tt_conn t) = Connected" "tc_writeList (tt_conn t) = []" "isWriting (tc_chan (tt_conn t))"
    and w: "os_write (env_os e) (tc_fd (tt_conn t)) (mb_content (tp_writeBuffer p)) (tc_world (tt_conn t)) =
      (IoCount (length (mb_content (tp_writeBuffer p))), w')"
    and keeps: "\<And>t'. tt_provider t' \<noteq> None \<Longrightarrow> tt_provider (vt_close v t') \<noteq> None"
  shows "\<exists>t'. t_writeCallback (Suc k) v e (t_shutdownInLoop v t) = Inr t' \<and>
    tc_status (tt_conn t') = Disconnecting \<and>
    (isWriting (tc_chan (tt_conn t')) \<or> last (tc_log (tt_conn t')) = EffShutdownWrite)"
proof -
  let ?t1 = "on_conn (\<lambda>c. c\<lparr>tc_closeOnEmpty := True\<rparr>) t"
  have rb: "readableBytes (tp_writeBuffer p) \<noteq> 0" using readable_content [OF p(3)] p(5) by simp
  have t1: "t_shutdownInLoop v t = ?t1"
    using p(1) c(1) rb by (simp add: t_shutdownInLoop_def buffered_def)
  obtain c' where s: "sendBufferedData (ssl_write e) p (tt_conn ?t1) =
      Inr (True, p\<lparr>tp_writeBuffer := retrieveAll (tp_writeBuffer p)\<rparr>, c')" "same_queue (tt_conn ?t1) c'"
    using all_sent [OF p(3-6), of e "tt_conn ?t1" w'] w by (auto simp: on_conn_def)
  define t2 where "t2 = on_conn (upd_chan disableWriting)
    (?t1\<lparr>tt_conn := c', tt_provider := Some (p\<lparr>tp_writeBuffer := retrieveAll (tp_writeBuffer p)\<rparr>)\<rparr>)"
  have empty: "readableBytes (retrieveAll (tp_writeBuffer p)) = 0"
    using readable_content [OF retrieveAll_wf [OF p(3)]] by (simp add: retrieveAll_content)
  have run: "t_writeCallback (Suc k) v e ?t1 = Inr (t_shutdownInLoop v t2)"
    using p(1,2) c s rb empty
    by (simp add: t_writeCallback_def t_sendBufferedData_def buffered_def t2_def on_conn_def same_queue_def)
  have t2: "tt_provider t2 \<noteq> None" "tc_status (tt_conn t2) = Connected" "tc_writeList (tt_conn t2) = []"
    "buffered t2 = 0"
    using s(2) c empty by (simp_all add: t2_def on_conn_def same_queue_def buffered_def)
  have "t_shutdownInLoop v t2 = (let t = on_conn (\<lambda>c. c\<lparr>tc_status := Disconnecting\<rparr>) (vt_close v t2) in
      if \<not> isWriting (tc_chan (tt_conn t)) then on_conn (log_eff EffShutdownWrite) t else t)"
    unfolding t_shutdownInLoop_def Let_def using t2 keeps [OF t2(1)] by auto
  then show ?thesis unfolding t1 run by (simp add: Let_def on_conn_def)
qed

end
