(* ===== verification/ConnectionSetup.thy ===== *)
theory ConnectionSetup
  imports TcpConnectionTheorems
begin

text \<open>
  The callbacks a user gives a TcpServer or a TcpClient (src/xiaoNet/net/TcpServer.{h,cpp},
  TcpClient.{h,cpp}) and what the two make of them when they set up a new connection.
\<close>

section \<open>Callbacks of the user\<close>

text \<open>
  Whether each \<open>std::function\<close> holds something; the message callback is the function on the read
  buffer and the world of the user. The write complete callback is stored and never called.
\<close>

type_synonym 'w message_fun = "MsgBuffer \<Rightarrow> 'w \<Rightarrow> MsgBuffer \<times> 'w"

record 'w user_callbacks =
  uc_message :: "'w message_fun option"
  uc_connection :: bool
  uc_writeComplete :: bool
  uc_sslError :: bool

text \<open>Both defaults log the size and throw the bytes away.\<close>

definition server_default_message :: "'w message_fun" where
  "server_default_message b w = (retrieveAll b, w)"

definition defaultMessageCallback :: "'w message_fun" where
  "defaultMessageCallback b w = (retrieveAll b, w)"

text \<open>A client starts with a connection callback, a server without.\<close>

definition server_callbacks :: "'w user_callbacks" where
  "server_callbacks = \<lparr>uc_message = Some server_default_message, uc_connection = False,
     uc_writeComplete = False, uc_sslError = False\<rparr>"

definition client_callbacks :: "'w user_callbacks" where
  "client_callbacks = \<lparr>uc_message = Some defaultMessageCallback, uc_connection = True,
     uc_writeComplete = False, uc_sslError = False\<rparr>"

text \<open>The setters take any \<open>std::function\<close>, the empty one included.\<close>

definition server_setRecvMessageCallback :: "'w message_fun option \<Rightarrow> 'w user_callbacks \<Rightarrow> 'w user_callbacks" where
  "server_setRecvMessageCallback f u = u\<lparr>uc_message := f\<rparr>"

definition server_setConnectionCallback :: "bool \<Rightarrow> 'w user_callbacks \<Rightarrow> 'w user_callbacks" where
  "server_setConnectionCallback b u = u\<lparr>uc_connection := b\<rparr>"

definition server_setWriteCompleteCallback :: "bool \<Rightarrow> 'w user_callbacks \<Rightarrow> 'w user_callbacks" where
  "server_setWriteCompleteCallback b u = u\<lparr>uc_writeComplete := b\<rparr>"

definition client_setMessageCallback :: "'w message_fun option \<Rightarrow> 'w user_callbacks \<Rightarrow> 'w user_callbacks" where
  "client_setMessageCallback f u = u\<lparr>uc_message := f\<rparr>"

definition client_setConnectionCallback :: "bool \<Rightarrow> 'w user_callbacks \<Rightarrow> 'w user_callbacks" where
  "client_setConnectionCallback b u = u\<lparr>uc_connection := b\<rparr>"

definition client_setWriteCompleteCallback :: "bool \<Rightarrow> 'w user_callbacks \<Rightarrow> 'w user_callbacks" where
  "client_setWriteCompleteCallback b u = u\<lparr>uc_writeComplete := b\<rparr>"

definition client_setSSLErrorCallback :: "bool \<Rightarrow> 'w user_callbacks \<Rightarrow> 'w user_callbacks" where
  "client_setSSLErrorCallback b u = u\<lparr>uc_sslError := b\<rparr>"

section \<open>A new connection\<close>

text \<open>
  The environment of a connection calls the user's message callback.
\<close>

definition user_env :: "'w user_callbacks \<Rightarrow> 'w env \<Rightarrow> 'w env" where
  "user_env u e = (case uc_message u of None \<Rightarrow> e | Some f \<Rightarrow> e\<lparr>env_recv := f\<rparr>)"

text \<open>
  The server wraps the connection callback in a function that tests it, so the connection always
  has one; with an idle timeout the connection is put on the wheel first. The client hands its
  callback on as it is.
\<close>

definition server_connection :: "nat \<Rightarrow> 'w user_callbacks \<Rightarrow> int \<Rightarrow> 'w \<Rightarrow> 'w conn res" where
  "server_connection idleTimeout u fd w =
     bind_res (TcpConnectionImpl_new False fd w)
       (\<lambda>c. bind_res (if 0 < idleTimeout then enableKickingOff idleTimeout c else Inr c)
         (\<lambda>c. connectEstablished True
            (c\<lparr>tc_recvCb := (uc_message u \<noteq> None), tc_connectionCb := True, tc_closeCb := True\<rparr>)))"

definition client_connection :: "'w user_callbacks \<Rightarrow> int \<Rightarrow> 'w \<Rightarrow> 'w conn res" where
  "client_connection u fd w =
     bind_res (TcpConnectionImpl_new False fd w)
       (\<lambda>c. connectEstablished True
          (c\<lparr>tc_connectionCb := uc_connection u, tc_recvCb := (uc_message u \<noteq> None), tc_closeCb := True\<rparr>))"

text \<open>
  A connection as both leave it: open, idle, with nothing sent, received or waiting. Only the
  allocation of the read buffer can fail.
\<close>

definition newly_open :: "'w conn \<Rightarrow> bool" where
  "newly_open c \<longleftrightarrow> tc_status c = Connected \<and> tc_writeList c = [] \<and> \<not> tc_closeOnEmpty c \<and>
     \<not> isWriting (tc_chan c) \<and> tc_closeCb c \<and> wire c = [] \<and> mb_wf (tc_readBuffer c) \<and>
     mb_content (tc_readBuffer c) = []"

lemma new_readBuffer:
  assumes "TcpConnectionImpl_new False fd w = Inr c"
  shows "mb_wf (tc_readBuffer c)" "mb_content (tc_readBuffer c) = []"
  using assms new_result [of kBufferDefaultLength]
  by (auto simp: TcpConnectionImpl_new_def res_simps kBufferDefaultLength_def kBufferOffset_def)

lemma establish_open:
  assumes "TcpConnectionImpl_new False fd w = Inr c0" "connectEstablished True c = Inr c'"
    and "tc_readBuffer c = tc_readBuffer c0" "wire c = []" "tc_chan c = tc_chan c0"
    "tc_writeList c = []" "\<not> tc_closeOnEmpty c" "tc_closeCb c"
  shows "newly_open c'"
proof -
  have "tc_readBuffer c' = tc_readBuffer c" "wire c' = wire c" "tc_closeCb c' = tc_closeCb c"
    using assms(2) by (auto simp: connectEstablished_def connectEstablishedInLoop_def Let_def upd_chan_def
        log_eff_def res_simps wire_def split: if_splits)
  then show ?thesis
    using assms(3-) establish_fields [OF assms(2)] new_conn_fields(6) [OF assms(1)] new_readBuffer [OF assms(1)]
    by (simp add: newly_open_def)
qed

lemma server_connection_open:
  assumes "server_connection idle u fd w = Inr c" shows "newly_open c"
proof -
  from assms obtain c0 c1 where c: "TcpConnectionImpl_new False fd w = Inr c0"
    "(if 0 < idle then enableKickingOff idle c0 else Inr c0) = Inr c1"
    "connectEstablished True (c1\<lparr>tc_recvCb := (uc_message u \<noteq> None), tc_connectionCb := True,
       tc_closeCb := True\<rparr>) = Inr c"
    by (auto simp: server_connection_def bind_res_Inr_iff)
  have "tc_readBuffer c1 = tc_readBuffer c0" "wire c1 = wire c0" "tc_chan c1 = tc_chan c0"
    "tc_writeList c1 = tc_writeList c0" "tc_closeOnEmpty c1 = tc_closeOnEmpty c0"
    using c(2) by (auto simp: enableKickingOff_def log_eff_def new_entry_def wire_def res_simps split: if_splits)
  then show ?thesis
    using new_conn_fields [OF c(1)] by (intro establish_open [OF c(1,3)]) (simp_all add: wire_def)
qed

lemma client_connection_open:
  assumes "client_connection u fd w = Inr c" shows "newly_open c"
proof -
  from assms obtain c0 where c: "TcpConnectionImpl_new False fd w = Inr c0"
    "connectEstablished True (c0\<lparr>tc_connectionCb := uc_connection u, tc_recvCb := (uc_message u \<noteq> None),
       tc_closeCb := True\<rparr>) = Inr c"
    by (auto simp: client_connection_def bind_res_Inr_iff)
  show ?thesis
    using new_conn_fields [OF c(1)] by (intro establish_open [OF c(1,2)]) (simp_all add: wire_def)
qed

lemma connections_made:
  "\<exists>c. server_connection idle u fd w = Inr c" "\<exists>c. client_connection u fd w = Inr c"
proof -
  obtain b where "MsgBuffer_new kBufferDefaultLength = Inr b" using default_new by blast
  then obtain c where "TcpConnectionImpl_new False fd w = Inr c" "tc_status c = Connecting"
    by (simp add: TcpConnectionImpl_new_def)
  then show "\<exists>c. server_connection idle u fd w = Inr c" "\<exists>c. client_connection u fd w = Inr c"
    by (auto simp: server_connection_def client_connection_def connectEstablished_def
        connectEstablishedInLoop_def enableKickingOff_def log_eff_def new_entry_def Let_def)
qed

end
