(* ===== verification/ConnectionPair.thy ===== *)
theory ConnectionPair
  imports ConnectionSetup
begin

text \<open>
  Two connections on the ends of one socket pair, as a server and a client of the repository are
  (src/xiaoNet/net/inner/TcpConnectionImpl.cpp, twice, with src/xiaoNet/utils/MsgBuffer.cpp as
  read buffers). What one hands to its kernel the other reads, in chunks of any size, between
  any sends and write events of both. The model of a connection is that of TcpConnection; only
  the kernel between them is new: it keeps the bytes in order.
\<close>

section \<open>The pair\<close>

text \<open>
  \<open>pr_end s\<close> is the connection of side \<open>s\<close>, \<open>pr_got s\<close> how many bytes its kernel delivered to it,
  \<open>pr_taken s\<close> what its user took out of the read buffer so far.
\<close>

record 'w pair =
  pr_end :: "bool \<Rightarrow> 'w conn"
  pr_got :: "bool \<Rightarrow> nat"
  pr_taken :: "bool \<Rightarrow> byte list"

datatype pair_op = PairSend bool "byte list" | PairWritable bool | PairReadable bool nat

definition in_flight :: "'w pair \<Rightarrow> bool \<Rightarrow> byte list" where
  "in_flight p s = drop (pr_got p s) (wire (pr_end p (\<not> s)))"

definition set_end :: "bool \<Rightarrow> 'w conn \<Rightarrow> 'w pair \<Rightarrow> 'w pair" where
  "set_end s c p = p\<lparr>pr_end := (pr_end p)(s := c)\<rparr>"

text \<open>
  A read event: readv(2) takes at most \<open>n\<close> of the bytes in flight, no more than the buffers have
  room for, or fails with \<open>EAGAIN\<close>. What the user took is what the message callback removed.
\<close>

definition pair_read :: "'w env \<Rightarrow> bool \<Rightarrow> nat \<Rightarrow> 'w pair \<Rightarrow> 'w pair res" where
  "pair_read e s n p =
     (let c = pr_end p s;
          bs = take (min n (readv_room (tc_readBuffer c))) (in_flight p s);
          seen = mb_content (tc_readBuffer c) @ bs
      in bind_res (readCallback e (if bs = [] then ReadvError EAGAIN else ReadvBytes bs) c)
           (\<lambda>c. Inr ((set_end s c p)
              \<lparr>pr_got := (pr_got p)(s := pr_got p s + length bs),
               pr_taken := (pr_taken p)(s := pr_taken p s @
                 take (length seen - length (mb_content (tc_readBuffer c))) seen)\<rparr>)))"

fun pair_step :: "nat \<Rightarrow> (bool \<Rightarrow> 'w env) \<Rightarrow> pair_op \<Rightarrow> 'w pair \<Rightarrow> 'w pair res" where
  "pair_step k e (PairSend s bs) p =
     bind_res (TcpConnection_send (e s) True bs (pr_end p s)) (\<lambda>c. Inr (set_end s c p))"
| "pair_step k e (PairWritable s) p =
     bind_res (writeCallback k (e s) (pr_end p s)) (\<lambda>c. Inr (set_end s c p))"
| "pair_step k e (PairReadable s n) p = pair_read (e s) s n p"

fun pair_run :: "nat \<Rightarrow> (bool \<Rightarrow> 'w env) \<Rightarrow> pair_op list \<Rightarrow> 'w pair \<Rightarrow> 'w pair res" where
  "pair_run k e [] p = Inr p"
| "pair_run k e (x # xs) p = bind_res (pair_step k e x p) (pair_run k e xs)"

fun sent_by :: "bool \<Rightarrow> pair_op list \<Rightarrow> byte list" where
  "sent_by s [] = []"
| "sent_by s (PairSend s' bs # xs) = (if s' = s then bs else []) @ sent_by s xs"
| "sent_by s (_ # xs) = sent_by s xs"

section \<open>Writing leaves the read buffer alone\<close>

definition same_reader :: "'w conn \<Rightarrow> 'w conn \<Rightarrow> bool" where
  "same_reader c c' \<longleftrightarrow> tc_readBuffer c' = tc_readBuffer c"

lemma same_reader_refl [simp]: "same_reader c c"
  by (simp add: same_reader_def)

lemma same_reader_trans: "same_reader c d \<Longrightarrow> same_reader d c' \<Longrightarrow> same_reader c c'"
  by (simp add: same_reader_def)

lemma reader_fields [simp]:
  "tc_readBuffer (log_eff x c) = tc_readBuffer c" "tc_readBuffer (upd_chan f c) = tc_readBuffer c"
  "tc_readBuffer (extendLife e c) = tc_readBuffer c" "tc_readBuffer (set_node i nd c) = tc_readBuffer c"
  "tc_readBuffer (push_node i c) = tc_readBuffer c" "tc_readBuffer (highWater i c) = tc_readBuffer c"
  "tc_recvCb (extendLife e c) = tc_recvCb c"
  by (simp_all add: log_eff_def upd_chan_def set_node_def push_node_def highWater_def extendLife_def Let_def
      split: option.split)

lemma reader_writeRaw: "writeRaw e data c = (n, c') \<Longrightarrow> same_reader c c'"
  by (auto simp: writeRaw_def Let_def same_reader_def split: prod.splits)

lemma reader_enqueue: "enqueue_rest rest c = Inr c' \<Longrightarrow> same_reader c c'"
  by (auto simp: enqueue_rest_def Let_def new_node_def same_reader_def res_simps split: if_splits)

lemma reader_sendInLoop: "sendInLoop e data c = Inr c' \<Longrightarrow> same_reader c c'"
  by (auto simp: sendInLoop_alt Let_def writeInLoop_def split: if_splits prod.splits
      intro: same_reader_trans [OF reader_writeRaw reader_enqueue] reader_writeRaw reader_enqueue)

lemma reader_sendNode_loop: "sendNode_loop k e i h c = Inr (n, c') \<Longrightarrow> same_reader c c'"
proof (induction k arbitrary: h c)
  case (Suc k)
  then show ?case
    by (auto simp: Let_def writeInLoop_def res_simps same_reader_def split: if_splits prod.splits
        dest!: reader_writeRaw Suc.IH)
qed simp

lemma reader_sendFileNode:
  assumes "sendFileNode e i c = Inr (n, c')"
  shows "same_reader c c'"
proof (cases "node_remainingBytes (tc_nodes c i) \<le> 0")
  case False
  obtain fd where fd: "node_getFd (tc_nodes c i) = Inr fd"
    using assms False by (auto simp: sendFileNode_def Let_def res_simps)
  define count where "count = (if node_remainingBytes (tc_nodes c i) < int kMaxSendBytes
      then nat (node_remainingBytes (tc_nodes c i)) else kMaxSendBytes)"
  obtain r w where r: "os_sendfile (env_os e) (tc_fd c) fd count (tc_world c) = (r, w)" by fastforce
  show ?thesis
    using assms False
    by (auto simp: sendFileNode_def fd r simp flip: count_def)
       (auto simp: Let_def res_simps same_reader_def split: if_splits)
qed (use assms in \<open>simp add: sendFileNode_def\<close>)

lemma reader_sendNodeInLoop: "sendNodeInLoop k e i c = Inr (n, c') \<Longrightarrow> same_reader c c'"
  by (auto simp: sendNodeInLoop_def split: if_splits intro: reader_sendNode_loop reader_sendFileNode)

lemma reader_flush_loop: "flush_loop k e c = Inr (b, c') \<Longrightarrow> same_reader c c'"
proof (induction k arbitrary: c)
  case (Suc k)
  then show ?case
    by (auto simp: res_simps same_reader_def split: if_splits list.splits
        dest!: reader_sendNodeInLoop Suc.IH)
qed simp

lemma reader_writeCallback:
  assumes "writeCallback k e c = Inr c'" "\<not> tc_closeOnEmpty c"
  shows "same_reader c c'"
proof -
  have "tc_closeOnEmpty d = tc_closeOnEmpty c" if "flush_loop k e c = Inr (b, d)" for b d
    using frame_flush_loop [OF that] by (simp add: frame_def)
  with assms show ?thesis
    by (auto simp: writeCallback_def Let_def res_simps same_reader_def split: if_splits
        dest!: reader_flush_loop)
qed

section \<open>The invariant\<close>

text \<open>The message callback takes bytes from the front of the read buffer, as many as it likes.\<close>

definition consuming :: "'w env \<Rightarrow> bool" where
  "consuming e \<longleftrightarrow> (\<forall>b w. mb_wf b \<longrightarrow> mb_wf (fst (env_recv e b w)) \<and>
     (\<exists>n. mb_content (fst (env_recv e b w)) = drop n (mb_content b)))"

definition end_ok :: "'w conn \<Rightarrow> bool" where
  "end_ok c \<longleftrightarrow> conn_inv c \<and> mb_wf (tc_readBuffer c) \<and> tc_status c = Connected \<and>
     \<not> tc_closeOnEmpty c \<and> length (tc_writeList c) \<le> 1"

text \<open>
  \<open>sent s\<close> is what side \<open>s\<close> was asked to send: all of it is on the wire or pending, and what the
  other side took and buffers is the part of the wire that was delivered.
\<close>

definition pair_inv :: "(bool \<Rightarrow> byte list) \<Rightarrow> 'w pair \<Rightarrow> bool" where
  "pair_inv sent p \<longleftrightarrow>
     (\<forall>s. end_ok (pr_end p s) \<and> wire (pr_end p s) @ pending (pr_end p s) = sent s \<and>
        pr_got p s \<le> length (wire (pr_end p (\<not> s))) \<and>
        pr_taken p s @ mb_content (tc_readBuffer (pr_end p s)) =
          take (pr_got p s) (wire (pr_end p (\<not> s))))"

lemma pair_invD:
  assumes "pair_inv sent p"
  shows "end_ok (pr_end p s)" "wire (pr_end p s) @ pending (pr_end p s) = sent s"
    "pr_got p s \<le> length (wire (pr_end p (\<not> s)))"
    "pr_taken p s @ mb_content (tc_readBuffer (pr_end p s)) = take (pr_got p s) (wire (pr_end p (\<not> s)))"
  using assms by (auto simp: pair_inv_def)

text \<open>A writing step of one side.\<close>

lemma inv_write:
  assumes inv: "pair_inv sent p" and ok: "end_ok c" and rb: "same_reader (pr_end p s) c"
    and wire: "wire c @ pending c = sent s @ bs" and grows: "length (wire (pr_end p s)) \<le> length (wire c)"
  shows "pair_inv (sent(s := sent s @ bs)) (set_end s c p)"
proof -
  note D = pair_invD [OF inv]
  have "wire c @ pending c = wire (pr_end p s) @ pending (pr_end p s) @ bs"
    using wire D(2) [of s] by simp
  then have "take (length (wire (pr_end p s))) (wire c) = wire (pr_end p s)"
    using grows by (metis append_eq_append_conv_if append_take_drop_id take_append)
  then obtain x where x: "wire c = wire (pr_end p s) @ x"
    by (metis append_take_drop_id)
  have other: "pr_got p (\<not> s) \<le> length (wire c)" "take (pr_got p (\<not> s)) (wire c) =
      take (pr_got p (\<not> s)) (wire (pr_end p s))"
    using D(3) [of "\<not> s"] x by simp_all
  show ?thesis
    unfolding pair_inv_def
  proof
    fix s'
    show "end_ok (pr_end (set_end s c p) s') \<and>
       wire (pr_end (set_end s c p) s') @ pending (pr_end (set_end s c p) s') =
         (sent(s := sent s @ bs)) s' \<and>
       pr_got (set_end s c p) s' \<le> length (wire (pr_end (set_end s c p) (\<not> s'))) \<and>
       pr_taken (set_end s c p) s' @ mb_content (tc_readBuffer (pr_end (set_end s c p) s')) =
         take (pr_got (set_end s c p) s') (wire (pr_end (set_end s c p) (\<not> s')))"
    proof (cases "s' = s")
      case True
      with ok rb wire D [of s] show ?thesis by (simp add: set_end_def same_reader_def)
    next
      case False
      then have "s' = (\<not> s)" by simp
      with other D [of "\<not> s"] show ?thesis by (simp add: set_end_def)
    qed
  qed
qed

text \<open>A read event on a connection: bytes are appended to the read buffer, then some are taken.\<close>

lemma read_some:
  assumes ok: "end_ok c" and cons: "consuming e" and bs: "bs \<noteq> []" "length bs \<le> readv_room (tc_readBuffer c)"
  shows "readCallback e (ReadvBytes bs) c = Inl AllocError \<or>
    (\<exists>c' n. readCallback e (ReadvBytes bs) c = Inr c' \<and> end_ok c' \<and> wire c' = wire c \<and>
       pending c' = pending c \<and>
       mb_content (tc_readBuffer c') = drop n (mb_content (tc_readBuffer c) @ bs))"
proof -
  have wf: "mb_wf (tc_readBuffer c)" using ok by (simp add: end_ok_def)
  from readFd_bytes [OF wf bs(2), of 0] consider
      "readFd (ReadvBytes bs) 0 (tc_readBuffer c) = Inl AllocError"
    | b where "readFd (ReadvBytes bs) 0 (tc_readBuffer c) = Inr (int (length bs), 0, b)" "mb_wf b"
        "mb_content b = mb_content (tc_readBuffer c) @ bs" by blast
  then show ?thesis
  proof cases
    case (2 b)
    obtain b' w where r: "env_recv e b (tc_world c) = (b', w)" by fastforce
    with cons 2(2) obtain n where n: "mb_wf b'" "mb_content b' = drop n (mb_content b)"
      unfolding consuming_def by (metis fst_conv)
    let ?c = "(extendLife e (c\<lparr>tc_readBuffer := b, tc_errno := tc_errno c\<rparr>))
        \<lparr>tc_bytesReceived := sz_add (tc_bytesReceived (extendLife e (c\<lparr>tc_readBuffer := b,
           tc_errno := tc_errno c\<rparr>))) (length bs)\<rparr>"
    let ?d = "log_eff (EffRecvCb (mb_content b)) (?c\<lparr>tc_readBuffer := b', tc_world := w\<rparr>)"
    have eq: "readCallback e (ReadvBytes bs) c = Inr (if tc_recvCb c then ?d else ?c)"
      using 2(1) r bs(1) by (simp add: readCallback_def Let_def)
    have c: "end_ok ?c" "wire ?c = wire c" "pending ?c = pending c"
      using ok 2(2) by (simp_all add: end_ok_def conn_inv_def wire_def pending_def)
    have d: "end_ok ?d" "wire ?d = wire c" "pending ?d = pending c"
      using ok n(1) by (simp_all add: end_ok_def conn_inv_def wire_def pending_def)
    have m: "mb_content (tc_readBuffer ?c) = drop 0 (mb_content (tc_readBuffer c) @ bs)"
      "mb_content (tc_readBuffer ?d) = drop n (mb_content (tc_readBuffer c) @ bs)"
      using 2(3) n(2) by simp_all
    show ?thesis
    proof (cases "tc_recvCb c")
      case True
      then show ?thesis unfolding eq using d m(2) by (intro disjI2 exI [of _ ?d] exI [of _ n]) simp
    next
      case False
      then show ?thesis unfolding eq using c m(1) by (intro disjI2 exI [of _ ?c] exI [of _ 0]) simp
    qed
  qed (simp add: readCallback_def)
qed

lemma read_nothing:
  assumes "end_ok c"
  shows "\<exists>c'. readCallback e (ReadvError EAGAIN) c = Inr c' \<and> end_ok c' \<and> wire c' = wire c \<and>
    pending c' = pending c \<and> tc_readBuffer c' = tc_readBuffer c"
  using assms
  by (simp add: readCallback_def readFd_def end_ok_def conn_inv_def wire_def pending_def EAGAIN_def
      EPIPE_def ECONNRESET_def)

lemma inv_read:
  assumes inv: "pair_inv sent p" and cons: "consuming e"
  shows "pair_read e s n p = Inl AllocError \<or> (\<exists>p'. pair_read e s n p = Inr p' \<and> pair_inv sent p')"
proof -
  note D = pair_invD [OF inv]
  let ?c = "pr_end p s"
  define bs where "bs = take (min n (readv_room (tc_readBuffer ?c))) (in_flight p s)"
  define seen where "seen = mb_content (tc_readBuffer ?c) @ bs"
  have len: "length bs \<le> readv_room (tc_readBuffer ?c)" by (simp add: bs_def)
  have got: "pr_got p s + length bs \<le> length (wire (pr_end p (\<not> s)))"
    using D(3) [of s] by (simp add: bs_def in_flight_def)
  have "bs = take (length bs) (in_flight p s)" unfolding bs_def length_take by (metis min.commute take_take take_all_iff order_refl)
  then have all: "pr_taken p s @ seen = take (pr_got p s + length bs) (wire (pr_end p (\<not> s)))"
    using D(4) [of s] by (simp add: seen_def take_add in_flight_def flip: append_assoc)
  have keep: "pair_inv sent ((set_end s c p)\<lparr>pr_got := (pr_got p)(s := pr_got p s + length bs),
       pr_taken := (pr_taken p)(s := pr_taken p s @
         take (length seen - length (mb_content (tc_readBuffer c))) seen)\<rparr>)"
    if "end_ok c" "wire c = wire ?c" "pending c = pending ?c" "mb_content (tc_readBuffer c) = drop m seen"
    for c m
  proof -
    have "take (length seen - length (drop m seen)) seen @ drop m seen = seen"
      by (cases "m \<le> length seen") simp_all
    then show ?thesis
      using that D got all D(3) [of "\<not> s"] D(4) [of "\<not> s"] by (auto simp: pair_inv_def set_end_def)
  qed
  have run: "pair_read e s n p =
      bind_res (readCallback e (if bs = [] then ReadvError EAGAIN else ReadvBytes bs) ?c)
        (\<lambda>c. Inr ((set_end s c p)\<lparr>pr_got := (pr_got p)(s := pr_got p s + length bs),
           pr_taken := (pr_taken p)(s := pr_taken p s @
             take (length seen - length (mb_content (tc_readBuffer c))) seen)\<rparr>))"
    unfolding pair_read_def Let_def bs_def seen_def ..
  show ?thesis
  proof (cases "bs = []")
    case True
    from read_nothing [OF D(1) [of s], of e] obtain c where
      c: "readCallback e (ReadvError EAGAIN) ?c = Inr c" "end_ok c" "wire c = wire ?c"
        "pending c = pending ?c" "tc_readBuffer c = tc_readBuffer ?c" by blast
    have "mb_content (tc_readBuffer c) = drop 0 seen" using c(5) True by (simp add: seen_def)
    have r: "(if bs = [] then ReadvError EAGAIN else ReadvBytes bs) = ReadvError EAGAIN"
      using True by simp
    from keep [OF c(2-4) \<open>mb_content _ = _\<close>] show ?thesis
      unfolding run r c(1) bind_res_simps by blast
  next
    case False
    from read_some [OF D(1) [of s] cons False len] consider
        "readCallback e (ReadvBytes bs) ?c = Inl AllocError"
      | c m where "readCallback e (ReadvBytes bs) ?c = Inr c" "end_ok c" "wire c = wire ?c"
          "pending c = pending ?c" "mb_content (tc_readBuffer c) = drop m seen"
      unfolding seen_def by blast
    then show ?thesis
    proof cases
      case (2 c m)
      have r: "(if bs = [] then ReadvError EAGAIN else ReadvBytes bs) = ReadvBytes bs"
        using False by simp
      from keep [OF 2(2-5)] show ?thesis
        unfolding run r 2(1) bind_res_simps by blast
    qed (simp add: run False)
  qed
qed

lemma pair_inv_step:
  assumes inv: "pair_inv sent p" and ok: "\<And>s. write_ok (e s)" "\<And>s. consuming (e s)" and k: "5 \<le> k"
    and small: "\<And>s. length (sent s) + length (sent_by s [x]) < 2147483648"
  shows "pair_step k e x p = Inl AllocError \<or>
    (\<exists>p'. pair_step k e x p = Inr p' \<and> pair_inv (\<lambda>s. sent s @ sent_by s [x]) p')"
proof (cases x)
  case (PairSend s bs)
  note D = pair_invD [OF inv, of s]
  have len: "length bs < 2147483648" using small [of s] PairSend by simp
  have "(\<lambda>s. sent s @ sent_by s [x]) = sent(s := sent s @ bs)" by (auto simp: PairSend)
  moreover have "pair_inv (sent(s := sent s @ bs)) (set_end s c p)"
    if c: "sendInLoop (e s) bs (pr_end p s) = Inr c" "conn_inv c" "tc_status c = Connected"
      "wire c @ pending c = wire (pr_end p s) @ pending (pr_end p s) @ bs"
      "length (wire (pr_end p s)) \<le> length (wire c)" "length (tc_writeList c) \<le> max 1 (length (tc_writeList (pr_end p s)))"
    for c
    using inv_write [OF inv _ reader_sendInLoop [OF c(1)]] c D sendInLoop_closeOnEmpty [OF ok(1) len c(1)]
      reader_sendInLoop [OF c(1)]
    by (simp add: end_ok_def same_reader_def flip: append_assoc)
  ultimately show ?thesis
    using sendInLoop_stream [OF _ ok(1) len, of "pr_end p s" s] D
    by (auto simp: PairSend TcpConnection_send_def end_ok_def)
next
  case (PairWritable s)
  note D = pair_invD [OF inv, of s]
  have "length (pending (pr_end p s)) < 2147483648"
    using small [of s] arg_cong [OF D(2), of length] by simp
  with writeCallback_stream [OF _ ok(1) small_of_pending, of "pr_end p s" k s] D k
  obtain c where c: "writeCallback k (e s) (pr_end p s) = Inr c" "conn_inv c"
    "wire c @ pending c = sent s @ []" "tc_status c = Connected" "\<not> tc_closeOnEmpty c"
    "length (wire (pr_end p s)) \<le> length (wire c)" "length (tc_writeList c) \<le> 1"
    by (fastforce simp: end_ok_def)
  have rd: "same_reader (pr_end p s) c"
    using reader_writeCallback [OF c(1)] D(1) by (simp add: end_ok_def)
  then have "end_ok c" using c D(1) by (simp add: end_ok_def same_reader_def)
  from inv_write [OF inv this rd c(3,6)] c(1) show ?thesis by (simp add: PairWritable fun_upd_triv)
next
  case (PairReadable s n)
  with inv_read [OF inv ok(2)] show ?thesis by simp
qed

lemma pair_inv_run:
  assumes "pair_inv sent p" "\<And>s. write_ok (e s)" "\<And>s. consuming (e s)" "5 \<le> k"
    "\<And>s. length (sent s) + length (sent_by s xs) < 2147483648"
  shows "pair_run k e xs p = Inl AllocError \<or>
    (\<exists>p'. pair_run k e xs p = Inr p' \<and> pair_inv (\<lambda>s. sent s @ sent_by s xs) p')"
  using assms(1,5)
proof (induction xs arbitrary: sent p)
  case (Cons x xs)
  have split: "sent_by s (x # xs) = sent_by s [x] @ sent_by s xs" for s
    by (cases x) simp_all
  have "length (sent s) + length (sent_by s [x]) < 2147483648" for s
    using Cons.prems(2) [of s] split [of s] by simp
  from pair_inv_step [of sent p e k x, OF Cons.prems(1) assms(2-4) this] consider
      "pair_step k e x p = Inl AllocError"
    | p' where "pair_step k e x p = Inr p'" "pair_inv (\<lambda>s. sent s @ sent_by s [x]) p'"
    by blast
  then show ?case
  proof cases
    case (2 p')
    with Cons.IH [OF 2(2)] Cons.prems(2) split show ?thesis by (simp add: add.assoc)
  qed simp
qed simp

section \<open>The stream between two users\<close>

text \<open>Both ends newly established, nothing sent, read or taken; \<open>True\<close> is the server's side.\<close>

definition pair_new :: "'w conn \<Rightarrow> 'w conn \<Rightarrow> 'w pair" where
  "pair_new a b = \<lparr>pr_end = (\<lambda>s. if s then a else b), pr_got = (\<lambda>s. 0), pr_taken = (\<lambda>s. [])\<rparr>"

lemma newly_open_ok:
  assumes "newly_open c"
  shows "end_ok c" "pending c = []" "wire c = []" "mb_content (tc_readBuffer c) = []"
  using assms by (simp_all add: newly_open_def end_ok_def conn_inv_def pending_def)

lemma new_pair_inv: "newly_open a \<Longrightarrow> newly_open b \<Longrightarrow> pair_inv (\<lambda>s. []) (pair_new a b)"
  by (simp add: pair_inv_def pair_new_def newly_open_ok)

text \<open>A message callback that takes bytes from the front; none at all takes nothing.\<close>

definition takes_from_front :: "'w user_callbacks \<Rightarrow> bool" where
  "takes_from_front u \<longleftrightarrow> (\<forall>f. uc_message u = Some f \<longrightarrow> (\<forall>b w. mb_wf b \<longrightarrow>
     mb_wf (fst (f b w)) \<and> (\<exists>n. mb_content (fst (f b w)) = drop n (mb_content b))))"

lemma user_env_ok:
  "takes_from_front u \<Longrightarrow> consuming e \<Longrightarrow> consuming (user_env u e)"
  "write_ok e \<Longrightarrow> write_ok (user_env u e)"
  by (auto simp: takes_from_front_def consuming_def user_env_def write_ok_def split: option.splits)

lemma default_callbacks_take: "takes_from_front server_callbacks" "takes_from_front client_callbacks"
proof -
  have "\<exists>n. [] = drop n (mb_content b)" for b
    by (intro exI [of _ "length (mb_content b)"]) simp
  then show "takes_from_front server_callbacks" "takes_from_front client_callbacks"
    by (simp_all add: takes_from_front_def server_callbacks_def client_callbacks_def
        server_default_message_def defaultMessageCallback_def retrieveAll_wf retrieveAll_content)
qed


lemma two_byte_consuming: "consuming two_byte_env"
proof -
  have "\<exists>n. mb_content (fst (env_recv two_byte_env b w)) = drop n (mb_content b)" for b w
    by (intro exI [of _ 0]) (simp add: two_byte_env_def)
  then show ?thesis by (simp add: consuming_def two_byte_env_def)
qed


end
