(* ===== verification/Spec2Isabelle.thy ===== *)
theory Spec2Isabelle
  imports BufferProps BufferTypes EpollProps TcpConnectionTheorems ConnectionPoller ConnectionAccess AsyncStream NodeLifetime
    IdleKickoff TimerProps WheelProps LoopWakeup EventLoopRounds EventLoopEnd InetAddress Utilities SslName
    ConnectorProps ConcurrentTaskQueue TcpServerProps TcpClient AcceptorProps EventLoopThreadProps
    EventLoopThreadPool SerialTaskQueue TlsConnection ConnectionPair
begin

text \<open>
  A model of the xiaoNet network library (src/xiaoNet), a C++ library of event loops and TCP
  connections, with the properties that make it correct and those by which it is not.

  \<^bold>\<open>The program.\<close> An \<open>EventLoop\<close> owns a \<open>Poller\<close> (epoll), a \<open>TimerQueue\<close> (a timerfd and a heap) and a
  lock-free queue of functions other threads give it; it waits, runs the handlers of the \<open>Channel\<close>s the
  poller reports, then the queued functions. A \<open>TcpConnectionImpl\<close> is the handler of a connected
  socket: it reads into a \<open>MsgBuffer\<close>, writes at once or through a list of \<open>BufferNode\<close>s, and is
  closed by a \<open>TimingWheel\<close> when idle. An \<open>Acceptor\<close> (server) and a \<open>Connector\<close> (client) make sockets;
  \<open>TcpServer\<close> and \<open>TcpClient\<close> turn them into connections spread over the loops of an
  \<open>EventLoopThreadPool\<close>. The task queues are a separate use of threads and loops.

  \<^bold>\<open>Conventions\<close> (Prelude). An operation that may stop returns \<open>failure + 'a\<close>; the failures are a failed
  \<open>assert\<close>, an access outside an allocation, undefined behaviour, a failed allocation, an exception,
  the end of the process, and a wait nobody ends. A \<open>size_t\<close> is a natural number with the wrap-around
  of \<open>sz_add\<close>, \<open>sz_sub\<close> and \<open>sz_mul\<close>, other integers are words or \<open>int\<close> with explicit conversions.
  Assertions count: the model is of the build without \<open>NDEBUG\<close>, on 64-bit Linux. Logging is left out.
  System calls, clocks, packages outside the repository and callbacks of the user are parameters:
  functions on a world, records of them (\<open>os\<close>, \<open>env\<close>, \<open>sys\<close>), or the outcomes a step is given. Threads
  are step relations whose steps are the operations on shared memory.

  \<^bold>\<open>Bytes.\<close>
  ByteQueue is the contract of a byte queue (a locale) with its stream lemma; MsgBuffer and
  MsgBufferInts model utils/MsgBuffer.{h,cpp} and interpret it; ByteOrder is the standard
  library's; BufferNode and NodeLifetime are net/inner/*BufferNode*. BufferProps holds the stream
  and round trip theorems and the inputs on which the code breaks (\<open>readInt16\<close>, \<open>addInFront\<close>, a
  short first chunk), BufferTypes the safety of all calls. \<open>ensureWritableBytes\<close> calls itself at
  most twice: fuel 2.

  \<^bold>\<open>Events.\<close>
  Channel models net/Channel.{h,cpp}; EpollPoller and EpollProps net/inner/poller/EpollPoller.{h,cpp}
  against a specification of the interest list of epoll. PrioQueue is the contract of the heap (a
  locale), TimerQueue interprets it and models net/inner/Timer*.{h,cpp}; TimerProps shows what runs
  when. EventLoop models net/EventLoop.{h,cpp} as its own thread runs it, EventLoopProps that queued
  functions run in order and what the end of the loop does, EventLoopRounds that a round ends when
  functions have weights (fuel: the weight of what waits and two), EventLoopEnd the destructors.
  MpscQueue models utils/LockFreeQueue.h between its atomic operations, and LoopWakeup puts it under the loop:
  no function is queued and forgotten. TimingWheel and WheelProps are utils/TimingWheel.{h,cpp},
  shown to refine a schedule; 64 iterations of the loop that counts the wheels are enough whenever
  the product does not wrap.

  \<^bold>\<open>Connections.\<close>
  TcpConnection models net/inner/TcpConnectionImpl.{h,cpp} as a state machine over its channel, its
  list of nodes, the tasks queued in its loop and a log of effects; ConnectionAccess and AsyncStream
  add what the user sees of it. TcpConnectionProps proves the order of sent bytes (for sizes below
  \<open>2\<^sup>3\<^sup>1\<close>, where \<open>writeRaw\<close> narrows to \<open>int\<close>; fuel twice the length of the list and three), TcpConnectionLife
  the life cycle, TcpConnectionTheorems states these and the ways data or a shutdown is lost.
  ConnectionPoller composes a connection with the poller it registers in, IdleKickoff with the
  timing wheel and the clock. ConnectionSetup is what TcpServer and TcpClient make of a new connection
  and the callbacks of their users; ConnectionPair puts two such connections on the ends of a socket
  pair: what one user sends the other receives, in order (fuel 5 is enough, since a list never holds
  more than one node there). TlsConnection repeats the connection with the branches on a TLS provider,
  whose class is a parameter, and shows that without a provider nothing differs.

  \<^bold>\<open>Clients and servers.\<close>
  Socket and Acceptor model net/inner/Socket.{h,cpp} and Acceptor.{h,cpp} over a record of system
  calls; the locale \<open>descriptor_kernel\<close> states what they rely on and is interpreted on a small
  kernel with a limit of descriptors and a backlog; AcceptorProps shows which descriptors are held
  and that an acceptor with a spare one does not spin. Connector and ConnectorProps are
  net/inner/Connector.{h,cpp}, TcpServer and TcpServerProps net/TcpServer.{h,cpp}, TcpClient
  net/TcpClient.{h,cpp}, InetAddress net/InetAddress.{h,cpp}. Utilities and SslName are
  utils/Utilities.cpp: UTF-8 and the matching of host names. TlsProvider and SslCallbacks are
  net/TLSPolicy.h, the code of net/inner/TLSProvider.h and two of the callbacks a connection gives it.

  \<^bold>\<open>Threads.\<close>
  EventLoopThread and EventLoopThreadProps model net/EventLoopThread.{h,cpp} with its promises,
  EventLoopThreadPool the pool and its round robin, SerialTaskQueue utils/SerialTaskQueue.{h,cpp} and
  TaskQueue.h, ConcurrentTaskQueue the queue of that name with its mutex and condition variable.

  \<^bold>\<open>Not modelled.\<close>
  TLS itself: no provider is in the repository and the factories of this build throw, so TlsConnection
  can say nothing of what a provider does beyond its base class. Certificates, hashes and secure random numbers are only
  declared. \<open>Poller\<close> and \<open>AsyncStream\<close> are abstract classes; NonCopyable and callbacks.h have no
  behaviour. The texts of addresses go through \<open>inet_ntop\<close> and \<open>inet_pton\<close>. Windows and BSD variants are
  not in the build. Test programs are not part of the library. Times in floating point
  (\<open>runAfter\<close>, the tick interval) are parameters. Effects of weak memory are not: the atomic operations
  are sequentially consistent here.
\<close>

end
